(* ===== verification/Prelude.thy ===== *)
theory Prelude
  imports Main "HOL-Library.AList" "HOL-Library.Sublist"
begin

text \<open>
  Shared vocabulary of the development: Go maps as association lists with distinct keys
  (so that a range loop has something to enumerate), fallible operations as sums with the
  error on the left, early-return loops, and the few string functions of Go's standard
  library that several components use.
\<close>

named_theorems gomap \<open>rewrite rules for Go maps (association lists with distinct keys)\<close>
named_theorems result_simps \<open>rewrite rules for sums used as results\<close>

section \<open>Go maps\<close>

text \<open>
  The order in which Go ranges over a map is not specified. The model enumerates a map in
  the order of its list, and the theorems about ranging results are stated about sets or
  are independent of that order.
\<close>

type_synonym ('k, 'v) gomap = "('k \<times> 'v) list"

abbreviation wf_map :: "('k, 'v) gomap \<Rightarrow> bool" where
  "wf_map m \<equiv> distinct (map fst m)"

abbreviation mget :: "('k, 'v) gomap \<Rightarrow> 'k \<Rightarrow> 'v option" where
  "mget \<equiv> map_of"

abbreviation mput :: "'k \<Rightarrow> 'v \<Rightarrow> ('k, 'v) gomap \<Rightarrow> ('k, 'v) gomap" where
  "mput \<equiv> AList.update"

abbreviation mdel :: "'k \<Rightarrow> ('k, 'v) gomap \<Rightarrow> ('k, 'v) gomap" where
  "mdel \<equiv> AList.delete"

abbreviation mhas :: "('k, 'v) gomap \<Rightarrow> 'k \<Rightarrow> bool" where
  "mhas m k \<equiv> mget m k \<noteq> None"

lemma mget_mput [gomap]: "mget (mput k v m) k' = (if k' = k then Some v else mget m k')"
  by (simp add: AList.update_conv')

lemma mget_mdel [gomap]: "mget (mdel k m) k' = (if k' = k then None else mget m k')"
  by (simp add: AList.delete_conv')

lemma wf_mput [gomap]: "wf_map m \<Longrightarrow> wf_map (mput k v m)"
  by (rule AList.distinct_update)

lemma wf_mdel [gomap]: "wf_map m \<Longrightarrow> wf_map (mdel k m)"
  by (rule AList.distinct_delete)

lemma dom_mput [gomap]: "dom (mget (mput k v m)) = insert k (dom (mget m))"
  by (simp add: AList.update_conv')

lemma dom_mdel [gomap]: "dom (mget (mdel k m)) = dom (mget m) - {k}"
  by (simp add: AList.delete_conv')

lemma mget_in_set: "wf_map m \<Longrightarrow> (k, v) \<in> set m \<longleftrightarrow> mget m k = Some v"
  by simp

text \<open>Sets as Go maps to the empty struct: the list of keys, without duplicates.\<close>

abbreviation sadd :: "'a \<Rightarrow> 'a list \<Rightarrow> 'a list" where
  "sadd \<equiv> List.insert"

abbreviation sdel :: "'a \<Rightarrow> 'a list \<Rightarrow> 'a list" where
  "sdel \<equiv> removeAll"

section \<open>Results\<close>

definition bindR :: "'e + 'a \<Rightarrow> ('a \<Rightarrow> 'e + 'b) \<Rightarrow> 'e + 'b" where
  "bindR r f = (case r of Inl e \<Rightarrow> Inl e | Inr x \<Rightarrow> f x)"

lemma bindR_Inl [simp, result_simps]: "bindR (Inl e) f = Inl e"
  by (simp add: bindR_def)

lemma bindR_Inr [simp, result_simps]: "bindR (Inr x) f = f x"
  by (simp add: bindR_def)

lemma bindR_eq_Inr [result_simps]: "bindR r f = Inr y \<longleftrightarrow> (\<exists>x. r = Inr x \<and> f x = Inr y)"
  by (cases r) auto

lemma bindR_eq_Inl [result_simps]:
  "bindR r f = Inl e \<longleftrightarrow> r = Inl e \<or> (\<exists>x. r = Inr x \<and> f x = Inl e)"
  by (cases r) auto

lemma bindR_cong [fundef_cong]:
  "r = r' \<Longrightarrow> (\<And>x. r' = Inr x \<Longrightarrow> f x = f' x) \<Longrightarrow> bindR r f = bindR r' f'"
  by (cases r') auto

text \<open>
  \<open>mapR f xs\<close> is the loop that applies a fallible operation to each element and returns
  the first error.
\<close>

fun mapR :: "('a \<Rightarrow> 'e + 'b) \<Rightarrow> 'a list \<Rightarrow> 'e + 'b list" where
  "mapR f [] = Inr []"
| "mapR f (x # xs) = bindR (f x) (\<lambda>y. bindR (mapR f xs) (\<lambda>ys. Inr (y # ys)))"

section \<open>Lists\<close>

lemma filter_length_le: "length xs = length (filter P xs) \<Longrightarrow> filter P xs = xs"
  by (metis filter_id_conv length_filter_less less_irrefl)

lemma set_butlast_last: "xs \<noteq> [] \<Longrightarrow> set xs = insert (last xs) (set (butlast xs))"
  by (metis append_butlast_last_id list.simps(15) rotate1.simps(2) set_rotate1)

lemma distinct_butlast_last:
  "xs \<noteq> [] \<Longrightarrow> distinct xs \<longleftrightarrow> distinct (butlast xs) \<and> last xs \<notin> set (butlast xs)"
  by (metis append_butlast_last_id distinct.simps(2) distinct1_rotate rotate1.simps(2))

section \<open>Strings\<close>

text \<open>
  A string is a list of characters; a character stands for one code point up to U+00FF.
  \<open>ascii_upper\<close> and \<open>ascii_lower\<close> change the ASCII letters only.
\<close>

abbreviation between :: "nat \<Rightarrow> nat \<Rightarrow> char \<Rightarrow> bool" where
  "between lo hi c \<equiv> lo \<le> of_char c \<and> of_char c \<le> hi"

definition ascii_upper :: "char \<Rightarrow> char" where
  "ascii_upper c = (if between 97 122 c then char_of (of_char c - 32 :: nat) else c)"

definition ascii_lower :: "char \<Rightarrow> char" where
  "ascii_lower c = (if between 65 90 c then char_of (of_char c + 32 :: nat) else c)"

text \<open>\<open>strings.ToLower\<close> also maps the Latin-1 capital letters.\<close>

definition lower_char :: "char \<Rightarrow> char" where
  "lower_char c =
    (if between 65 90 c \<or> between 192 222 c \<and> of_char c \<noteq> (215 :: nat)
     then char_of (of_char c + 32 :: nat) else c)"

definition ToLower :: "string \<Rightarrow> string" where
  "ToLower = map lower_char"

text \<open>\<open>strings.Split s sep\<close> for a one-character separator.\<close>

fun split_on :: "char \<Rightarrow> string \<Rightarrow> string list" where
  "split_on sep [] = [[]]"
| "split_on sep (c # cs) =
     (if c = sep then [] # split_on sep cs
      else (case split_on sep cs of [] \<Rightarrow> [[c]] | w # ws \<Rightarrow> (c # w) # ws))"

lemma split_on_nonempty [simp]: "split_on sep s \<noteq> []"
  by (induction s) (auto split: list.splits)

text \<open>\<open>strings.Join\<close>.\<close>

fun join_with :: "string \<Rightarrow> string list \<Rightarrow> string" where
  "join_with sep [] = []"
| "join_with sep [w] = w"
| "join_with sep (w # v # ws) = w @ sep @ join_with sep (v # ws)"

lemma split_on_no_sep: "sep \<notin> set s \<Longrightarrow> split_on sep s = [s]"
  by (induction s) auto

lemma join_split: "join_with [sep] (split_on sep s) = s"
proof (induction s)
  case (Cons c s)
  then show ?case
    by (cases "split_on sep s" rule: list.exhaust; cases "tl (split_on sep s)")
       (auto simp: neq_Nil_conv)
qed simp

end
