(* ===== verification/Claims_Principal.thy ===== *)
theory Claims_Principal
  imports Prelude
begin

text \<open>
  The claims principal of one request (\<^verbatim>\<open>services/common/claimsprincipal/claimsprincipal.go\<close>
  and the interface \<^verbatim>\<open>contracts/common/claimsprincipal.go\<close>): a map from claim type to the
  list of its values, and a second map that answers \<open>HasClaim\<close> without a scan. The
  invariant says the two maps agree; the abstraction is the set of claims held. The locale
  \<open>claims_store\<close> is the contract of \<^verbatim>\<open>IClaimsPrincipal\<close> that the middleware relies on.
\<close>

section \<open>Data\<close>

record claim =
  c_type :: string
  c_value :: string

abbreviation mk_claim :: "string \<Rightarrow> string \<Rightarrow> claim" where
  "mk_claim t v \<equiv> \<lparr>c_type = t, c_value = v\<rparr>"

lemma claim_eq_iff: "c = (d :: claim) \<longleftrightarrow> c_type c = c_type d \<and> c_value c = c_value d"
  by auto

record claimsPrincipal =
  cp_claims :: "(string, string list) gomap"
  cp_fastMap :: "(string, (string, bool) gomap) gomap"

section \<open>Operations\<close>

definition NewIClaimsPrincipal :: claimsPrincipal where
  "NewIClaimsPrincipal = \<lparr>cp_claims = [], cp_fastMap = []\<rparr>"

text \<open>\<open>removeIndex\<close> panics (\<open>None\<close>) on an index out of range; it moves the last element
  into the hole and truncates.\<close>

definition removeIndex :: "string list \<Rightarrow> nat \<Rightarrow> string list option" where
  "removeIndex s index =
     (if index \<ge> length s then None else Some (butlast (s[index := last s])))"

fun RemoveClaimType :: "claimsPrincipal \<Rightarrow> string list \<Rightarrow> claimsPrincipal" where
  "RemoveClaimType p [] = p"
| "RemoveClaimType p (t # ts) =
     (if mhas (cp_claims p) t
      then RemoveClaimType (p\<lparr>cp_claims := mdel t (cp_claims p),
                              cp_fastMap := mdel t (cp_fastMap p)\<rparr>) ts
      else RemoveClaimType p ts)"

fun index_of :: "'a \<Rightarrow> 'a list \<Rightarrow> nat option" where
  "index_of x [] = None"
| "index_of x (y # ys) = (if y = x then Some 0 else map_option Suc (index_of x ys))"

text \<open>The body of the loop of \<open>RemoveClaim\<close>; \<open>None\<close> is the panic of \<open>removeIndex\<close>.\<close>

definition removeClaim1 :: "claimsPrincipal \<Rightarrow> claim \<Rightarrow> claimsPrincipal option" where
  "removeClaim1 p c =
     (case mget (cp_claims p) (c_type c) of
        None \<Rightarrow> Some p
      | Some vs \<Rightarrow>
          (case index_of (c_value c) vs of
             None \<Rightarrow> Some p
           | Some i \<Rightarrow>
               (case removeIndex vs i of
                  None \<Rightarrow> None
                | Some vs' \<Rightarrow>
                    Some (if vs' = []
                          then p\<lparr>cp_claims := mdel (c_type c) (cp_claims p),
                                 cp_fastMap := mdel (c_type c) (cp_fastMap p)\<rparr>
                          else p\<lparr>cp_claims := mput (c_type c) vs' (cp_claims p),
                                 cp_fastMap :=
                                   (case mget (cp_fastMap p) (c_type c) of
                                      None \<Rightarrow> cp_fastMap p
                                    | Some m \<Rightarrow> mput (c_type c) (mdel (c_value c) m) (cp_fastMap p))\<rparr>))))"

fun RemoveClaim :: "claimsPrincipal \<Rightarrow> claim list \<Rightarrow> claimsPrincipal option" where
  "RemoveClaim p [] = Some p"
| "RemoveClaim p (c # cs) =
     (case removeClaim1 p c of None \<Rightarrow> None | Some p' \<Rightarrow> RemoveClaim p' cs)"

definition HasClaimType :: "claimsPrincipal \<Rightarrow> string \<Rightarrow> bool" where
  "HasClaimType p t = mhas (cp_claims p) t"

definition GetClaimsByType :: "claimsPrincipal \<Rightarrow> string \<Rightarrow> claim list" where
  "GetClaimsByType p t =
     (case mget (cp_claims p) t of
        None \<Rightarrow> []
      | Some vs \<Rightarrow> map (mk_claim t) vs)"

definition HasClaim :: "claimsPrincipal \<Rightarrow> claim \<Rightarrow> bool" where
  "HasClaim p c =
     (case mget (cp_fastMap p) (c_type c) of
        None \<Rightarrow> False
      | Some m \<Rightarrow> mhas m (c_value c))"

definition addFastMapClaim :: "claimsPrincipal \<Rightarrow> claim \<Rightarrow> claimsPrincipal" where
  "addFastMapClaim p c =
     (let parent = (case mget (cp_fastMap p) (c_type c) of None \<Rightarrow> [] | Some m \<Rightarrow> m)
      in p\<lparr>cp_fastMap := mput (c_type c) (mput (c_value c) True parent) (cp_fastMap p)\<rparr>)"

fun AddClaim :: "claimsPrincipal \<Rightarrow> claim list \<Rightarrow> claimsPrincipal" where
  "AddClaim p [] = p"
| "AddClaim p (c # cs) =
     (if length (c_type c) = 0 then AddClaim p cs
      else if HasClaim p c then AddClaim p cs
      else
        let old = (case mget (cp_claims p) (c_type c) of None \<Rightarrow> [] | Some vs \<Rightarrow> vs);
            p' = p\<lparr>cp_claims := mput (c_type c) (old @ [c_value c]) (cp_claims p)\<rparr>
        in AddClaim (addFastMapClaim p' c) cs)"

definition GetClaims :: "claimsPrincipal \<Rightarrow> claim list" where
  "GetClaims p = concat (map (\<lambda>(t, vs). map (mk_claim t) vs) (cp_claims p))"

text \<open>
  Values of a decoded claim set. A float is rendered by \<^verbatim>\<open>fmt.Sprintf("%v", f)\<close>, the
  parameter \<open>fmtF\<close>; \<open>CVOther\<close> stands for every type the switch does not name.
\<close>

datatype 'f claimValue =
    CVFloat 'f
  | CVBool bool
  | CVString string
  | CVList "'f claimValue list"
  | CVStrings "string list"
  | CVOther

definition NewBoolClaim :: "string \<Rightarrow> bool \<Rightarrow> claim" where
  "NewBoolClaim t b = mk_claim t (if b then ''true'' else ''false'')"

definition NewStringClaim :: "string \<Rightarrow> string \<Rightarrow> claim" where
  "NewStringClaim t s = mk_claim t s"

definition NewFloat64Claim :: "('f \<Rightarrow> string) \<Rightarrow> string \<Rightarrow> 'f \<Rightarrow> claim" where
  "NewFloat64Claim fmtF t f = mk_claim t (fmtF f)"

fun claimOfScalar :: "('f \<Rightarrow> string) \<Rightarrow> string \<Rightarrow> 'f claimValue \<Rightarrow> claim list" where
  "claimOfScalar fmtF key (CVFloat f) = [NewFloat64Claim fmtF key f]"
| "claimOfScalar fmtF key (CVBool b) = [NewBoolClaim key b]"
| "claimOfScalar fmtF key (CVString s) = [NewStringClaim key s]"
| "claimOfScalar fmtF key _ = []"

fun claimsOfValue :: "('f \<Rightarrow> string) \<Rightarrow> string \<Rightarrow> 'f claimValue \<Rightarrow> claim list" where
  "claimsOfValue fmtF key (CVList vs) = concat (map (claimOfScalar fmtF key) vs)"
| "claimsOfValue fmtF key (CVStrings ss) = map (mk_claim key) ss"
| "claimsOfValue fmtF key v = claimOfScalar fmtF key v"

fun ClaimsPrincipalFromClaimsMap ::
    "('f \<Rightarrow> string) \<Rightarrow> (string, 'f claimValue) gomap \<Rightarrow> claimsPrincipal" where
  "ClaimsPrincipalFromClaimsMap fmtF claimsMap =
     fold (\<lambda>(key, v) p. fold (\<lambda>c p. AddClaim p [c]) (claimsOfValue fmtF key v) p)
       claimsMap NewIClaimsPrincipal"

definition MTLSClaimTypePrefix :: string where
  "MTLSClaimTypePrefix = ''mtls_''"

definition reserved :: "claim \<Rightarrow> bool" where
  "reserved c = prefix MTLSClaimTypePrefix (c_type c)"

definition WithoutReservedMTLSClaims :: "claim list \<Rightarrow> claim list" where
  "WithoutReservedMTLSClaims cs = filter (\<lambda>c. \<not> reserved c) cs"

definition ClaimsAddedSince :: "claim list \<Rightarrow> claim list \<Rightarrow> claim list" where
  "ClaimsAddedSince before after = filter (\<lambda>c. c \<notin> set before) after"

section \<open>Invariant and abstraction\<close>

definition wf_entry :: "string list option \<Rightarrow> (string, bool) gomap option \<Rightarrow> bool" where
  "wf_entry vs m =
     (case (vs, m) of
        (None, None) \<Rightarrow> True
      | (Some vs, Some m) \<Rightarrow> vs \<noteq> [] \<and> distinct vs \<and> dom (mget m) = set vs
      | _ \<Rightarrow> False)"

definition wf_principal :: "claimsPrincipal \<Rightarrow> bool" where
  "wf_principal p \<longleftrightarrow>
     wf_map (cp_claims p) \<and> wf_map (cp_fastMap p) \<and>
     (\<forall>t. wf_entry (mget (cp_claims p) t) (mget (cp_fastMap p) t)) \<and>
     mget (cp_claims p) [] = None"

definition claim_set :: "claimsPrincipal \<Rightarrow> claim set" where
  "claim_set p = {c. \<exists>vs. mget (cp_claims p) (c_type c) = Some vs \<and> c_value c \<in> set vs}"

lemma wf_entry_simps [simp]:
  "wf_entry None None" "wf_entry (Some vs) None = False" "wf_entry None (Some m) = False"
  "wf_entry (Some vs) (Some m) \<longleftrightarrow> vs \<noteq> [] \<and> distinct vs \<and> dom (mget m) = set vs"
  by (auto simp: wf_entry_def)

lemma wf_principalD:
  assumes "wf_principal p"
  shows "wf_map (cp_claims p)" "wf_map (cp_fastMap p)"
    "wf_entry (mget (cp_claims p) t) (mget (cp_fastMap p) t)" "mget (cp_claims p) [] = None"
  using assms by (auto simp: wf_principal_def)

lemma index_of_None: "index_of x xs = None \<longleftrightarrow> x \<notin> set xs"
  by (induction xs) auto

lemma index_of_Some: "index_of x xs = Some i \<Longrightarrow> i < length xs \<and> xs ! i = x"
  by (induction xs arbitrary: i) (auto split: if_splits)

lemma removeIndex_set:
  assumes "distinct s" "i < length s" "removeIndex s i = Some s'"
  shows "distinct s'" "set s' = set s - {s ! i}"
proof -
  have s': "s' = butlast (s[i := last s])"
    using assms by (simp add: removeIndex_def)
  obtain ys y where s: "s = ys @ [y]"
    using assms(2) by (cases s rule: rev_exhaust) auto
  have "s' = (if i < length ys then ys[i := y] else ys)"
    using s s' assms(2) by (auto simp: list_update_append butlast_list_update)
  moreover have "distinct (ys[i := y])" "set (ys[i := y]) = insert y (set ys - {ys ! i})"
    if "i < length ys"
    using that s assms(1) by (auto simp: distinct_list_update set_update_distinct)
  ultimately show "distinct s'" "set s' = set s - {s ! i}"
    using s assms(1,2) by (auto simp: nth_append split: if_splits)
qed

lemma wf_new: "wf_principal NewIClaimsPrincipal"
  by (simp add: wf_principal_def NewIClaimsPrincipal_def)

lemma claim_set_new: "claim_set NewIClaimsPrincipal = {}"
  by (simp add: claim_set_def NewIClaimsPrincipal_def)

lemma HasClaim_iff: "wf_principal p \<Longrightarrow> HasClaim p c \<longleftrightarrow> c \<in> claim_set p"
  using wf_principalD(3) [of p "c_type c"]
  by (cases "mget (cp_claims p) (c_type c)"; cases "mget (cp_fastMap p) (c_type c)")
     (auto simp: HasClaim_def claim_set_def dom_def)

lemma HasClaimType_iff: "wf_principal p \<Longrightarrow> HasClaimType p t \<longleftrightarrow> (\<exists>v. mk_claim t v \<in> claim_set p)"
  using wf_principalD(3) [of p t]
  by (cases "mget (cp_claims p) t"; cases "mget (cp_fastMap p) t")
     (auto simp: HasClaimType_def claim_set_def neq_Nil_conv)

lemma mem_mk_claim: "c \<in> mk_claim t ` V \<longleftrightarrow> c_type c = t \<and> c_value c \<in> V"
  by (cases c) auto

lemma mk_claim_ex: "(\<exists>v. mk_claim t v \<in> S) \<longleftrightarrow> (\<exists>c \<in> S. c_type c = t)"
proof
  assume "\<exists>c \<in> S. c_type c = t"
  then obtain c where "c \<in> S" "c_type c = t" by blast
  moreover have "mk_claim (c_type c) (c_value c) = c" by simp
  ultimately show "\<exists>v. mk_claim t v \<in> S" by metis
qed force

lemma set_GetClaims: "wf_principal p \<Longrightarrow> set (GetClaims p) = claim_set p"
proof (rule set_eqI)
  fix c assume "wf_principal p"
  then have "mget (cp_claims p) t = Some vs \<longleftrightarrow> (t, vs) \<in> set (cp_claims p)" for t vs
    by (simp add: wf_principal_def)
  then show "c \<in> set (GetClaims p) \<longleftrightarrow> c \<in> claim_set p"
    by (simp add: GetClaims_def claim_set_def mem_mk_claim split_beta Bex_def)
qed

lemma set_GetClaimsByType: "set (GetClaimsByType p t) = {c \<in> claim_set p. c_type c = t}"
  by (cases "mget (cp_claims p) t") (auto simp: GetClaimsByType_def claim_set_def mem_mk_claim)

lemma claim_set_type_nonempty: "wf_principal p \<Longrightarrow> c \<in> claim_set p \<Longrightarrow> c_type c \<noteq> []"
  by (auto simp: wf_principal_def claim_set_def)


section \<open>Every operation keeps the invariant and refines the set operation\<close>

text \<open>One added claim: \<open>addClaim1\<close> is the loop body of \<open>AddClaim\<close>.\<close>

definition addClaim1 :: "claimsPrincipal \<Rightarrow> claim \<Rightarrow> claimsPrincipal" where
  "addClaim1 p c = AddClaim p [c]"

lemma AddClaim_fold: "AddClaim p cs = fold (\<lambda>c p. addClaim1 p c) cs p"
  by (induction p cs rule: AddClaim.induct) (auto simp: addClaim1_def Let_def)

lemma AddClaim_append: "AddClaim p (cs @ ds) = AddClaim (AddClaim p cs) ds"
  by (simp add: AddClaim_fold)

lemma addClaim1_skip: "c_type c = [] \<or> HasClaim p c \<Longrightarrow> addClaim1 p c = p"
  by (auto simp: addClaim1_def)

lemma addClaim1_new:
  assumes wf: "wf_principal p" and c: "c_type c \<noteq> []" "\<not> HasClaim p c"
  shows "wf_principal (addClaim1 p c) \<and> claim_set (addClaim1 p c) = insert c (claim_set p)"
proof -
  define old where "old = (case mget (cp_claims p) (c_type c) of None \<Rightarrow> [] | Some vs \<Rightarrow> vs)"
  define m where "m = (case mget (cp_fastMap p) (c_type c) of None \<Rightarrow> [] | Some m \<Rightarrow> m)"
  have eq: "addClaim1 p c = p\<lparr>cp_claims := mput (c_type c) (old @ [c_value c]) (cp_claims p),
      cp_fastMap := mput (c_type c) (mput (c_value c) True m) (cp_fastMap p)\<rparr>"
    using c by (simp add: addClaim1_def Let_def addFastMapClaim_def old_def m_def)
  have ent: "wf_entry (mget (cp_claims p) (c_type c)) (mget (cp_fastMap p) (c_type c))"
    using wf by (rule wf_principalD)
  have old: "distinct old" "dom (mget m) = set old"
    using ent unfolding old_def m_def
    by (cases "mget (cp_claims p) (c_type c)"; cases "mget (cp_fastMap p) (c_type c)"; simp)+
  have new: "c_value c \<notin> set old"
    using wf c(2) unfolding old_def
    by (cases "mget (cp_claims p) (c_type c)") (auto simp: HasClaim_iff claim_set_def)
  have "wf_principal (addClaim1 p c)"
    using wf c(1) old new by (auto simp: wf_principal_def eq gomap)
  moreover have "claim_set (addClaim1 p c) = insert c (claim_set p)"
    unfolding eq old_def
    by (cases c, cases "mget (cp_claims p) (c_type c)")
       (auto simp: claim_set_def gomap split: if_splits intro!: claim.equality)
  ultimately show ?thesis by blast
qed

lemma addClaim1_refines:
  assumes "wf_principal p"
  shows "wf_principal (addClaim1 p c)"
    "claim_set (addClaim1 p c) = claim_set p \<union> {d. d = c \<and> c_type d \<noteq> []}"
  using assms addClaim1_new [OF assms, of c] addClaim1_skip [of c p] HasClaim_iff [OF assms, of c]
    claim_set_type_nonempty [OF assms, of c]
  by (cases "c_type c = [] \<or> HasClaim p c"; auto)+

lemma AddClaim_refines:
  "wf_principal p \<Longrightarrow> wf_principal (AddClaim p cs) \<and>
     claim_set (AddClaim p cs) = claim_set p \<union> {c \<in> set cs. c_type c \<noteq> []}"
  unfolding AddClaim_fold
  by (induction cs arbitrary: p) (auto simp: addClaim1_refines)

lemma removeClaim1_refines:
  assumes wf: "wf_principal p"
  shows "\<exists>p'. removeClaim1 p c = Some p' \<and> wf_principal p' \<and> claim_set p' = claim_set p - {c}"
proof (cases "c \<in> claim_set p")
  case False
  then have "removeClaim1 p c = Some p"
    by (cases "mget (cp_claims p) (c_type c)")
       (auto simp: removeClaim1_def claim_set_def index_of_None [THEN iffD2])
  then show ?thesis using wf False by simp
next
  case True
  then obtain vs where vs: "mget (cp_claims p) (c_type c) = Some vs" "c_value c \<in> set vs"
    by (auto simp: claim_set_def)
  obtain m where m: "mget (cp_fastMap p) (c_type c) = Some m"
    using wf_principalD(3) [OF wf, of "c_type c"] vs
    by (cases "mget (cp_fastMap p) (c_type c)") auto
  have ent: "distinct vs" "dom (mget m) = set vs"
    using wf_principalD(3) [OF wf, of "c_type c"] vs m by auto
  obtain i where i: "index_of (c_value c) vs = Some i"
    using vs index_of_None by fastforce
  then have i': "i < length vs" "vs ! i = c_value c" using index_of_Some by fastforce+
  then obtain vs' where r: "removeIndex vs i = Some vs'" by (simp add: removeIndex_def)
  note vs' = removeIndex_set [OF ent(1) i'(1) r, unfolded i'(2)]
  define p' where "p' = (if vs' = []
      then p\<lparr>cp_claims := mdel (c_type c) (cp_claims p), cp_fastMap := mdel (c_type c) (cp_fastMap p)\<rparr>
      else p\<lparr>cp_claims := mput (c_type c) vs' (cp_claims p),
             cp_fastMap := mput (c_type c) (mdel (c_value c) m) (cp_fastMap p)\<rparr>)"
  have "removeClaim1 p c = Some p'"
    using vs i r m by (simp add: removeClaim1_def p'_def)
  moreover have "wf_principal p'"
    using wf ent vs vs' by (auto simp: wf_principal_def p'_def gomap AList.delete_conv')
  moreover have "claim_set p' = claim_set p - {c}"
  proof (rule set_eqI)
    fix d
    show "d \<in> claim_set p' \<longleftrightarrow> d \<in> claim_set p - {c}"
      using vs vs' by (cases "c_type d = c_type c"; cases "vs' = []")
        (auto simp add: claim_set_def p'_def gomap claim_eq_iff)
  qed
  ultimately show ?thesis by blast
qed

lemma RemoveClaim_refines:
  "wf_principal p \<Longrightarrow> \<exists>p'. RemoveClaim p cs = Some p' \<and> wf_principal p' \<and>
     claim_set p' = claim_set p - set cs"
proof (induction cs arbitrary: p)
  case (Cons c cs)
  from removeClaim1_refines [OF Cons.prems, of c] obtain q
    where q: "removeClaim1 p c = Some q" "wf_principal q" "claim_set q = claim_set p - {c}" by blast
  with Cons.IH [of q] show ?case by auto
qed simp

lemma RemoveClaimType_refines:
  "wf_principal p \<Longrightarrow> wf_principal (RemoveClaimType p ts) \<and>
     claim_set (RemoveClaimType p ts) = {c \<in> claim_set p. c_type c \<notin> set ts}"
proof (induction p ts rule: RemoveClaimType.induct)
  case (2 p t ts)
  show ?case
  proof (cases "mhas (cp_claims p) t")
    case True
    let ?q = "p\<lparr>cp_claims := mdel t (cp_claims p), cp_fastMap := mdel t (cp_fastMap p)\<rparr>"
    have "wf_principal ?q" using "2.prems" by (auto simp: wf_principal_def gomap)
    moreover have "claim_set ?q = {c \<in> claim_set p. c_type c \<noteq> t}"
      by (auto simp: claim_set_def gomap)
    ultimately show ?thesis using "2.IH"(1) [OF True] True by auto
  next
    case False
    then have "\<forall>c \<in> claim_set p. c_type c \<noteq> t" by (auto simp: claim_set_def)
    then show ?thesis using 2 False by auto
  qed
qed simp

lemma FromClaimsMap_refines:
  "wf_principal (ClaimsPrincipalFromClaimsMap fmtF m) \<and>
   claim_set (ClaimsPrincipalFromClaimsMap fmtF m) =
     {c. c_type c \<noteq> [] \<and> (\<exists>(k, v) \<in> set m. c \<in> set (claimsOfValue fmtF k v))}"
proof -
  let ?f = "\<lambda>(k, v) p. fold (\<lambda>c p. AddClaim p [c]) (claimsOfValue fmtF k v) p"
  have f: "?f kv p = AddClaim p (claimsOfValue fmtF (fst kv) (snd kv))" for kv p
    unfolding AddClaim_fold [of p] addClaim1_def by (simp add: split_beta)
  have "wf_principal p \<Longrightarrow> wf_principal (fold ?f m p) \<and> claim_set (fold ?f m p) =
     claim_set p \<union> {c. c_type c \<noteq> [] \<and> (\<exists>(k, v) \<in> set m. c \<in> set (claimsOfValue fmtF k v))}" for p
  proof (induction m arbitrary: p)
    case (Cons kv m)
    have "wf_principal (?f kv p)" using AddClaim_refines [OF Cons.prems] by (simp only: f)
    from Cons.IH [OF this] show ?case
      using AddClaim_refines [OF Cons.prems, of "claimsOfValue fmtF (fst kv) (snd kv)"]
      unfolding fold_simps f by (cases kv) auto
  qed simp
  from this [OF wf_new] show ?thesis by (simp add: claim_set_new)
qed


lemma distinct_GetClaims:
  assumes "wf_principal p"
  shows "distinct (GetClaims p)"
proof -
  have "distinct (concat (map (\<lambda>(t, vs). map (mk_claim t) vs) m))"
    if "wf_map m" "\<forall>(t, vs) \<in> set m. distinct vs" for m
    using that
  proof (induction m)
    case (Cons e m)
    then show ?case
      by (cases e) (force simp: distinct_map inj_on_def mem_mk_claim split_beta)
  qed simp
  moreover have "\<forall>(t, vs) \<in> set (cp_claims p). distinct vs"
  proof (intro ballI, clarify)
    fix t vs assume "(t, vs) \<in> set (cp_claims p)"
    then have "mget (cp_claims p) t = Some vs" using wf_principalD(1) [OF assms] by simp
    then show "distinct vs"
      using wf_principalD(3) [OF assms, of t] by (cases "mget (cp_fastMap p) t") auto
  qed
  ultimately show ?thesis using wf_principalD(1) [OF assms] by (simp add: GetClaims_def)
qed

section \<open>The contract of \<open>IClaimsPrincipal\<close>\<close>

text \<open>
  What the middleware relies on: adding, removing and asking refer to the set of claims
  held. \<open>remove\<close> may panic in principle; the contract says it does not.
\<close>

locale claims_store =
  fixes inv :: "'s \<Rightarrow> bool" and cset :: "'s \<Rightarrow> claim set"
    and empty :: 's
    and add :: "'s \<Rightarrow> claim list \<Rightarrow> 's"
    and remove :: "'s \<Rightarrow> claim list \<Rightarrow> 's option"
    and removeType :: "'s \<Rightarrow> string list \<Rightarrow> 's"
    and has :: "'s \<Rightarrow> claim \<Rightarrow> bool"
    and hasType :: "'s \<Rightarrow> string \<Rightarrow> bool"
    and getAll :: "'s \<Rightarrow> claim list"
  assumes inv_empty: "inv empty" and cset_empty: "cset empty = {}"
    and inv_add: "inv s \<Longrightarrow> inv (add s cs)"
    and cset_add: "inv s \<Longrightarrow> cset (add s cs) = cset s \<union> {c \<in> set cs. c_type c \<noteq> []}"
    and remove_ok: "inv s \<Longrightarrow> \<exists>s'. remove s cs = Some s' \<and> inv s' \<and> cset s' = cset s - set cs"
    and inv_removeType: "inv s \<Longrightarrow> inv (removeType s ts)"
    and cset_removeType: "inv s \<Longrightarrow> cset (removeType s ts) = {c \<in> cset s. c_type c \<notin> set ts}"
    and has_iff: "inv s \<Longrightarrow> has s c \<longleftrightarrow> c \<in> cset s"
    and hasType_iff: "inv s \<Longrightarrow> hasType s t \<longleftrightarrow> (\<exists>c \<in> cset s. c_type c = t)"
    and getAll_iff: "inv s \<Longrightarrow> set (getAll s) = cset s"
begin

lemmas store_specs = inv_empty cset_empty inv_add cset_add inv_removeType cset_removeType
  has_iff hasType_iff getAll_iff

lemma add_has: "inv s \<Longrightarrow> c \<in> set cs \<Longrightarrow> c_type c \<noteq> [] \<Longrightarrow> has (add s cs) c"
  by (simp add: store_specs)

lemma add_keeps: "inv s \<Longrightarrow> has s c \<Longrightarrow> has (add s cs) c"
  by (simp add: store_specs)

lemma add_idem: "inv s \<Longrightarrow> cset (add (add s cs) cs) = cset (add s cs)"
  by (auto simp: store_specs)

text \<open>
  Adding claims none of which has a given property leaves the claims with that property
  as they were: the middleware's use of \<open>WithoutReservedMTLSClaims\<close> is an instance.
\<close>

lemma add_outside:
  assumes "inv s" and "\<forall>c \<in> set cs. \<not> P c"
  shows "{c \<in> cset (add s cs). P c} = {c \<in> cset s. P c}"
  using assms by (auto simp: store_specs)

lemma hasType_add:
  "inv s \<Longrightarrow> t \<noteq> [] \<Longrightarrow> hasType (add s cs) t \<longleftrightarrow> hasType s t \<or> (\<exists>c \<in> set cs. c_type c = t)"
  by (auto simp: store_specs)

lemma remove_gone: "inv s \<Longrightarrow> remove s cs = Some s' \<Longrightarrow> c \<in> set cs \<Longrightarrow> \<not> has s' c"
  using remove_ok [of s cs] by (auto simp: has_iff)

lemma removeType_gone: "inv s \<Longrightarrow> t \<in> set ts \<Longrightarrow> \<not> hasType (removeType s ts) t"
  by (auto simp: store_specs)

end

interpretation principal: claims_store wf_principal claim_set NewIClaimsPrincipal AddClaim
  RemoveClaim RemoveClaimType HasClaim HasClaimType GetClaims
  by unfold_locales
    (simp_all add: wf_new claim_set_new AddClaim_refines RemoveClaim_refines
      RemoveClaimType_refines HasClaim_iff HasClaimType_iff mk_claim_ex set_GetClaims)

lemma no_reserved: "\<forall>c \<in> set (WithoutReservedMTLSClaims cs). \<not> reserved c"
  by (simp add: WithoutReservedMTLSClaims_def)

lemma set_WithoutReserved: "set (WithoutReservedMTLSClaims cs) = {c \<in> set cs. \<not> reserved c}"
  by (simp add: WithoutReservedMTLSClaims_def)

lemma set_ClaimsAddedSince: "set (ClaimsAddedSince b a) = set a - set b"
  by (auto simp: ClaimsAddedSince_def)

declare AddClaim.simps(2) [simp del]

lemma new_add:
  "wf_principal (AddClaim NewIClaimsPrincipal cs)"
  "claim_set (AddClaim NewIClaimsPrincipal cs) = set (filter (\<lambda>c. c_type c \<noteq> []) cs)"
  by (simp_all add: principal.store_specs)

section \<open>Runs of operations\<close>

text \<open>A run is any sequence of the mutating calls; \<open>specOps\<close> is what it means on sets.\<close>

datatype claimOp = OpAdd "claim list" | OpRemove "claim list" | OpRemoveType "string list"

fun runOps :: "claimsPrincipal \<Rightarrow> claimOp list \<Rightarrow> claimsPrincipal option" where
  "runOps p [] = Some p"
| "runOps p (OpAdd cs # ops) = runOps (AddClaim p cs) ops"
| "runOps p (OpRemove cs # ops) =
     (case RemoveClaim p cs of None \<Rightarrow> None | Some p' \<Rightarrow> runOps p' ops)"
| "runOps p (OpRemoveType ts # ops) = runOps (RemoveClaimType p ts) ops"

fun specOps :: "claim set \<Rightarrow> claimOp list \<Rightarrow> claim set" where
  "specOps S [] = S"
| "specOps S (OpAdd cs # ops) = specOps (S \<union> {c \<in> set cs. c_type c \<noteq> []}) ops"
| "specOps S (OpRemove cs # ops) = specOps (S - set cs) ops"
| "specOps S (OpRemoveType ts # ops) = specOps {c \<in> S. c_type c \<notin> set ts} ops"

lemma runOps_refines:
  "wf_principal p \<Longrightarrow> \<exists>p'. runOps p ops = Some p' \<and> wf_principal p' \<and>
     claim_set p' = specOps (claim_set p) ops"
proof (induction p ops rule: runOps.induct)
  case (3 p cs ops)
  from RemoveClaim_refines [OF "3.prems", of cs] obtain q
    where q: "RemoveClaim p cs = Some q" "wf_principal q" "claim_set q = claim_set p - set cs"
    by blast
  with "3.IH" [OF q(1,2)] show ?case by simp
qed (simp_all add: principal.store_specs)

text \<open>C3: for every sequence of \<open>AddClaim\<close>, \<open>RemoveClaim\<close> and \<open>RemoveClaimType\<close> calls on a new
  principal, no call panics, and afterwards \<open>GetClaims\<close>, \<open>HasClaim\<close>, \<open>HasClaimType\<close> and
  \<open>GetClaimsByType\<close> all describe the same set of claims, the one the calls mean on sets;
  \<open>GetClaims\<close> lists each claim once. In particular the two maps never disagree.\<close>

theorem claims_principal_refinement:
  "\<exists>p. runOps NewIClaimsPrincipal ops = Some p \<and>
     set (GetClaims p) = specOps {} ops \<and> distinct (GetClaims p) \<and>
     (\<forall>c. HasClaim p c \<longleftrightarrow> c \<in> specOps {} ops) \<and>
     (\<forall>t. HasClaimType p t \<longleftrightarrow> (\<exists>c \<in> specOps {} ops. c_type c = t)) \<and>
     (\<forall>t. set (GetClaimsByType p t) = {c \<in> specOps {} ops. c_type c = t})"
  using runOps_refines [OF wf_new, of ops] claim_set_new
  by (auto simp: principal.store_specs set_GetClaimsByType distinct_GetClaims)

end
