(* ===== verification/Claims_AST.thy ===== *)
theory Claims_AST
  imports Claims_Principal
begin

text \<open>
  Claim facts, the \<open>ClaimsAST\<close> tree and the DSL nodes of \<open>services/common/claimsast\<close>, with
  the entry point builder. \<open>formula\<close> is the specification: the Boolean formula a tree stands
  for. \<open>Validate\<close> decides that formula on the principal's claims and \<open>String\<close> prints it.
  A panic of the source (an operand that is neither AND nor OR) is \<open>None\<close>; nil entries of
  the slices are outside the model.
\<close>

section \<open>Claim facts\<close>

record claimFact =
  cf_claim :: claim
  cf_directive :: int

definition ClaimTypeAndValue :: int where "ClaimTypeAndValue = 0"
definition ClaimType :: int where "ClaimType = 1"

definition NewClaimFact :: "claim \<Rightarrow> claimFact" where
  "NewClaimFact c = \<lparr>cf_claim = c, cf_directive = ClaimTypeAndValue\<rparr>"

definition NewClaimFactType :: "string \<Rightarrow> claimFact" where
  "NewClaimFactType t = \<lparr>cf_claim = mk_claim t [], cf_directive = ClaimType\<rparr>"

definition fact_HasClaim :: "claimFact \<Rightarrow> claimsPrincipal \<Rightarrow> bool" where
  "fact_HasClaim f p =
    (if cf_directive f = ClaimType then HasClaimType p (c_type (cf_claim f))
     else HasClaim p (cf_claim f))"

definition Expression :: "claimFact \<Rightarrow> string" where
  "Expression f =
    (if cf_directive f = ClaimType
     then ''has_claim_type('' @ c_type (cf_claim f) @ '')''
     else ''has_claim('' @ c_type (cf_claim f) @ ''|'' @ c_value (cf_claim f) @ '')'')"

section \<open>The tree\<close>

text \<open>
  The implementations of \<open>IClaimsValidator\<close>: the struct \<open>ClaimsAST\<close> with its four slices in
  the order of the fields, and the four DSL nodes.
\<close>

datatype validator =
    AST (ClaimFacts: "claimFact list") (AndV: "validator list") (OrV: "validator list")
      (NotV: "validator list")
  | OrNode "validator list"
  | AndNode "validator list"
  | NotNode validator
  | LeafNode claimFact

type_synonym operand = int

definition opAnd :: operand where "opAnd = 1"
definition opOr :: operand where "opOr = 2"

text \<open>The loops return at the first element that decides; an element may panic.\<close>

fun allO :: "('a \<Rightarrow> bool option) \<Rightarrow> 'a list \<Rightarrow> bool option" where
  "allO f [] = Some True"
| "allO f (x # xs) =
     (case f x of None \<Rightarrow> None | Some b \<Rightarrow> if b then allO f xs else Some False)"

fun anyO :: "('a \<Rightarrow> bool option) \<Rightarrow> 'a list \<Rightarrow> bool option" where
  "anyO f [] = Some False"
| "anyO f (x # xs) =
     (case f x of None \<Rightarrow> None | Some b \<Rightarrow> if b then Some True else anyO f xs)"

definition thenAll :: "bool option \<Rightarrow> bool option \<Rightarrow> bool option" where
  "thenAll a b = (case a of None \<Rightarrow> None | Some r \<Rightarrow> if r then b else Some False)"

definition thenAny :: "bool option \<Rightarrow> bool option \<Rightarrow> bool option" where
  "thenAny a b = (case a of None \<Rightarrow> None | Some r \<Rightarrow> if r then Some True else b)"

lemma allO_cong [fundef_cong]:
  "xs = ys \<Longrightarrow> (\<And>x. x \<in> set ys \<Longrightarrow> f x = g x) \<Longrightarrow> allO f xs = allO g ys"
  by (induction ys arbitrary: xs) (auto split: option.splits)

lemma anyO_cong [fundef_cong]:
  "xs = ys \<Longrightarrow> (\<And>x. x \<in> set ys \<Longrightarrow> f x = g x) \<Longrightarrow> anyO f xs = anyO g ys"
  by (induction ys arbitrary: xs) (auto split: option.splits)

text \<open>\<open>Validate\<close> of the DSL nodes, over the \<open>Validate\<close> of their children.\<close>

definition orNode_Validate :: "('v \<Rightarrow> bool option) \<Rightarrow> 'v list \<Rightarrow> bool option" where
  "orNode_Validate validate children = anyO validate children"

definition andNode_Validate :: "('v \<Rightarrow> bool option) \<Rightarrow> 'v list \<Rightarrow> bool option" where
  "andNode_Validate validate children = allO validate children"

definition notNode_Validate :: "('v \<Rightarrow> bool option) \<Rightarrow> 'v \<Rightarrow> bool option" where
  "notNode_Validate validate child = map_option Not (validate child)"

definition leafNode_Validate :: "claimsPrincipal \<Rightarrow> claimFact \<Rightarrow> bool option" where
  "leafNode_Validate p f = Some (fact_HasClaim f p)"

lemmas dsl_Validate_defs [simp] =
  orNode_Validate_def andNode_Validate_def notNode_Validate_def leafNode_Validate_def

lemma dsl_Validate_cong [fundef_cong]:
  "xs = ys \<Longrightarrow> (\<And>x. x \<in> set ys \<Longrightarrow> f x = g x) \<Longrightarrow> orNode_Validate f xs = orNode_Validate g ys"
  "xs = ys \<Longrightarrow> (\<And>x. x \<in> set ys \<Longrightarrow> f x = g x) \<Longrightarrow> andNode_Validate f xs = andNode_Validate g ys"
  "v = u \<Longrightarrow> (\<And>x. x = u \<Longrightarrow> f x = g x) \<Longrightarrow> notNode_Validate f v = notNode_Validate g u"
  by (auto cong: allO_cong anyO_cong)

fun ValidateWithOperand :: "claimsPrincipal \<Rightarrow> validator \<Rightarrow> operand \<Rightarrow> bool option" where
  "ValidateWithOperand p (AST facts ands ors nots) op =
    (if op = opAnd then
       thenAll (allO (\<lambda>f. Some (fact_HasClaim f p)) facts)
         (thenAll (allO (\<lambda>v. ValidateWithOperand p v opAnd) ands)
           (thenAll (allO (\<lambda>v. ValidateWithOperand p v opOr) ors)
             (allO (\<lambda>v. map_option Not (ValidateWithOperand p v op)) nots)))
     else if op = opOr then
       thenAny (anyO (\<lambda>f. Some (fact_HasClaim f p)) facts)
         (thenAny (anyO (\<lambda>v. ValidateWithOperand p v opAnd) ands)
           (thenAny (anyO (\<lambda>v. ValidateWithOperand p v opOr) ors)
             (anyO (\<lambda>v. map_option Not (ValidateWithOperand p v op)) nots)))
     else None)"
| "ValidateWithOperand p (OrNode vs) op = orNode_Validate (\<lambda>v. ValidateWithOperand p v opAnd) vs"
| "ValidateWithOperand p (AndNode vs) op = andNode_Validate (\<lambda>v. ValidateWithOperand p v opAnd) vs"
| "ValidateWithOperand p (NotNode v) op = notNode_Validate (\<lambda>v. ValidateWithOperand p v opAnd) v"
| "ValidateWithOperand p (LeafNode f) op = leafNode_Validate p f"

text \<open>
  \<open>Validate\<close> of a \<open>ClaimsAST\<close> evaluates it as AND, and a DSL node ignores the operand; so
  \<open>Validate\<close> is \<open>ValidateWithOperand\<close> with AND for every implementation, which is how the
  DSL nodes call their children above.
\<close>

definition Validate :: "claimsPrincipal \<Rightarrow> validator \<Rightarrow> bool option" where
  "Validate p v = ValidateWithOperand p v opAnd"

text \<open>\<open>[]string\<close> built element by element; an element may panic.\<close>

fun mapO :: "('a \<Rightarrow> 'b option) \<Rightarrow> 'a list \<Rightarrow> 'b list option" where
  "mapO f [] = Some []"
| "mapO f (x # xs) =
     (case f x of None \<Rightarrow> None
      | Some y \<Rightarrow> (case mapO f xs of None \<Rightarrow> None | Some ys \<Rightarrow> Some (y # ys)))"

lemma mapO_cong [fundef_cong]:
  "xs = ys \<Longrightarrow> (\<And>x. x \<in> set ys \<Longrightarrow> f x = g x) \<Longrightarrow> mapO f xs = mapO g ys"
  by (induction ys arbitrary: xs) (auto split: option.splits)

definition appO :: "'a list option \<Rightarrow> 'a list option \<Rightarrow> 'a list option" where
  "appO a b = (case a of None \<Rightarrow> None | Some xs \<Rightarrow> map_option ((@) xs) b)"

definition group :: "string \<Rightarrow> string list \<Rightarrow> string" where
  "group sep xs = ''('' @ join_with sep xs @ '')''"

definition orNode_String :: "('v \<Rightarrow> string option) \<Rightarrow> 'v list \<Rightarrow> string option" where
  "orNode_String str children = map_option (group '' OR '') (mapO str children)"

definition andNode_String :: "('v \<Rightarrow> string option) \<Rightarrow> 'v list \<Rightarrow> string option" where
  "andNode_String str children = map_option (group '' AND '') (mapO str children)"

definition notNode_String :: "('v \<Rightarrow> string option) \<Rightarrow> 'v \<Rightarrow> string option" where
  "notNode_String str child = map_option (\<lambda>s. ''!('' @ s @ '')'') (str child)"

definition leafNode_String :: "claimFact \<Rightarrow> string option" where
  "leafNode_String f = Some (Expression f)"

lemmas dsl_String_defs [simp] =
  orNode_String_def andNode_String_def notNode_String_def leafNode_String_def

lemma dsl_String_cong [fundef_cong]:
  "xs = ys \<Longrightarrow> (\<And>x. x \<in> set ys \<Longrightarrow> f x = g x) \<Longrightarrow> orNode_String f xs = orNode_String g ys"
  "xs = ys \<Longrightarrow> (\<And>x. x \<in> set ys \<Longrightarrow> f x = g x) \<Longrightarrow> andNode_String f xs = andNode_String g ys"
  "v = u \<Longrightarrow> (\<And>x. x = u \<Longrightarrow> f x = g x) \<Longrightarrow> notNode_String f v = notNode_String g u"
  by (auto cong: mapO_cong)

fun StringWithOperand :: "validator \<Rightarrow> operand \<Rightarrow> string option" where
  "StringWithOperand (AST facts ands ors nots) op =
    (case appO (Some (map Expression facts))
       (appO (mapO (\<lambda>v. StringWithOperand v opAnd) ands)
         (appO (mapO (\<lambda>v. StringWithOperand v opOr) ors)
           (mapO (\<lambda>v. map_option ((@) ''!'') (StringWithOperand v op)) nots))) of
       None \<Rightarrow> None
     | Some groups \<Rightarrow>
         (if op = opAnd then Some (group '' AND '' groups)
          else if op = opOr then Some (group '' OR '' groups)
          else None))"
| "StringWithOperand (OrNode vs) op =
    orNode_String (\<lambda>v. StringWithOperand v opAnd) vs"
| "StringWithOperand (AndNode vs) op =
    andNode_String (\<lambda>v. StringWithOperand v opAnd) vs"
| "StringWithOperand (NotNode v) op =
    notNode_String (\<lambda>v. StringWithOperand v opAnd) v"
| "StringWithOperand (LeafNode f) op = leafNode_String f"

definition String :: "validator \<Rightarrow> string option" where
  "String v = StringWithOperand v opAnd"

definition AppendClaimsFact :: "validator \<Rightarrow> claimFact list \<Rightarrow> validator" where
  "AppendClaimsFact v fs =
    (case v of AST facts ands ors nots \<Rightarrow> AST (facts @ fs) ands ors nots | _ \<Rightarrow> v)"

definition Root :: "validator \<Rightarrow> validator" where
  "Root v = AST [] [] [v] []"

definition dslClaimType :: "string \<Rightarrow> validator" where
  "dslClaimType t = LeafNode (NewClaimFactType t)"

definition dslClaimTypeAndValue :: "string \<Rightarrow> string \<Rightarrow> validator" where
  "dslClaimTypeAndValue t v = LeafNode (NewClaimFact (mk_claim t v))"

section \<open>What a tree means\<close>

datatype formula =
    Fact claimFact
  | Conj "formula list"
  | Disj "formula list"
  | Neg formula

definition fact_holds :: "claim set \<Rightarrow> claimFact \<Rightarrow> bool" where
  "fact_holds S f =
    (if cf_directive f = ClaimType then \<exists>c \<in> S. c_type c = c_type (cf_claim f)
     else cf_claim f \<in> S)"

fun holds :: "claim set \<Rightarrow> formula \<Rightarrow> bool" where
  "holds S (Fact f) = fact_holds S f"
| "holds S (Conj fs) = (\<forall>f \<in> set fs. holds S f)"
| "holds S (Disj fs) = (\<exists>f \<in> set fs. holds S f)"
| "holds S (Neg f) = (\<not> holds S f)"

fun render :: "formula \<Rightarrow> string" where
  "render (Fact f) = Expression f"
| "render (Conj fs) = group '' AND '' (map render fs)"
| "render (Disj fs) = group '' OR '' (map render fs)"
| "render (Neg f) = ''!'' @ render f"

definition under :: "operand \<Rightarrow> formula list \<Rightarrow> formula" where
  "under op fs = (if op = opAnd then Conj fs else Disj fs)"

text \<open>A node joins its entries by the operand it is evaluated under; a DSL node by its own.\<close>

fun meaning :: "operand \<Rightarrow> validator \<Rightarrow> formula" where
  "meaning op (AST facts ands ors nots) =
     under op (map Fact facts @ map (meaning opAnd) ands @ map (meaning opOr) ors @
       map (\<lambda>v. Neg (meaning op v)) nots)"
| "meaning op (OrNode vs) = Disj (map (meaning opAnd) vs)"
| "meaning op (AndNode vs) = Conj (map (meaning opAnd) vs)"
| "meaning op (NotNode v) = Neg (Conj [meaning opAnd v])"
| "meaning op (LeafNode f) = Fact f"

context claims_store
begin

lemma fact_iff:
  "inv s \<Longrightarrow> (if cf_directive f = ClaimType then hasType s (c_type (cf_claim f))
     else has s (cf_claim f)) \<longleftrightarrow> fact_holds (cset s) f"
  by (simp add: fact_holds_def has_iff hasType_iff)

end

lemma fact_HasClaim_iff: "wf_principal p \<Longrightarrow> fact_HasClaim f p \<longleftrightarrow> fact_holds (claim_set p) f"
  unfolding fact_HasClaim_def by (rule principal.fact_iff)

lemma allO_Some: "(\<And>x. x \<in> set xs \<Longrightarrow> f x = Some (P x)) \<Longrightarrow> allO f xs = Some (\<forall>x \<in> set xs. P x)"
  by (induction xs) auto

lemma anyO_Some: "(\<And>x. x \<in> set xs \<Longrightarrow> f x = Some (P x)) \<Longrightarrow> anyO f xs = Some (\<exists>x \<in> set xs. P x)"
  by (induction xs) auto

lemma mapO_Some: "(\<And>x. x \<in> set xs \<Longrightarrow> f x = Some (g x)) \<Longrightarrow> mapO f xs = Some (map g xs)"
  by (induction xs) auto

lemma operands [simp]: "opOr \<noteq> opAnd" "opAnd \<noteq> opOr"
  by (simp_all add: opAnd_def opOr_def)

lemma then_Some [simp]:
  "thenAll (Some a) (Some b) = Some (a \<and> b)" "thenAny (Some a) (Some b) = Some (a \<or> b)"
  by (simp_all add: thenAll_def thenAny_def)

lemma holds_under:
  "holds S (under op fs) \<longleftrightarrow> (if op = opAnd then \<forall>f \<in> set fs. holds S f else \<exists>f \<in> set fs. holds S f)"
  by (simp add: under_def)

lemma ValidateWithOperand_meaning:
  assumes "wf_principal p" and "op = opAnd \<or> op = opOr"
  shows "ValidateWithOperand p v op = Some (holds (claim_set p) (meaning op v))"
  using assms
proof (induction p v op rule: ValidateWithOperand.induct)
  case (1 p facts ands ors nots op)
  let ?S = "claim_set p"
  have facts: "allO (\<lambda>f. Some (fact_HasClaim f p)) facts = Some (\<forall>f \<in> set facts. fact_holds ?S f)"
    "anyO (\<lambda>f. Some (fact_HasClaim f p)) facts = Some (\<exists>f \<in> set facts. fact_holds ?S f)"
    using fact_HasClaim_iff [OF "1.prems"(1)] by (simp_all add: allO_Some anyO_Some)
  from "1.prems"(2) show ?case
  proof
    assume op: "op = opAnd"
    show ?thesis using 1 op
      by (simp add: facts allO_Some [where P = "\<lambda>v. holds ?S (meaning opAnd v)"]
          allO_Some [where P = "\<lambda>v. holds ?S (meaning opOr v)"]
          allO_Some [where P = "\<lambda>v. \<not> holds ?S (meaning opAnd v)"] holds_under ball_Un)
  next
    assume op: "op = opOr"
    show ?thesis using 1 op
      by (simp add: facts anyO_Some [where P = "\<lambda>v. holds ?S (meaning opAnd v)"]
          anyO_Some [where P = "\<lambda>v. holds ?S (meaning opOr v)"]
          anyO_Some [where P = "\<lambda>v. \<not> holds ?S (meaning opOr v)"] holds_under bex_Un)
  qed
next
  case (2 p vs op)
  then show ?case by (simp add: anyO_Some [where P = "\<lambda>v. holds (claim_set p) (meaning opAnd v)"])
next
  case (3 p vs op)
  then show ?case by (simp add: allO_Some [where P = "\<lambda>v. holds (claim_set p) (meaning opAnd v)"])
qed (simp_all add: fact_HasClaim_iff)

lemma render_under:
  "render (under op fs) = group (if op = opAnd then '' AND '' else '' OR '') (map render fs)"
  by (simp add: under_def)

lemma StringWithOperand_meaning:
  "op = opAnd \<or> op = opOr \<Longrightarrow> StringWithOperand v op = Some (render (meaning op v))"
proof (induction v op rule: StringWithOperand.induct)
  case (1 facts ands ors nots op)
  have "mapO (\<lambda>v. StringWithOperand v opAnd) ands = Some (map (render \<circ> meaning opAnd) ands)"
    "mapO (\<lambda>v. StringWithOperand v opOr) ors = Some (map (render \<circ> meaning opOr) ors)"
    "mapO (\<lambda>v. map_option ((@) ''!'') (StringWithOperand v op)) nots =
      Some (map (\<lambda>v. ''!'' @ render (meaning op v)) nots)"
    using 1 by (auto intro!: mapO_Some)
  with "1.prems" show ?case by (auto simp: appO_def render_under comp_def)
next
  case (2 vs op)
  then show ?case by (simp add: mapO_Some [where g = "\<lambda>v. render (meaning opAnd v)"] comp_def)
next
  case (3 vs op)
  then show ?case by (simp add: mapO_Some [where g = "\<lambda>v. render (meaning opAnd v)"] comp_def)
qed (simp_all add: group_def)

lemma Validate_meaning: "wf_principal p \<Longrightarrow> Validate p v = Some (holds (claim_set p) (meaning opAnd v))"
  by (simp add: Validate_def ValidateWithOperand_meaning)

lemma String_meaning: "String v = Some (render (meaning opAnd v))"
  by (simp add: String_def StringWithOperand_meaning)

lemma invalid_operand:
  "op \<noteq> opAnd \<Longrightarrow> op \<noteq> opOr \<Longrightarrow> ValidateWithOperand p (AST fs as os ns) op = None"
  "op \<noteq> opAnd \<Longrightarrow> op \<noteq> opOr \<Longrightarrow> StringWithOperand (AST fs as os ns) op = None"
  by (auto split: option.splits)

lemma holds_Root: "holds S (meaning opAnd (Root (OrNode vs))) \<longleftrightarrow> (\<exists>v \<in> set vs. holds S (meaning opAnd v))"
  "holds S (meaning opAnd (Root (AndNode vs))) \<longleftrightarrow> (\<forall>v \<in> set vs. holds S (meaning opAnd v))"
  "holds S (meaning opAnd (Root (NotNode v))) \<longleftrightarrow> \<not> holds S (meaning opAnd v)"
  "holds S (meaning opAnd (Root (LeafNode f))) \<longleftrightarrow> fact_holds S f"
  by (simp_all add: Root_def under_def)

section \<open>The two documented examples\<close>

text \<open>The example of the doc comment of \<open>ClaimsAST\<close> (its facts are permissions in the test that pins it).\<close>

definition perm :: "string \<Rightarrow> claimFact" where
  "perm v = NewClaimFact (mk_claim ''permissions'' v)"

definition docAST :: validator where
  "docAST =
    AST (map perm [''A'', ''B'']) []
      [AST (map perm [''C'', ''D'']) [] [] [],
       AST (map perm [''E'', ''F'']) [AST (map perm [''G'', ''H'']) [] [] []] [] []]
      [AST [] [] [AST (map perm [''I'', ''J'']) [] [] []] []]"

text \<open>The example of the package comment of \<open>claimsast\<close>: the struct form and what it says it becomes.\<close>

definition docRaw :: validator where
  "docRaw =
    AST [] [] [AST [] [AST [NewClaimFactType ''org''] [] [] [],
      AST [perm ''UsageMetrics.Read'', perm ''UsageMetrics.ReadWrite''] [] [] []] [] []] []"

definition docDSL :: validator where
  "docDSL =
    Root (OrNode [AndNode [LeafNode (NewClaimFactType ''org''),
      OrNode [LeafNode (perm ''UsageMetrics.Read''), LeafNode (perm ''UsageMetrics.ReadWrite'')]]])"

lemma fact_holds_perm [simp]: "fact_holds S (perm v) \<longleftrightarrow> mk_claim ''permissions'' v \<in> S"
  by (simp add: perm_def NewClaimFact_def fact_holds_def ClaimTypeAndValue_def ClaimType_def)

lemma fact_holds_type [simp]: "fact_holds S (NewClaimFactType t) \<longleftrightarrow> (\<exists>c \<in> S. c_type c = t)"
  by (simp add: NewClaimFactType_def fact_holds_def)

text \<open>C10: on every principal the operations can build, \<open>Validate\<close> does not panic and decides the
  Boolean formula the tree stands for (a node joins its entries by the operand it is evaluated
  under, DSL nodes by their own operator) on the claims \<open>GetClaims\<close> lists, and \<open>String\<close> prints
  that same formula.\<close>

theorem validate_decides_printed_formula:
  assumes "runOps NewIClaimsPrincipal ops = Some p"
  shows "Validate p v = Some (holds (set (GetClaims p)) (meaning opAnd v)) \<and>
    String v = Some (render (meaning opAnd v))"
proof -
  have wf: "wf_principal p" using runOps_refines [OF wf_new, of ops] assms by auto
  then show ?thesis by (simp add: Validate_meaning String_meaning set_GetClaims)
qed

theorem validate_decides_printed_formula_witness:
  "Validate (AddClaim NewIClaimsPrincipal [mk_claim ''permissions'' ''A'']) docAST = Some False \<and>
   Validate (AddClaim NewIClaimsPrincipal [mk_claim ''org'' ''x'', mk_claim ''permissions'' ''UsageMetrics.Read''])
     docDSL = Some True"
proof -
  let ?p = "AddClaim NewIClaimsPrincipal [mk_claim ''permissions'' ''A'']"
  let ?q = "AddClaim NewIClaimsPrincipal [mk_claim ''org'' ''x'', mk_claim ''permissions'' ''UsageMetrics.Read'']"
  have "runOps NewIClaimsPrincipal [OpAdd [mk_claim ''permissions'' ''A'']] = Some ?p" by simp
  from validate_decides_printed_formula [OF this, of docAST]
  have "Validate ?p docAST = Some False"
    by (simp add: set_GetClaims new_add docAST_def under_def)
  moreover have "runOps NewIClaimsPrincipal
    [OpAdd [mk_claim ''org'' ''x'', mk_claim ''permissions'' ''UsageMetrics.Read'']] = Some ?q" by simp
  from validate_decides_printed_formula [OF this, of docDSL]
  have "Validate ?q docDSL = Some True"
    by (simp add: set_GetClaims new_add docDSL_def Root_def under_def)
  ultimately show ?thesis by simp
qed

text \<open>the example in the doc comment of \<open>ClaimsAST\<close> validates exactly as the comment says, on
  every well-formed principal: A and B and (C or D) and (E or F or (G and H)) and not (I or J).\<close>

theorem docAST_as_documented:
  fixes has :: "string \<Rightarrow> bool"
  assumes "wf_principal p" and "has = (\<lambda>v. HasClaim p (mk_claim ''permissions'' v))"
  shows "Validate p docAST = Some (has ''A'' \<and> has ''B'' \<and> (has ''C'' \<or> has ''D'') \<and>
    (has ''E'' \<or> has ''F'' \<or> (has ''G'' \<and> has ''H'')) \<and> \<not> (has ''I'' \<or> has ''J''))"
  using assms by (simp add: Validate_meaning docAST_def under_def HasClaim_iff)

theorem docAST_as_documented_witness:
  "Validate (AddClaim NewIClaimsPrincipal (map (mk_claim ''permissions'') [''A'', ''B'', ''D'', ''G'', ''H'']))
     docAST = Some True"
  using docAST_as_documented [OF new_add(1) refl,
      of "map (mk_claim ''permissions'') [''A'', ''B'', ''D'', ''G'', ''H'']"]
  by (simp add: HasClaim_iff new_add)

text \<open>the package comment of \<open>claimsast\<close> shows a struct form and the DSL form it "becomes"; the
  two are different policies. The DSL form asks for an org claim and one of the two permissions,
  the struct form is satisfied by the org claim alone (its \<open>And\<close> elements sit under an OR group).\<close>

theorem package_example_forms_differ:
  assumes "wf_principal p"
  shows "Validate p docRaw = Some (HasClaimType p ''org'' \<or>
      (HasClaim p (mk_claim ''permissions'' ''UsageMetrics.Read'') \<and>
       HasClaim p (mk_claim ''permissions'' ''UsageMetrics.ReadWrite''))) \<and>
    Validate p docDSL = Some (HasClaimType p ''org'' \<and>
      (HasClaim p (mk_claim ''permissions'' ''UsageMetrics.Read'') \<or>
       HasClaim p (mk_claim ''permissions'' ''UsageMetrics.ReadWrite'')))"
  using assms
  by (simp add: Validate_meaning docRaw_def docDSL_def Root_def under_def principal.has_iff
      principal.hasType_iff)

theorem package_example_forms_differ_witness:
  "Validate (AddClaim NewIClaimsPrincipal [mk_claim ''org'' ''x'']) docRaw = Some True \<and>
   Validate (AddClaim NewIClaimsPrincipal [mk_claim ''org'' ''x'']) docDSL = Some False"
  using package_example_forms_differ [OF new_add(1), of "[mk_claim ''org'' ''x'']"]
  by (simp add: principal.has_iff principal.hasType_iff new_add)

end
