(* ===== verification/Request.thy ===== *)
theory Request
  imports Claims_AST
begin

text \<open>
  What a gRPC request carries through the interceptors: errors, the immutable context (incoming
  metadata, peer, the request container of \<open>middleware/dicontext\<close>), the mutable state (the claims
  principal and the logging property bag of the request scope, the globals of the JWT package and
  everything outside the program), and the interceptors that open the scope
  (\<open>middleware/dicontext\<close>), give it a correlation id (\<open>middleware/correlation\<close>) and fill the
  property bag (\<open>middleware/logging\<close>, \<open>services/propertybag\<close>).

  The request message is never touched by these interceptors; it is part of the handler. A panic
  is \<open>None\<close>. Log output is not modelled.
\<close>

section \<open>Errors\<close>

datatype code = OK | InvalidArgument | NotFound | PermissionDenied | Unauthenticated | Unavailable | Internal

text \<open>A Go error is a gRPC status or any other error; \<open>status.FromError\<close> recognises the first.\<close>

datatype goError = Status code string | Plain string

definition errCode :: "goError \<Rightarrow> code option" where
  "errCode e = (case e of Status c _ \<Rightarrow> Some c | Plain _ \<Rightarrow> None)"

section \<open>The property bag\<close>

datatype bagValue = BVString string | BVStrings "string list" | BVObject string

type_synonym propertyBag = "(string, bagValue) gomap"

definition bagGet :: "propertyBag \<Rightarrow> string \<Rightarrow> bagValue option" where
  "bagGet b key = (if key = [] then None else mget b key)"

definition bagSet :: "propertyBag \<Rightarrow> string \<Rightarrow> bagValue \<Rightarrow> propertyBag" where
  "bagSet b key v = (if key \<noteq> [] then mput key v b else b)"

definition bagDelete :: "propertyBag \<Rightarrow> string \<Rightarrow> propertyBag" where
  "bagDelete b key = (if key \<noteq> [] then mdel key b else b)"

definition bagKeys :: "propertyBag \<Rightarrow> string list" where
  "bagKeys b = map fst b"

definition bagAsMap :: "propertyBag \<Rightarrow> (string, bagValue) gomap" where
  "bagAsMap b = fold (\<lambda>(k, v) response. mput k v response) b []"

section \<open>Context and state\<close>

text \<open>
  Metadata is Go's \<open>map[string][]string\<close>. Its methods come from the gRPC packages and are the
  parameter \<open>mdLib\<close>: \<open>md.Get\<close>, and \<open>Set\<close> and \<open>Del\<close> of go-grpc-middleware's \<open>NiceMD\<close>.
\<close>

type_synonym metadata = "(string, string list) gomap"

record mdLib =
  md_Get :: "metadata \<Rightarrow> string \<Rightarrow> string list"
  md_Set :: "metadata \<Rightarrow> string \<Rightarrow> string \<Rightarrow> metadata"
  md_Del :: "metadata \<Rightarrow> string \<Rightarrow> metadata"

definition md_laws :: "mdLib \<Rightarrow> bool" where
  "md_laws lib \<longleftrightarrow>
    (\<forall>md k v k'. md_Get lib (md_Set lib md k v) k' = (if k' = k then [v] else md_Get lib md k')) \<and>
    (\<forall>md k k'. md_Get lib (md_Del lib md k) k' = (if k' = k then [] else md_Get lib md k'))"

text \<open>An instance of the laws, for examples.\<close>

definition sampleMd :: mdLib where
  "sampleMd =
    \<lparr>md_Get = (\<lambda>md k. case mget md k of None \<Rightarrow> [] | Some v \<Rightarrow> v),
     md_Set = (\<lambda>md k v. mput k [v] md),
     md_Del = (\<lambda>md k. mdel k md)\<rparr>"

lemma md_laws_sample: "md_laws sampleMd"
  by (simp add: md_laws_def sampleMd_def gomap)

record certificate =
  ct_CommonName :: string
  ct_Raw :: string
  ct_URIs :: "string list"

text \<open>\<open>p.AuthInfo\<close>: TLS with the chains the TLS stack verified and the certificates presented, or
  something else.\<close>

datatype authInfo = TLSInfo (VerifiedChains: "certificate list list") (PeerCertificates: "certificate list")
  | OtherAuthInfo

record reqContext =
  rc_container :: bool
  rc_metadata :: "metadata option"
  rc_peer :: "authInfo option"

text \<open>
  \<open>rs_principal\<close> and \<open>rs_bag\<close> are what the request container resolves for \<open>IClaimsPrincipal\<close> and
  \<open>IRequestContextLoggingPropertyBag\<close>, \<open>None\<close> when nothing is registered. \<open>rs_capture\<close> is the local
  variable \<open>capture\<close> of the reference token interceptor. \<open>g_gates\<close> and \<open>g_min\<close> are the package
  variables of \<open>middleware/auth/jwt\<close>; \<open>g_env\<close> is everything outside the program (clock, caches,
  identity provider, the handler's own data).
\<close>

record 'e globals =
  g_gates :: "(string, int option) gomap"
  g_min :: int
  g_env :: 'e

record 'e reqState =
  rs_principal :: "claimsPrincipal option"
  rs_bag :: "propertyBag option"
  rs_capture :: "claim list option"
  rs_globals :: "'e globals"

type_synonym ('e, 'r) handler = "reqContext \<Rightarrow> 'e reqState \<Rightarrow> ((goError + 'r) \<times> 'e reqState) option"
type_synonym ('e, 'r) unaryInterceptor =
  "reqContext \<Rightarrow> string \<Rightarrow> ('e, 'r) handler \<Rightarrow> 'e reqState \<Rightarrow> ((goError + 'r) \<times> 'e reqState) option"
type_synonym 'e streamHandler = "reqContext \<Rightarrow> 'e reqState \<Rightarrow> (goError option \<times> 'e reqState) option"
type_synonym 'e streamInterceptor =
  "reqContext \<Rightarrow> string \<Rightarrow> 'e streamHandler \<Rightarrow> 'e reqState \<Rightarrow> (goError option \<times> 'e reqState) option"

definition GetRequestContainer :: "reqContext \<Rightarrow> bool" where
  "GetRequestContainer ctx = rc_container ctx"

definition SetRequestContainer :: "reqContext \<Rightarrow> reqContext" where
  "SetRequestContainer ctx = ctx\<lparr>rc_container := True\<rparr>"

text \<open>\<open>di.Get\<close> on the request container panics when there is no container or nothing is registered.\<close>

definition diPrincipal :: "reqContext \<Rightarrow> 'e reqState \<Rightarrow> claimsPrincipal option" where
  "diPrincipal ctx s = (if GetRequestContainer ctx then rs_principal s else None)"

definition diBag :: "reqContext \<Rightarrow> 'e reqState \<Rightarrow> propertyBag option" where
  "diBag ctx s = (if GetRequestContainer ctx then rs_bag s else None)"

definition addClaims :: "'e reqState \<Rightarrow> claim list \<Rightarrow> 'e reqState" where
  "addClaims s cs = s\<lparr>rs_principal := map_option (\<lambda>p. AddClaim p cs) (rs_principal s)\<rparr>"

definition setBag :: "'e reqState \<Rightarrow> string \<Rightarrow> bagValue \<Rightarrow> 'e reqState" where
  "setBag s k v = s\<lparr>rs_bag := map_option (\<lambda>b. bagSet b k v) (rs_bag s)\<rparr>"

section \<open>The request scope\<close>

text \<open>
  What the root container would resolve in a new scope: \<open>fresh\<close> says whether a claims principal
  and a property bag are registered as scoped services. The scope is disposed when the handler
  returns; afterwards the caller sees its own scope again.
\<close>

definition openScope :: "bool \<Rightarrow> bool \<Rightarrow> 'e reqState \<Rightarrow> 'e reqState" where
  "openScope hasPrincipal hasBag s =
    s\<lparr>rs_principal := (if hasPrincipal then Some NewIClaimsPrincipal else None),
      rs_bag := (if hasBag then Some [] else None)\<rparr>"

definition closeScope :: "'e reqState \<Rightarrow> 'e reqState \<Rightarrow> 'e reqState" where
  "closeScope outer s = s\<lparr>rs_principal := rs_principal outer, rs_bag := rs_bag outer\<rparr>"

definition ScopedContextUnary :: "bool \<Rightarrow> bool \<Rightarrow> ('e, 'r) unaryInterceptor" where
  "ScopedContextUnary hasPrincipal hasBag ctx fullMethod handler s =
    map_option (\<lambda>(r, s'). (r, closeScope s s'))
      (handler (SetRequestContainer ctx) (openScope hasPrincipal hasBag s))"

text \<open>\<open>wrappedStream\<close>: a stream seen through another context; here only its context matters.\<close>

definition SetContext :: "reqContext \<Rightarrow> reqContext \<Rightarrow> reqContext" where
  "SetContext ss ctx = ctx"

definition ScopedContextStream :: "bool \<Rightarrow> bool \<Rightarrow> 'e streamInterceptor" where
  "ScopedContextStream hasPrincipal hasBag ss fullMethod handler s =
    map_option (\<lambda>(r, s'). (r, closeScope s s'))
      (handler (SetContext ss (SetRequestContainer ss)) (openScope hasPrincipal hasBag s))"

section \<open>Correlation ids\<close>

text \<open>\<open>metautils.ExtractIncoming\<close> is the incoming metadata, empty when there is none.\<close>

definition ExtractIncoming :: "reqContext \<Rightarrow> metadata" where
  "ExtractIncoming ctx = (case rc_metadata ctx of None \<Rightarrow> [] | Some md \<Rightarrow> md)"

definition ToIncoming :: "metadata \<Rightarrow> reqContext \<Rightarrow> reqContext" where
  "ToIncoming md ctx = ctx\<lparr>rc_metadata := Some md\<rparr>"

definition XCorrelationIDName :: string where "XCorrelationIDName = ''x-correlation-id''"
definition XRequestID :: string where "XRequestID = ''x-request-id''"
definition XSpanName :: string where "XSpanName = ''x-span''"
definition XParentName :: string where "XParentName = ''x-parent''"

text \<open>The loop over the metadata; reading \<open>v[0]\<close> of an empty value list panics.\<close>

definition pickId :: "bool \<Rightarrow> string list \<Rightarrow> string \<Rightarrow> string option" where
  "pickId here v old = (if here then (case v of [] \<Rightarrow> None | x # _ \<Rightarrow> Some x) else Some old)"

fun scanIds :: "metadata \<Rightarrow> string \<times> string \<Rightarrow> (string \<times> string) option" where
  "scanIds [] ids = Some ids"
| "scanIds ((key, v) # md) (cid, rid) =
    (let lowerKey = ToLower key in
     case pickId (lowerKey = XCorrelationIDName) v cid of
       None \<Rightarrow> None
     | Some cid' \<Rightarrow>
         (case pickId (lowerKey = XRequestID) v rid of
            None \<Rightarrow> None
          | Some rid' \<Rightarrow> scanIds md (cid', rid')))"

text \<open>Both interceptors; the ids \<open>newId\<close> and \<open>newSpan\<close> come from \<open>GenerateUniqueID\<close>. The plain one
  also turns the incoming span into the parent and starts a new span.\<close>

definition ensureCorrelation :: "string \<Rightarrow> metadata \<Rightarrow> (metadata \<times> string \<times> string) option" where
  "ensureCorrelation newId md =
    map_option (\<lambda>(cid, rid).
      if length cid = 0 then (mput XCorrelationIDName [newId] md, newId, rid) else (md, cid, rid))
      (scanIds md ('''', ''0''))"

definition EnsureCorrelationIDUnary :: "string \<Rightarrow> string \<Rightarrow> ('e, 'r) unaryInterceptor" where
  "EnsureCorrelationIDUnary newId newSpan ctx fullMethod handler s =
    (case ensureCorrelation newId (ExtractIncoming ctx) of
       None \<Rightarrow> None
     | Some (md, cid, rid) \<Rightarrow>
         let md1 = (case mget md XSpanName of
                      Some (sp # _) \<Rightarrow> mput XParentName [sp] md
                    | _ \<Rightarrow> md);
             md2 = mput XSpanName [newSpan] md1
         in handler (ToIncoming md2 ctx) s)"

definition EnsureOTELCorrelationIDUnary :: "string \<Rightarrow> ('e, 'r) unaryInterceptor" where
  "EnsureOTELCorrelationIDUnary newId ctx fullMethod handler s =
    (case ensureCorrelation newId (ExtractIncoming ctx) of
       None \<Rightarrow> None
     | Some (md, cid, rid) \<Rightarrow> handler (ToIncoming md ctx) s)"

section \<open>Context logging\<close>

text \<open>
  \<open>unmarshal\<close> is \<open>json.Unmarshal\<close> into a map: an error, a nil map (the text \<open>null\<close>), or an object.
\<close>

definition getIncomingOriginContextJson ::
    "mdLib \<Rightarrow> (string \<Rightarrow> string option option) \<Rightarrow> reqContext \<Rightarrow> goError + string option" where
  "getIncomingOriginContextJson lib unmarshal ctx =
    (case rc_metadata ctx of
       None \<Rightarrow> Inl (Status Unauthenticated ''no metadata found'')
     | Some md \<Rightarrow>
         (case md_Get lib md ''ctxOrigin'' of
            [] \<Rightarrow> Inr None
          | t # _ \<Rightarrow>
              (case unmarshal t of
                 None \<Rightarrow> Inl (Status InvalidArgument ''invalid ctxOrigin'')
               | Some obj \<Rightarrow> Inr obj)))"

definition EnsureContextLoggingUnary ::
    "mdLib \<Rightarrow> (string \<Rightarrow> string option option) \<Rightarrow> string \<Rightarrow> ('e, 'r) unaryInterceptor" where
  "EnsureContextLoggingUnary lib unmarshal ctxOriginName ctx fullMethod handler s =
    (case diBag ctx s of
       None \<Rightarrow> None
     | Some bag \<Rightarrow>
         (case getIncomingOriginContextJson lib unmarshal ctx of
            Inr (Some obj) \<Rightarrow> handler ctx (setBag s ctxOriginName (BVObject obj))
          | _ \<Rightarrow> handler ctx s))"

definition EnsureContextLoggingStream :: "'e streamInterceptor" where
  "EnsureContextLoggingStream ss fullMethod handler s = handler (SetContext ss ss) s"

section \<open>Interceptor lists\<close>

definition Use :: "'i list \<Rightarrow> 'i \<Rightarrow> 'i list" where
  "Use is i = is @ [i]"

section \<open>What an interceptor lets through\<close>

text \<open>
  \<open>passes P I Q\<close>: started in a context and state with \<open>P\<close>, the interceptor \<open>I\<close> runs its handler, if at
  all, only in contexts and states related to the initial ones by \<open>Q\<close>. That is said without
  looking into \<open>I\<close>: handlers that agree there give the same result.
\<close>

type_synonym 'e passRel = "reqContext \<Rightarrow> 'e reqState \<Rightarrow> reqContext \<Rightarrow> 'e reqState \<Rightarrow> bool"

definition passes ::
    "(reqContext \<Rightarrow> 'e reqState \<Rightarrow> bool) \<Rightarrow>
     (reqContext \<Rightarrow> string \<Rightarrow> (reqContext \<Rightarrow> 'e reqState \<Rightarrow> 'r) \<Rightarrow> 'e reqState \<Rightarrow> 'r) \<Rightarrow> 'e passRel \<Rightarrow> bool" where
  "passes P I Q \<longleftrightarrow>
    (\<forall>ctx name s h h'. P ctx s \<longrightarrow> (\<forall>c t. Q ctx s c t \<longrightarrow> h c t = h' c t) \<longrightarrow> I ctx name h s = I ctx name h' s)"

text \<open>One interceptor around another, as gRPC chains them.\<close>

definition around ::
    "(reqContext \<Rightarrow> string \<Rightarrow> (reqContext \<Rightarrow> 's \<Rightarrow> 'r) \<Rightarrow> 's \<Rightarrow> 'r) \<Rightarrow>
     (reqContext \<Rightarrow> string \<Rightarrow> (reqContext \<Rightarrow> 's \<Rightarrow> 'r) \<Rightarrow> 's \<Rightarrow> 'r) \<Rightarrow>
     reqContext \<Rightarrow> string \<Rightarrow> (reqContext \<Rightarrow> 's \<Rightarrow> 'r) \<Rightarrow> 's \<Rightarrow> 'r" where
  "around I J ctx name h s = I ctx name (\<lambda>c t. J c name h t) s"

lemma passesI:
  "(\<And>ctx name s h h'. P ctx s \<Longrightarrow> (\<And>c t. Q ctx s c t \<Longrightarrow> h c t = h' c t) \<Longrightarrow> I ctx name h s = I ctx name h' s) \<Longrightarrow>
    passes P I Q"
  unfolding passes_def by blast

lemma passesD:
  "passes P I Q \<Longrightarrow> P ctx s \<Longrightarrow> (\<And>c t. Q ctx s c t \<Longrightarrow> h c t = h' c t) \<Longrightarrow> I ctx name h s = I ctx name h' s"
  unfolding passes_def by blast

lemma passes_weaken:
  "passes P I Q \<Longrightarrow> (\<And>ctx s c t. P ctx s \<Longrightarrow> Q ctx s c t \<Longrightarrow> Q' ctx s c t) \<Longrightarrow> passes P I Q'"
  unfolding passes_def by blast

lemma passes_around:
  fixes I J :: "reqContext \<Rightarrow> string \<Rightarrow> (reqContext \<Rightarrow> 'e reqState \<Rightarrow> 'r) \<Rightarrow> 'e reqState \<Rightarrow> 'r"
  assumes "passes P I Q" "passes P' J Q'"
    and "\<And>ctx s c t. P ctx s \<Longrightarrow> Q ctx s c t \<Longrightarrow> P' c t"
    and "\<And>ctx s c t c' t'. P ctx s \<Longrightarrow> Q ctx s c t \<Longrightarrow> Q' c t c' t' \<Longrightarrow> R ctx s c' t'"
  shows "passes P (around I J) R"
proof (rule passesI)
  fix ctx name s and h h' :: "reqContext \<Rightarrow> 'e reqState \<Rightarrow> 'r" assume P: "P ctx s" and R: "\<And>c t. R ctx s c t \<Longrightarrow> h c t = h' c t"
  show "around I J ctx name h s = around I J ctx name h' s"
    unfolding around_def
  proof (rule passesD [OF assms(1) P])
    fix c t assume Q: "Q ctx s c t"
    show "J c name h t = J c name h' t"
      by (rule passesD [OF assms(2) assms(3) [OF P Q]]) (rule R, rule assms(4) [OF P Q])
  qed
qed

section \<open>Lemmas\<close>

named_theorems scope_simps \<open>reading the request state after an update\<close>

lemma addClaims_sel [scope_simps]:
  "rs_principal (addClaims s cs) = map_option (\<lambda>p. AddClaim p cs) (rs_principal s)"
  "rs_bag (addClaims s cs) = rs_bag s" "rs_globals (addClaims s cs) = rs_globals s"
  "rs_capture (addClaims s cs) = rs_capture s"
  by (simp_all add: addClaims_def)

lemma setBag_sel [scope_simps]:
  "rs_principal (setBag s k v) = rs_principal s" "rs_globals (setBag s k v) = rs_globals s"
  "rs_bag (setBag s k v) = map_option (\<lambda>b. bagSet b k v) (rs_bag s)"
  "rs_capture (setBag s k v) = rs_capture s"
  by (simp_all add: setBag_def)

lemma scope_sel [scope_simps]:
  "rs_principal (openScope True hb s) = Some NewIClaimsPrincipal"
  "rs_globals (openScope hp hb s) = rs_globals s"
  "rs_globals (closeScope s' s) = rs_globals s" "rs_principal (closeScope s' s) = rs_principal s'"
  by (simp_all add: openScope_def closeScope_def)

lemma context_sel [scope_simps]:
  "rc_container (SetRequestContainer ctx)" "rc_peer (SetRequestContainer ctx) = rc_peer ctx"
  "rc_metadata (SetRequestContainer ctx) = rc_metadata ctx"
  "rc_container (ToIncoming md ctx) = rc_container ctx" "rc_peer (ToIncoming md ctx) = rc_peer ctx"
  "rc_metadata (ToIncoming md ctx) = Some md"
  by (simp_all add: SetRequestContainer_def ToIncoming_def)

text \<open>The scope invariant: the principal of the request, when there is one, is well formed.\<close>

definition wf_state :: "'e reqState \<Rightarrow> bool" where
  "wf_state s = (case rs_principal s of None \<Rightarrow> True | Some p \<Rightarrow> wf_principal p)"

definition state_claims :: "'e reqState \<Rightarrow> claim set" where
  "state_claims s = (case rs_principal s of None \<Rightarrow> {} | Some p \<Rightarrow> claim_set p)"

lemma wf_addClaims: "wf_state s \<Longrightarrow> wf_state (addClaims s cs)"
  by (auto simp: wf_state_def scope_simps principal.store_specs split: option.splits)

lemma claims_addClaims:
  "wf_state s \<Longrightarrow> rs_principal s \<noteq> None \<Longrightarrow>
    state_claims (addClaims s cs) = state_claims s \<union> {c \<in> set cs. c_type c \<noteq> []}"
  by (auto simp: wf_state_def state_claims_def scope_simps principal.store_specs)

lemma claims_setBag [scope_simps]: "state_claims (setBag s k v) = state_claims s"
  by (simp add: state_claims_def scope_simps)

lemma wf_setBag [scope_simps]: "wf_state (setBag s k v) = wf_state s"
  by (simp add: wf_state_def scope_simps)

text \<open>The property bag is a map with non-empty keys.\<close>

lemma bagAsMap_eq: "wf_map b \<Longrightarrow> mget (bagAsMap b) k = mget b k"
proof -
  have "wf_map b \<Longrightarrow> mget (fold (\<lambda>(k, v) r. mput k v r) b r) k =
      (case mget b k of None \<Rightarrow> mget r k | Some v \<Rightarrow> Some v)" for r
  proof (induction b arbitrary: r)
    case (Cons e b)
    then have "mget b (fst e) = None" by (simp add: map_of_eq_None_iff)
    with Cons show ?case by (cases e) (auto simp: gomap split: option.splits)
  qed simp
  then show "wf_map b \<Longrightarrow> ?thesis" by (auto simp: bagAsMap_def split: option.splits)
qed

end
