(* ===== verification/Auth_Gate.thy ===== *)
theory Auth_Gate
  imports Request
begin

text \<open>
  The authorization decision: the entry point builder
  (\<open>services/common/claimsprincipal/EntryPointClaimsBuilder.go\<close>), the OIDC \<open>ClaimsConfig\<close>
  check and the final gate of \<open>middleware/claimsprincipal\<close>, unary and streaming. \<open>None\<close> is a
  panic.
\<close>

section \<open>Entry points\<close>

text \<open>
  \<open>ep_ClaimsAST\<close> is a pointer to a \<open>ClaimsAST\<close>, \<open>None\<close> when nil. A map entry may itself be a nil
  interface, hence the option in the map.
\<close>

record entryPointConfig =
  ep_FullMethodName :: string
  ep_ClaimsAST :: "validator option"

type_synonym entryMap = "(string, entryPointConfig option) gomap"

definition NewEntryPointClaimsBuilder :: entryMap where
  "NewEntryPointClaimsBuilder = []"

definition emptyAST :: validator where "emptyAST = AST [] [] [] []"

definition ensureEntry :: "entryMap \<Rightarrow> string \<Rightarrow> entryPointConfig option \<times> entryMap" where
  "ensureEntry m name =
    (case mget m name of
       Some e \<Rightarrow> (e, m)
     | None \<Rightarrow>
         let e = Some \<lparr>ep_FullMethodName = name, ep_ClaimsAST = Some emptyAST\<rparr>
         in (e, mput name e m))"

definition WithGrpcEntrypointPermissionsClaimsMapOpen :: "entryMap \<Rightarrow> string \<Rightarrow> entryMap" where
  "WithGrpcEntrypointPermissionsClaimsMapOpen m name = snd (ensureEntry m name)"

text \<open>The pointer \<open>GetClaimsAST\<close> returns is shared with the entry; appending writes through it.\<close>

definition GetClaimsAST :: "entryMap \<Rightarrow> string \<Rightarrow> (validator option \<times> entryMap) option" where
  "GetClaimsAST m name =
    (case ensureEntry m name of
       (None, m') \<Rightarrow> None
     | (Some e, m') \<Rightarrow> Some (ep_ClaimsAST e, m'))"

definition WithGrpcEntrypointClams :: "entryMap \<Rightarrow> string \<Rightarrow> claimFact list \<Rightarrow> entryMap option" where
  "WithGrpcEntrypointClams m name facts =
    (case ensureEntry m name of
       (None, m') \<Rightarrow> None
     | (Some e, m') \<Rightarrow>
         (case ep_ClaimsAST e of
            None \<Rightarrow> None
          | Some ast \<Rightarrow>
              Some (mput name (Some (e\<lparr>ep_ClaimsAST := Some (AppendClaimsFact ast facts)\<rparr>)) m')))"

definition GetExpression :: "entryPointConfig \<Rightarrow> string option" where
  "GetExpression e = (case ep_ClaimsAST e of None \<Rightarrow> None | Some v \<Rightarrow> String v)"

section \<open>The OIDC claims configuration\<close>

datatype claimsConfig =
  ClaimsConfig (cc_OR: "claimFact list") (cc_AND: "claimFact list") (cc_Child: "claimsConfig option")

definition validateAND :: "claimsConfig \<Rightarrow> claimsPrincipal \<Rightarrow> bool" where
  "validateAND cfg p =
    (if cc_AND cfg = [] then True
     else list_all (\<lambda>v.
       (cf_directive v = ClaimTypeAndValue \<longrightarrow> HasClaim p (cf_claim v)) \<and>
       (cf_directive v = ClaimType \<longrightarrow> HasClaimType p (c_type (cf_claim v)))) (cc_AND cfg))"

definition validateOR :: "claimsConfig \<Rightarrow> claimsPrincipal \<Rightarrow> bool" where
  "validateOR cfg p =
    (if cc_OR cfg = [] then True
     else list_ex (\<lambda>v.
       cf_directive v = ClaimTypeAndValue \<and> HasClaim p (cf_claim v) \<or>
       cf_directive v = ClaimType \<and> HasClaimType p (c_type (cf_claim v))) (cc_OR cfg))"

fun validateConfig :: "claimsConfig \<Rightarrow> claimsPrincipal \<Rightarrow> bool" where
  "validateConfig (ClaimsConfig ors ands child) p =
    (if \<not> validateAND (ClaimsConfig ors ands child) p then False
     else if \<not> validateOR (ClaimsConfig ors ands child) p then False
     else (case child of None \<Rightarrow> True | Some c \<Rightarrow> validateConfig c p))"

definition GetChild :: "claimsConfig \<Rightarrow> claimsConfig" where
  "GetChild cfg = (case cc_Child cfg of None \<Rightarrow> ClaimsConfig [] [] None | Some c \<Rightarrow> c)"

definition WithClaimFactsMapOR :: "claimsConfig \<Rightarrow> claimFact list \<Rightarrow> claimsConfig" where
  "WithClaimFactsMapOR cfg fs = ClaimsConfig (cc_OR cfg @ fs) (cc_AND cfg) (cc_Child cfg)"

definition WithClaimFactsMapAND :: "claimsConfig \<Rightarrow> claimFact list \<Rightarrow> claimsConfig" where
  "WithClaimFactsMapAND cfg fs = ClaimsConfig (cc_OR cfg) (cc_AND cfg @ fs) (cc_Child cfg)"

section \<open>The final gate\<close>

text \<open>\<open>di.TryGet\<close> on the request container; with no container or no principal, a new empty one.\<close>

definition requestPrincipal :: "reqContext \<Rightarrow> 'e reqState \<Rightarrow> claimsPrincipal" where
  "requestPrincipal ctx s =
    (case diPrincipal ctx s of Some p \<Rightarrow> p | None \<Rightarrow> NewIClaimsPrincipal)"

definition permissionDenied :: goError where
  "permissionDenied = Status PermissionDenied ''permission denied''"

definition authorize ::
    "reqContext \<Rightarrow> 'e reqState \<Rightarrow> string \<Rightarrow> entryMap \<Rightarrow> bool \<Rightarrow> goError option option" where
  "authorize ctx s fullMethod m zeroTrust =
    (case mget m fullMethod of
       None \<Rightarrow> Some (if zeroTrust then Some permissionDenied else None)
     | Some None \<Rightarrow> Some None
     | Some (Some e) \<Rightarrow>
         (case ep_ClaimsAST e of
            None \<Rightarrow> None
          | Some ast \<Rightarrow>
              (case Validate (requestPrincipal ctx s) ast of
                 None \<Rightarrow> None
               | Some ok \<Rightarrow> Some (if ok then None else Some permissionDenied))))"

definition unaryGate :: "entryMap \<Rightarrow> bool \<Rightarrow> ('e, 'r) unaryInterceptor" where
  "unaryGate m zeroTrust ctx fullMethod handler s =
    (case authorize ctx s fullMethod m zeroTrust of
       None \<Rightarrow> None
     | Some (Some err) \<Rightarrow> Some (Inl err, s)
     | Some None \<Rightarrow> handler ctx s)"

text \<open>The stream handler has no response; it reads its context from the stream \<open>ss\<close>.\<close>

definition streamGate :: "entryMap \<Rightarrow> bool \<Rightarrow> 'e streamInterceptor" where
  "streamGate m zeroTrust ss fullMethod handler s =
    (case authorize ss s fullMethod m zeroTrust of
       None \<Rightarrow> None
     | Some (Some err) \<Rightarrow> Some (Some err, s)
     | Some None \<Rightarrow> handler ss s)"

definition zeroTrustUnary where "zeroTrustUnary m = unaryGate m True"
definition zeroTrustStream where "zeroTrustStream m = streamGate m True"

section \<open>Building the map\<close>

datatype builderCall = Open string | Claims string "claimFact list"

fun build :: "entryMap \<Rightarrow> builderCall list \<Rightarrow> entryMap option" where
  "build m [] = Some m"
| "build m (Open name # cs) = build (WithGrpcEntrypointPermissionsClaimsMapOpen m name) cs"
| "build m (Claims name fs # cs) =
    (case WithGrpcEntrypointClams m name fs of None \<Rightarrow> None | Some m' \<Rightarrow> build m' cs)"

text \<open>The facts a sequence of calls requires of a method: \<open>None\<close> when it names no such method.\<close>

fun required :: "string \<Rightarrow> claimFact list option \<Rightarrow> builderCall list \<Rightarrow> claimFact list option" where
  "required name r [] = r"
| "required name r (Open n # cs) =
    required name (if n = name then Some (case r of None \<Rightarrow> [] | Some fs \<Rightarrow> fs) else r) cs"
| "required name r (Claims n fs # cs) =
    required name (if n = name then Some ((case r of None \<Rightarrow> [] | Some gs \<Rightarrow> gs) @ fs) else r) cs"

definition entry_of :: "string \<Rightarrow> claimFact list \<Rightarrow> entryPointConfig" where
  "entry_of name fs = \<lparr>ep_FullMethodName = name, ep_ClaimsAST = Some (AST fs [] [] [])\<rparr>"

definition built :: "entryMap \<Rightarrow> bool" where
  "built m \<longleftrightarrow> wf_map m \<and> (\<forall>n e. mget m n = Some e \<longrightarrow> (\<exists>fs. e = Some (entry_of n fs)))"

definition facts_in :: "entryMap \<Rightarrow> string \<Rightarrow> claimFact list option" where
  "facts_in m name =
    (case mget m name of Some (Some e) \<Rightarrow> map_option ClaimFacts (ep_ClaimsAST e) | _ \<Rightarrow> None)"

lemma built_lookup:
  "built m \<Longrightarrow> mget m n = map_option (\<lambda>fs. Some (entry_of n fs)) (facts_in m n)"
  unfolding built_def facts_in_def entry_of_def by (cases "mget m n") fastforce+

lemma built_empty: "built NewEntryPointClaimsBuilder" "facts_in NewEntryPointClaimsBuilder n = None"
  by (simp_all add: built_def facts_in_def NewEntryPointClaimsBuilder_def)

lemma built_put:
  "built m \<Longrightarrow> built (mput n (Some (entry_of n fs)) m)"
  by (auto simp: built_def gomap)

lemma facts_in_put:
  "facts_in (mput n (Some (entry_of n fs)) m) k = (if k = n then Some fs else facts_in m k)"
  by (simp add: facts_in_def gomap entry_of_def)

lemma ensureEntry_built:
  assumes "built m"
  shows "ensureEntry m n =
    (Some (entry_of n (case facts_in m n of None \<Rightarrow> [] | Some fs \<Rightarrow> fs)),
     (if facts_in m n = None then mput n (Some (entry_of n [])) m else m))"
  using built_lookup [OF assms, of n]
  by (cases "facts_in m n") (simp_all add: ensureEntry_def Let_def entry_of_def emptyAST_def)

lemma Open_built:
  assumes "built m"
  shows "built (WithGrpcEntrypointPermissionsClaimsMapOpen m n)"
    and "facts_in (WithGrpcEntrypointPermissionsClaimsMapOpen m n) k =
      (if n = k then Some (case facts_in m k of None \<Rightarrow> [] | Some fs \<Rightarrow> fs) else facts_in m k)"
  using assms
  by (auto simp: WithGrpcEntrypointPermissionsClaimsMapOpen_def ensureEntry_built built_put facts_in_put)

lemma Claims_built:
  assumes "built m"
  shows "\<exists>m'. WithGrpcEntrypointClams m n fs = Some m' \<and> built m' \<and>
    (\<forall>k. facts_in m' k =
      (if n = k then Some ((case facts_in m k of None \<Rightarrow> [] | Some gs \<Rightarrow> gs) @ fs) else facts_in m k))"
proof -
  let ?gs = "case facts_in m n of None \<Rightarrow> [] | Some gs \<Rightarrow> gs"
  let ?m = "if facts_in m n = None then mput n (Some (entry_of n [])) m else m"
  have "WithGrpcEntrypointClams m n fs = Some (mput n (Some (entry_of n (?gs @ fs))) ?m)"
    using assms by (simp add: WithGrpcEntrypointClams_def ensureEntry_built entry_of_def AppendClaimsFact_def)
  moreover have "built ?m" using assms by (simp add: built_put)
  ultimately show ?thesis by (auto simp: built_put facts_in_put)
qed

lemma build_refines:
  "built m \<Longrightarrow> \<exists>m'. build m calls = Some m' \<and> built m' \<and>
     (\<forall>k. facts_in m' k = required k (facts_in m k) calls)"
proof (induction m calls rule: build.induct)
  case (2 m n cs)
  from "2.IH" [OF Open_built(1) [OF "2.prems"]] show ?case by (simp add: Open_built(2) [OF "2.prems"])
next
  case (3 m n fs cs)
  from Claims_built [OF "3.prems", of n fs] obtain m' where m': "WithGrpcEntrypointClams m n fs = Some m'"
    "built m'" "\<forall>k. facts_in m' k =
      (if n = k then Some ((case facts_in m k of None \<Rightarrow> [] | Some gs \<Rightarrow> gs) @ fs) else facts_in m k)"
    by blast
  from "3.IH" [OF m'(1,2)] m' show ?case by simp
qed simp

lemma Validate_facts: "Validate p (AST fs [] [] []) = Some (list_all (\<lambda>f. fact_HasClaim f p) fs)"
  by (simp add: Validate_def allO_Some list_all_iff)

lemma authorize_built:
  "built m \<Longrightarrow> authorize ctx s name m zt =
    Some (case facts_in m name of
       None \<Rightarrow> if zt then Some permissionDenied else None
     | Some fs \<Rightarrow> if list_all (\<lambda>f. fact_HasClaim f (requestPrincipal ctx s)) fs then None
                 else Some permissionDenied)"
  by (cases "facts_in m name")
    (simp_all add: authorize_def built_lookup entry_of_def Validate_facts)

lemma fact_empty: "\<not> fact_HasClaim f NewIClaimsPrincipal"
  by (simp add: fact_HasClaim_iff wf_new claim_set_new fact_holds_def)

section \<open>The OIDC configuration as a tree\<close>

fun levels :: "claimsConfig \<Rightarrow> claimsConfig list" where
  "levels (ClaimsConfig ors ands child) =
    ClaimsConfig ors ands child # (case child of None \<Rightarrow> [] | Some c \<Rightarrow> levels c)"

definition known :: "claimFact \<Rightarrow> bool" where
  "known f \<longleftrightarrow> cf_directive f = ClaimTypeAndValue \<or> cf_directive f = ClaimType"

definition knownConfig :: "claimsConfig \<Rightarrow> bool" where
  "knownConfig cfg \<longleftrightarrow> (\<forall>l \<in> set (levels cfg). \<forall>f \<in> set (cc_OR l) \<union> set (cc_AND l). known f)"

definition configAST :: "claimsConfig \<Rightarrow> validator" where
  "configAST cfg =
    AST (concat (map cc_AND (levels cfg))) []
      (map (\<lambda>l. AST (cc_OR l) [] [] []) (filter (\<lambda>l. cc_OR l \<noteq> []) (levels cfg))) []"

lemma known_fact:
  assumes "known v"
  shows "(cf_directive v = ClaimTypeAndValue \<longrightarrow> HasClaim p (cf_claim v)) \<and>
      (cf_directive v = ClaimType \<longrightarrow> HasClaimType p (c_type (cf_claim v))) \<longleftrightarrow> fact_HasClaim v p"
    and "cf_directive v = ClaimTypeAndValue \<and> HasClaim p (cf_claim v) \<or>
      cf_directive v = ClaimType \<and> HasClaimType p (c_type (cf_claim v)) \<longleftrightarrow> fact_HasClaim v p"
  using assms by (auto simp: known_def fact_HasClaim_def ClaimType_def ClaimTypeAndValue_def)

lemma validate_level:
  assumes "\<forall>f \<in> set (cc_OR l) \<union> set (cc_AND l). known f"
  shows "validateAND l p \<longleftrightarrow> (\<forall>f \<in> set (cc_AND l). fact_HasClaim f p)"
    and "validateOR l p \<longleftrightarrow> cc_OR l = [] \<or> (\<exists>f \<in> set (cc_OR l). fact_HasClaim f p)"
  using assms by (auto simp: validateAND_def validateOR_def list_all_iff list_ex_iff known_fact)

lemma validateConfig_levels:
  "knownConfig cfg \<Longrightarrow> validateConfig cfg p \<longleftrightarrow> (\<forall>l \<in> set (levels cfg).
     (\<forall>f \<in> set (cc_AND l). fact_HasClaim f p) \<and>
     (cc_OR l = [] \<or> (\<exists>f \<in> set (cc_OR l). fact_HasClaim f p)))"
proof (induction cfg rule: levels.induct)
  case (1 ors ands child)
  let ?c = "ClaimsConfig ors ands child"
  have "\<forall>f \<in> set (cc_OR ?c) \<union> set (cc_AND ?c). known f"
    and "child = Some d \<Longrightarrow> knownConfig d" for d
    using "1.prems" by (simp_all add: knownConfig_def)
  then show ?case using validate_level [of ?c p] "1.IH" by (cases child) auto
qed

section \<open>Properties\<close>

text \<open>C11: a map built by any sequence of builder calls gives exactly the intended decision. The
  builder never panics; the gate never panics; a method no call names is denied under zero trust
  and let through otherwise; a named method is let through exactly when the request's principal
  has every fact the calls appended for it, an open method always.\<close>

theorem gate_decision:
  "\<exists>m. build NewEntryPointClaimsBuilder calls = Some m \<and>
    (\<forall>ctx (s :: 'e reqState) name zt. authorize ctx s name m zt =
      Some (case required name None calls of
         None \<Rightarrow> if zt then Some permissionDenied else None
       | Some fs \<Rightarrow> if list_all (\<lambda>f. fact_HasClaim f (requestPrincipal ctx s)) fs then None
                   else Some permissionDenied))"
  using build_refines [OF built_empty(1), of calls] by (auto simp: authorize_built built_empty(2))

text \<open>C12: the gate fails closed. When there is no request container, or no principal in it, every
  method with at least one required fact is denied, and under zero trust every method no builder
  call names is; the handler is not run (the state is untouched), unary and streaming alike.\<close>

theorem gate_fails_closed:
  assumes "build NewEntryPointClaimsBuilder calls = Some m"
    and "diPrincipal ctx s = None"
    and "case required name None calls of None \<Rightarrow> zt | Some fs \<Rightarrow> fs \<noteq> []"
  shows "unaryGate m zt ctx name handler s = Some (Inl permissionDenied, s) \<and>
    streamGate m zt ctx name sHandler s = Some (Some permissionDenied, s)"
proof -
  have p: "requestPrincipal ctx s = NewIClaimsPrincipal"
    using assms(2) by (simp add: requestPrincipal_def)
  from build_refines [OF built_empty(1), of calls] assms(1)
  have m: "built m" "facts_in m name = required name None calls" by (auto simp: built_empty(2))
  have "authorize ctx s name m zt = Some (Some permissionDenied)"
    using assms(3) m(2)
    by (cases "required name None calls"; cases "the (required name None calls)")
      (auto simp: authorize_built [OF m(1)] p fact_empty)
  then show ?thesis by (simp add: unaryGate_def streamGate_def)
qed

theorem gate_fails_closed_witness:
  "unaryGate [(''/p.S/M'', Some (entry_of ''/p.S/M'' [NewClaimFactType ''sub'']))] True
     \<lparr>rc_container = False, rc_metadata = None, rc_peer = None\<rparr> ''/p.S/M'' (\<lambda>ctx s. Some (Inr (), s))
     \<lparr>rs_principal = None, rs_bag = None, rs_capture = None, rs_globals = \<lparr>g_gates = [], g_min = 0, g_env = ()\<rparr>\<rparr> =
   Some (Inl permissionDenied,
     \<lparr>rs_principal = None, rs_bag = None, rs_capture = None, rs_globals = \<lparr>g_gates = [], g_min = 0, g_env = ()\<rparr>\<rparr>)"
proof -
  have "build NewEntryPointClaimsBuilder [Claims ''/p.S/M'' [NewClaimFactType ''sub'']] =
    Some [(''/p.S/M'', Some (entry_of ''/p.S/M'' [NewClaimFactType ''sub'']))]"
    by (simp add: NewEntryPointClaimsBuilder_def WithGrpcEntrypointClams_def ensureEntry_def Let_def
        emptyAST_def entry_of_def AppendClaimsFact_def)
  from gate_fails_closed [OF this,
      where ctx = "\<lparr>rc_container = False, rc_metadata = None, rc_peer = None\<rparr>"
        and s = "\<lparr>rs_principal = None, rs_bag = None, rs_capture = None, rs_globals = \<lparr>g_gates = [], g_min = 0, g_env = ()\<rparr>\<rparr>"
        and name = "''/p.S/M''" and zt = True and handler = "\<lambda>ctx s. Some (Inr (), s)"
        and sHandler = "\<lambda>ctx s. Some (None, s)"]
  show ?thesis by (simp add: diPrincipal_def GetRequestContainer_def)
qed

text \<open>the streaming gate takes the same decision as the unary one and runs the handler in the
  same cases: on a stream handler seen as a unary handler with no response, they agree.\<close>

theorem stream_gate_as_unary:
  "streamGate m zt ctx name h s =
    map_option (\<lambda>(r, s'). (case r of Inl e \<Rightarrow> Some e | Inr _ \<Rightarrow> None, s'))
      (unaryGate m zt ctx name
        (\<lambda>c t. map_option (\<lambda>(r, t'). (case r of None \<Rightarrow> Inr () | Some e \<Rightarrow> Inl e, t')) (h c t)) s)"
proof -
  have "map_option (\<lambda>(r, s'). (case r of Inl e \<Rightarrow> Some e | Inr _ \<Rightarrow> None, s'))
      (map_option (\<lambda>(r, t'). (case r of None \<Rightarrow> Inr () | Some e \<Rightarrow> Inl e, t')) x) = x"
    for x :: "(goError option \<times> 'a reqState) option"
    by (cases x) (auto split: option.splits)
  then show ?thesis
    by (cases "authorize ctx s name m zt"; cases "the (authorize ctx s name m zt)")
      (simp_all add: streamGate_def unaryGate_def)
qed

text \<open>C38: the OIDC \<open>ClaimsConfig\<close> check is the \<open>ClaimsAST\<close> check of a tree: the AND facts of every
  level of the child chain at the root and one OR group per level that has OR facts. (For facts
  with one of the two defined directives; \<open>validateAND\<close> ignores any other.)\<close>

theorem claimsConfig_as_AST:
  assumes "knownConfig cfg"
  shows "Validate p (configAST cfg) = Some (validateConfig cfg p)"
proof -
  let ?P = "\<lambda>f. fact_HasClaim f p"
  let ?or = "\<lambda>v. \<exists>f \<in> set (ClaimFacts v). ?P f"
  let ?ls = "filter (\<lambda>l. cc_OR l \<noteq> []) (levels cfg)"
  have "allO (\<lambda>v. ValidateWithOperand p v opOr) (map (\<lambda>l. AST (cc_OR l) [] [] []) ?ls) =
      Some (\<forall>v \<in> set (map (\<lambda>l. AST (cc_OR l) [] [] []) ?ls). ?or v)"
    by (rule allO_Some) (auto simp: anyO_Some [where P = ?P])
  then show ?thesis using validateConfig_levels [OF assms, of p]
    by (auto simp: Validate_def configAST_def allO_Some [where P = ?P])
qed

theorem claimsConfig_as_AST_witness:
  "validateConfig (ClaimsConfig [perm ''r'', perm ''w''] [NewClaimFactType ''org''] None)
     (AddClaim NewIClaimsPrincipal [mk_claim ''org'' ''x'', mk_claim ''permissions'' ''w'']) \<and>
   \<not> validateConfig (ClaimsConfig [perm ''r'', perm ''w''] [NewClaimFactType ''org''] None)
     (AddClaim NewIClaimsPrincipal [mk_claim ''org'' ''x''])"
proof -
  let ?c = "ClaimsConfig [perm ''r'', perm ''w''] [NewClaimFactType ''org''] None"
  have "knownConfig ?c"
    by (simp add: knownConfig_def known_def perm_def NewClaimFact_def NewClaimFactType_def)
  from claimsConfig_as_AST [OF this, of "AddClaim NewIClaimsPrincipal [mk_claim ''org'' ''x'']"]
    claimsConfig_as_AST [OF this,
      of "AddClaim NewIClaimsPrincipal [mk_claim ''org'' ''x'', mk_claim ''permissions'' ''w'']"]
  show ?thesis
    by (simp add: Validate_meaning new_add configAST_def under_def del: validateConfig.simps)
qed

end
