(* ===== verification/MTLS.thy ===== *)
theory MTLS
  imports Request
begin

text \<open>
  The mutual TLS interceptor (\<open>middleware/auth/mtls/mtls.go\<close>): the verified client certificate of
  the connection becomes \<open>mtls_\<close> claims of the request's principal. \<open>fingerprint\<close> is the hex
  encoded SHA-256 of the certificate's bytes.
\<close>

definition verifiedClientCert :: "reqContext \<Rightarrow> certificate option" where
  "verifiedClientCert ctx =
    (case rc_peer ctx of
       None \<Rightarrow> None
     | Some OtherAuthInfo \<Rightarrow> None
     | Some (TLSInfo verifiedChains peerCertificates) \<Rightarrow>
         (case verifiedChains of
            [] \<Rightarrow> None
          | [] # _ \<Rightarrow> None
          | (leaf # _) # _ \<Rightarrow> Some leaf))"

definition ClaimTypeMTLSVerified :: string where "ClaimTypeMTLSVerified = ''mtls_verified''"
definition ClaimTypeMTLSCommonName :: string where "ClaimTypeMTLSCommonName = ''mtls_cn''"
definition ClaimTypeMTLSFingerprint :: string where "ClaimTypeMTLSFingerprint = ''mtls_fingerprint''"
definition ClaimTypeMTLSSANURI :: string where "ClaimTypeMTLSSANURI = ''mtls_san_uri''"

text \<open>\<open>None\<close> is the panic of \<open>di.Get\<close> when the container has no principal.\<close>

definition addPeerCertClaims :: "(string \<Rightarrow> string) \<Rightarrow> reqContext \<Rightarrow> 'e reqState \<Rightarrow> 'e reqState option" where
  "addPeerCertClaims fingerprint ctx s =
    (case verifiedClientCert ctx of
       None \<Rightarrow> Some s
     | Some cert \<Rightarrow>
         if \<not> GetRequestContainer ctx then Some s
         else if rs_principal s = None then None
         else
           let s1 = addClaims s [mk_claim ClaimTypeMTLSVerified ''true''];
               s2 = (if ct_CommonName cert \<noteq> []
                     then addClaims s1 [mk_claim ClaimTypeMTLSCommonName (ct_CommonName cert)] else s1);
               s3 = addClaims s2 [mk_claim ClaimTypeMTLSFingerprint (fingerprint (ct_Raw cert))]
           in Some (fold (\<lambda>uri t. addClaims t [mk_claim ClaimTypeMTLSSANURI uri]) (ct_URIs cert) s3))"

definition mtlsUnary :: "(string \<Rightarrow> string) \<Rightarrow> ('e, 'r) unaryInterceptor" where
  "mtlsUnary fingerprint ctx fullMethod handler s =
    (case addPeerCertClaims fingerprint ctx s of None \<Rightarrow> None | Some s' \<Rightarrow> handler ctx s')"

definition mtlsStream :: "(string \<Rightarrow> string) \<Rightarrow> 'e streamInterceptor" where
  "mtlsStream fingerprint ss fullMethod handler s =
    (case addPeerCertClaims fingerprint ss s of None \<Rightarrow> None | Some s' \<Rightarrow> handler ss s')"

section \<open>What the interceptor adds\<close>

definition certClaims :: "(string \<Rightarrow> string) \<Rightarrow> certificate \<Rightarrow> claim list" where
  "certClaims fingerprint cert =
    mk_claim ClaimTypeMTLSVerified ''true'' #
    (if ct_CommonName cert \<noteq> [] then [mk_claim ClaimTypeMTLSCommonName (ct_CommonName cert)] else []) @
    mk_claim ClaimTypeMTLSFingerprint (fingerprint (ct_Raw cert)) #
    map (mk_claim ClaimTypeMTLSSANURI) (ct_URIs cert)"

lemmas mtls_types = ClaimTypeMTLSVerified_def ClaimTypeMTLSCommonName_def
  ClaimTypeMTLSFingerprint_def ClaimTypeMTLSSANURI_def

lemma certClaims_reserved: "c \<in> set (certClaims fp cert) \<Longrightarrow> reserved c \<and> c_type c \<noteq> []"
  by (auto simp: certClaims_def reserved_def MTLSClaimTypePrefix_def mtls_types split: if_splits)

lemma addClaims_append: "addClaims (addClaims s cs) ds = addClaims s (cs @ ds)"
  by (simp add: addClaims_def AddClaim_append option.map_comp comp_def)

lemma addClaims_each:
  "fold (\<lambda>x t. addClaims t [f x]) xs (addClaims s cs) = addClaims s (cs @ map f xs)"
  by (induction xs arbitrary: cs) (simp_all add: addClaims_append)

lemma addPeerCertClaims_eq:
  "addPeerCertClaims fp ctx s =
    (case verifiedClientCert ctx of
       None \<Rightarrow> Some s
     | Some cert \<Rightarrow>
         if \<not> rc_container ctx then Some s else if rs_principal s = None then None
         else Some (addClaims s (certClaims fp cert)))"
  by (cases "verifiedClientCert ctx")
    (simp_all add: addPeerCertClaims_def Let_def addClaims_append addClaims_each certClaims_def
      GetRequestContainer_def)

lemma verified_claim: "mk_claim ClaimTypeMTLSVerified ''true'' \<in> set (certClaims fp cert)"
  by (simp add: certClaims_def)

text \<open>\<open>mtlsState\<close> is the state the handler gets: the reserved claims are exactly the certificate's.\<close>

lemma mtls_reserved:
  assumes "wf_state s" "addPeerCertClaims fp ctx s = Some s'"
  shows "wf_state s'" "(rs_principal s' = None) = (rs_principal s = None)"
    "{c \<in> state_claims s'. \<not> reserved c} = {c \<in> state_claims s. \<not> reserved c}"
    "rc_container ctx \<Longrightarrow> rs_principal s \<noteq> None \<Longrightarrow> {c \<in> state_claims s'. reserved c} =
      {c \<in> state_claims s. reserved c} \<union>
      (case verifiedClientCert ctx of None \<Rightarrow> {} | Some cert \<Rightarrow> set (certClaims fp cert))"
  using assms certClaims_reserved [of _ fp]
  by (auto simp: addPeerCertClaims_eq claims_addClaims wf_addClaims scope_simps
      split: option.splits if_splits)

end
