(* ===== verification/JWT_Middleware.thy ===== *)
theory JWT_Middleware
  imports Request
begin

text \<open>
  The JWT interceptors (\<open>middleware/auth/jwt/middleware.go\<close>, \<open>jwt_token.go\<close> and the contract
  \<open>contracts/middleware/auth/jwt/jwt.go\<close>): reading the bearer token, the chain of validators, the
  issuer validator with its rate limited key set refresh, and the transfer of the token's claims
  to the request's principal, unary and streaming.

  The JOSE library, the JWKS cache and the clock are parameters (the records \<open>jwx\<close> and
  \<open>jwksLib\<close>). A validator is a function on the globals, so that validators of other packages fit.
\<close>

section \<open>Tokens\<close>

text \<open>The accessors of a parsed token; \<open>Issuer\<close> and \<open>Subject\<close> are empty when absent.\<close>

record 'f jwxToken =
  tk_Issuer :: string
  tk_Subject :: string
  tk_Audience :: "string list"
  tk_Expiration :: "int option"
  tk_IssuedAt :: "int option"
  tk_Claims :: "(string, 'f claimValue) gomap"

text \<open>A JWS message: the key id of each signature's protected header, and the payload.\<close>

record jwsMessage =
  jm_Kids :: "string list"
  jm_Payload :: string

record 'f ParsedToken =
  pt_Token :: "'f jwxToken"
  pt_JWSMessage :: jwsMessage
  pt_AccessToken :: string

record ('ks, 'f) jwx =
  jws_ParseString :: "string \<Rightarrow> jwsMessage option"
  jws_Verify :: "string \<Rightarrow> 'ks \<Rightarrow> bool"
  jwt_Parse :: "string \<Rightarrow> 'f jwxToken option"
  jwt_Validate :: "int \<Rightarrow> 'f jwxToken \<Rightarrow> bool"
  ks_LookupKeyID :: "'ks \<Rightarrow> string \<Rightarrow> bool"

record 'f jwtToken =
  jt_InnerToken :: "'f jwxToken"
  jt_ID :: string
  jt_Claims :: "(string, 'f claimValue) gomap"
  jt_Bearer :: string

definition registeredClaims :: "string list" where
  "registeredClaims = [''iss'', ''sub'', ''aud'', ''exp'', ''nbf'', ''iat'', ''jti'']"

definition privateClaims :: "'f jwxToken \<Rightarrow> (string, 'f claimValue) gomap" where
  "privateClaims token =
    fold (\<lambda>(name, value) out. if name \<in> set registeredClaims then out else mput name value out)
      (tk_Claims token) []"

definition newJWTToken :: "'f jwxToken \<Rightarrow> string \<Rightarrow> 'f jwtToken" where
  "newJWTToken innerToken bearer =
    \<lparr>jt_InnerToken = innerToken, jt_ID = tk_Subject innerToken, jt_Claims = privateClaims innerToken,
     jt_Bearer = bearer\<rparr>"

definition jtAddClaim :: "'f jwtToken \<Rightarrow> string \<Rightarrow> 'f claimValue \<Rightarrow> 'f jwtToken" where
  "jtAddClaim t key value = t\<lparr>jt_Claims := mput key value (jt_Claims t)\<rparr>"

definition jtGetClaim :: "'f jwtToken \<Rightarrow> string \<Rightarrow> 'f claimValue option" where
  "jtGetClaim t key = mget (jt_Claims t) key"

definition HasScope :: "string \<Rightarrow> string \<Rightarrow> bool" where
  "HasScope scope expectedScope = (expectedScope \<in> set (split_on (CHR '' '') scope))"

section \<open>Key sets\<close>

text \<open>
  The JWKS cache, the clock and the identity provider, acting on the outside world \<open>'e\<close>. An
  error is its text. \<open>jc_Ready\<close> waits for a running fetch; \<open>jc_Refresh\<close> fetches.
\<close>

record ('e, 'ks) jwksLib =
  jc_Now :: "'e \<Rightarrow> int"
  jc_Lookup :: "'e \<Rightarrow> string \<Rightarrow> string + 'ks"
  jc_LookupResource :: "'e \<Rightarrow> string \<Rightarrow> string option"
  jc_IsBusy :: "'e \<Rightarrow> string \<Rightarrow> bool"
  jc_Ready :: "'e \<Rightarrow> string \<Rightarrow> int \<Rightarrow> 'e \<times> bool"
  jc_Refresh :: "'e \<Rightarrow> string \<Rightarrow> 'e \<times> (string + 'ks)"
  jc_IsRegistered :: "'e \<Rightarrow> string \<Rightarrow> bool"
  jc_Register :: "'e \<Rightarrow> string \<Rightarrow> 'e \<times> string option"

text \<open>Durations in nanoseconds.\<close>

definition second :: int where "second = 1000000000"

definition DefaultMinJWKSRefreshInterval :: int where
  "DefaultMinJWKSRefreshInterval = 30 * second"

definition SetMinJWKSRefreshInterval :: "'e globals \<Rightarrow> int \<Rightarrow> 'e globals" where
  "SetMinJWKSRefreshInterval g d =
    g\<lparr>g_min := (if d \<le> 0 then DefaultMinJWKSRefreshInterval else d)\<rparr>"

text \<open>The gate of a URL: the time of its last forced refresh, \<open>None\<close> for the zero time.\<close>

definition loadOrStoreGate :: "'e globals \<Rightarrow> string \<Rightarrow> 'e globals" where
  "loadOrStoreGate g jwksURL =
    (if mhas (g_gates g) jwksURL then g else g\<lparr>g_gates := mput jwksURL None (g_gates g)\<rparr>)"

definition gateLast :: "'e globals \<Rightarrow> string \<Rightarrow> int option" where
  "gateLast g jwksURL = (case mget (g_gates g) jwksURL of None \<Rightarrow> None | Some l \<Rightarrow> l)"

definition recentlyTried :: "('e, 'ks) jwksLib \<Rightarrow> 'e globals \<Rightarrow> string \<Rightarrow> bool" where
  "recentlyTried lib g jwksURL =
    (case gateLast g jwksURL of
       None \<Rightarrow> False
     | Some l \<Rightarrow> jc_Now lib (g_env g) - l < g_min g)"

definition refreshJWKS ::
    "('e, 'ks) jwksLib \<Rightarrow> 'e globals \<Rightarrow> string \<Rightarrow> (string + 'ks) \<times> 'e globals" where
  "refreshJWKS lib g jwksURL =
    (case jc_Refresh lib (g_env g) jwksURL of (e, r) \<Rightarrow> (r, g\<lparr>g_env := e\<rparr>))"

definition stampGate :: "('e, 'ks) jwksLib \<Rightarrow> 'e globals \<Rightarrow> string \<Rightarrow> 'e globals" where
  "stampGate lib g jwksURL =
    g\<lparr>g_gates := mput jwksURL (Some (jc_Now lib (g_env g))) (g_gates g)\<rparr>"

definition notAvailable :: "string \<Rightarrow> string" where
  "notAvailable jwksURL =
    ''the keys at '' @ jwksURL @ '' are not available (the last attempt to fetch them failed)''"

text \<open>The part of \<open>loadKeySet\<close> that runs under the gate's lock at its end.\<close>

definition loadSection ::
    "('e, 'ks) jwksLib \<Rightarrow> 'e globals \<Rightarrow> string \<Rightarrow> (string + 'ks) \<times> 'e globals" where
  "loadSection lib g jwksURL =
    (case jc_Lookup lib (g_env g) jwksURL of
       Inr ks \<Rightarrow> (Inr ks, g)
     | Inl _ \<Rightarrow>
         if recentlyTried lib g jwksURL then (Inl (notAvailable jwksURL), g)
         else refreshJWKS lib (stampGate lib g jwksURL) jwksURL)"

definition firstLoadWait :: int where "firstLoadWait = 2 * second"

text \<open>
  \<open>others\<close> is what other requests do while this one waits for the gate's lock.
\<close>

definition loadKeySet ::
    "('e, 'ks) jwksLib \<Rightarrow> ('e globals \<Rightarrow> 'e globals) \<Rightarrow> 'e globals \<Rightarrow> string \<Rightarrow>
     (string + 'ks) \<times> 'e globals" where
  "loadKeySet lib others g jwksURL =
    (case jc_LookupResource lib (g_env g) jwksURL of
       Some err \<Rightarrow> (Inl err, g)
     | None \<Rightarrow>
         let g1 = others g in
         if recentlyTried lib g1 jwksURL then
           (case jc_Lookup lib (g_env g1) jwksURL of
              Inr ks \<Rightarrow> (Inr ks, g1)
            | Inl _ \<Rightarrow> (Inl (notAvailable jwksURL), g1))
         else if jc_IsBusy lib (g_env g1) jwksURL then
           (case jc_Ready lib (g_env g1) jwksURL firstLoadWait of
              (e, ready) \<Rightarrow>
                let g2 = g1\<lparr>g_env := e\<rparr> in
                if ready then (jc_Lookup lib e jwksURL, g2)
                else loadSection lib (others g2) jwksURL)
         else loadSection lib (others g1) jwksURL)"

text \<open>The part of \<open>keySetForKid\<close> under the gate's lock. \<open>Inr None\<close>: the kid is still unknown.\<close>

definition refreshSection ::
    "('ks, 'f) jwx \<Rightarrow> ('e, 'ks) jwksLib \<Rightarrow> 'e globals \<Rightarrow> string \<Rightarrow> string \<Rightarrow>
     (string + 'ks option) \<times> 'e globals" where
  "refreshSection jx lib g jwksURL kid =
    (let found = (case jc_Lookup lib (g_env g) jwksURL of
                    Inr ks \<Rightarrow> if ks_LookupKeyID jx ks kid then Some ks else None
                  | Inl _ \<Rightarrow> None)
     in case found of
          Some ks \<Rightarrow> (Inr (Some ks), g)
        | None \<Rightarrow>
            if recentlyTried lib g jwksURL then (Inr None, g)
            else (case refreshJWKS lib (stampGate lib g jwksURL) jwksURL of
                    (Inl err, g') \<Rightarrow> (Inl err, g')
                  | (Inr ks, g') \<Rightarrow>
                      (Inr (if ks_LookupKeyID jx ks kid then Some ks else None), g')))"

definition keySetForKid ::
    "('ks, 'f) jwx \<Rightarrow> ('e, 'ks) jwksLib \<Rightarrow> ('e globals \<Rightarrow> 'e globals) \<Rightarrow> 'e globals \<Rightarrow> string \<Rightarrow> string \<Rightarrow>
     (string + 'ks option) \<times> 'e globals" where
  "keySetForKid jx lib others g jwksURL kid =
    (let g0 = loadOrStoreGate g jwksURL in
     case (case jc_Lookup lib (g_env g0) jwksURL of
             Inr ks \<Rightarrow> (Inr ks, g0)
           | Inl _ \<Rightarrow> loadKeySet lib others g0 jwksURL) of
       (Inl err, g1) \<Rightarrow> (Inl err, g1)
     | (Inr ks, g1) \<Rightarrow>
         if ks_LookupKeyID jx ks kid then (Inr (Some ks), g1)
         else refreshSection jx lib (others g1) jwksURL kid)"

section \<open>Validators\<close>

record IssuerConfig =
  ic_OIDC :: "string option"
  ic_Issuer :: string
  ic_JWKSUrl :: string
  ic_Audiences :: "string list"

datatype jwtService = NilValidator | IssuerValidator IssuerConfig

text \<open>A validator reports whether it handled the token and with which error.\<close>

type_synonym ('e, 'f) validatorFun =
  "'e globals \<Rightarrow> 'f ParsedToken \<Rightarrow> ((bool \<times> goError option) \<times> 'e globals) option"

definition unauthenticated :: "string \<Rightarrow> goError" where
  "unauthenticated msg = Status Unauthenticated msg"

fun checkAudienceMatch :: "'f jwxToken \<Rightarrow> string \<Rightarrow> bool" where
  "checkAudienceMatch token expectedAudience =
    (if expectedAudience = ''*'' then True else expectedAudience \<in> set (tk_Audience token))"

text \<open>The audience loop: the first configured audience the token has, \<open>[]\<close> for none. (A configured
  empty audience that matches is the empty string as well, and is rejected like none.)\<close>

fun matchedAudience :: "'f jwxToken \<Rightarrow> string list \<Rightarrow> string" where
  "matchedAudience token [] = []"
| "matchedAudience token (aud # auds) =
    (if checkAudienceMatch token aud then aud else matchedAudience token auds)"

definition ValidateAccessToken ::
    "('ks, 'f) jwx \<Rightarrow> ('e, 'ks) jwksLib \<Rightarrow> ('e globals \<Rightarrow> 'e globals) \<Rightarrow> (string, IssuerConfig) gomap \<Rightarrow>
     jwtService \<Rightarrow> ('e, 'f) validatorFun" where
  "ValidateAccessToken jx lib others issuerConfigs svc g rawToken =
    (case svc of
       NilValidator \<Rightarrow> Some ((True, None), g)
     | IssuerValidator config \<Rightarrow>
         (case jm_Kids (pt_JWSMessage rawToken) of
            [] \<Rightarrow> None
          | kid # _ \<Rightarrow>
              let issuer = ToLower (tk_Issuer (pt_Token rawToken)) in
              if issuer \<noteq> ic_Issuer config then Some ((False, None), g)
              else
                (case mget issuerConfigs issuer of
                   None \<Rightarrow> None
                 | Some issuerConfig \<Rightarrow>
                     (case keySetForKid jx lib others g (ic_JWKSUrl issuerConfig) kid of
                        (Inl err, g') \<Rightarrow> Some ((True, Some (unauthenticated (''jwks fetch error: '' @ err))), g')
                      | (Inr None, g') \<Rightarrow> Some ((True, Some (unauthenticated ''no keys found'')), g')
                      | (Inr (Some ks), g') \<Rightarrow>
                          if \<not> jws_Verify jx (pt_AccessToken rawToken) ks then
                            Some ((True, Some (unauthenticated ''token signature not valid'')), g')
                          else if \<not> jwt_Validate jx (jc_Now lib (g_env g')) (pt_Token rawToken) then
                            Some ((True, Some (unauthenticated ''token signature not valid'')), g')
                          else if ic_Audiences config \<noteq> [] \<and>
                              matchedAudience (pt_Token rawToken) (ic_Audiences config) = [] then
                            Some ((True, Some (unauthenticated ''JWT audience do not match'')), g')
                          else Some ((True, None), g')))))"

section \<open>Registration\<close>

text \<open>What \<open>AddValidators\<close> changes: \<open>_issuerConfigs\<close>, the validators in the container, the cache.\<close>

record 'e jwtSetup =
  js_issuerConfigs :: "(string, IssuerConfig) gomap"
  js_validators :: "jwtService list"
  js_env :: 'e

fun AddValidators :: "('e, 'ks) jwksLib \<Rightarrow> 'e jwtSetup \<Rightarrow> IssuerConfig list \<Rightarrow> 'e jwtSetup option" where
  "AddValidators lib b [] = Some b"
| "AddValidators lib b (cfg # cfgs) =
    (let url = ic_JWKSUrl cfg;
         b1 = b\<lparr>js_issuerConfigs := mput (ic_Issuer cfg) cfg (js_issuerConfigs b)\<rparr>;
         registered =
           (if \<not> jc_IsRegistered lib (js_env b1) url then
              (case jc_Register lib (js_env b1) url of
                 (e, Some err) \<Rightarrow> None
               | (e, None) \<Rightarrow> Some (b1\<lparr>js_env := e\<rparr>))
            else Some b1)
     in case registered of
          None \<Rightarrow> None
        | Some b2 \<Rightarrow> AddValidators lib (b2\<lparr>js_validators := js_validators b2 @ [IssuerValidator cfg]\<rparr>) cfgs)"

definition AddNilValidator :: "'e jwtSetup \<Rightarrow> 'e jwtSetup" where
  "AddNilValidator b = b\<lparr>js_validators := [NilValidator]\<rparr>"

section \<open>Validating a request\<close>

definition MetadataKeyAuthorization :: string where
  "MetadataKeyAuthorization = ''authorization''"

definition AuthSchemeBearer :: string where "AuthSchemeBearer = ''bearer''"

definition getTokenFromAuthorizationHeader :: "mdLib \<Rightarrow> reqContext \<Rightarrow> goError + string option" where
  "getTokenFromAuthorizationHeader mdl ctx =
    (case rc_metadata ctx of
       None \<Rightarrow> Inl (unauthenticated ''no metadata found'')
     | Some md \<Rightarrow>
         (case md_Get mdl md MetadataKeyAuthorization of
            [] \<Rightarrow> Inr None
          | bear # _ \<Rightarrow>
              (case split_on (CHR '' '') bear of
                 [scheme, token] \<Rightarrow>
                   if ToLower scheme \<noteq> AuthSchemeBearer
                   then Inl (unauthenticated ''invalid authorization'') else Inr (Some token)
               | _ \<Rightarrow> Inl (unauthenticated ''invalid authorization''))))"

definition getRawToken :: "('ks, 'f) jwx \<Rightarrow> string \<Rightarrow> goError + 'f ParsedToken" where
  "getRawToken jx accessToken =
    (case jws_ParseString jx accessToken of
       None \<Rightarrow> Inl (unauthenticated ''Failed to parse JWT. Invalid headers'')
     | Some msg \<Rightarrow>
         if length (jm_Kids msg) = 0 then Inl (unauthenticated ''Failed to parse JWT. Invalid headers'')
         else
           (case jwt_Parse jx (jm_Payload msg) of
              None \<Rightarrow> Inl (unauthenticated ''Failed to parse JWT. Invalid format'')
            | Some tok \<Rightarrow> Inr \<lparr>pt_Token = tok, pt_JWSMessage = msg, pt_AccessToken = accessToken\<rparr>))"

fun tryValidators ::
    "('e, 'f) validatorFun list \<Rightarrow> 'e globals \<Rightarrow> 'f ParsedToken \<Rightarrow>
     ((goError + 'f ParsedToken) \<times> 'e globals) option" where
  "tryValidators [] g rt = Some (Inl (unauthenticated ''token validation error''), g)"
| "tryValidators (v # vs) g rt =
    (case v g rt of
       None \<Rightarrow> None
     | Some ((True, Some err), g') \<Rightarrow> Some (Inl err, g')
     | Some ((True, None), g') \<Rightarrow> Some (Inr rt, g')
     | Some ((False, _), g') \<Rightarrow> tryValidators vs g' rt)"

definition validateRequest ::
    "mdLib \<Rightarrow> ('ks, 'f) jwx \<Rightarrow> ('e, 'f) validatorFun list \<Rightarrow> reqContext \<Rightarrow> 'e globals \<Rightarrow>
     ((goError + 'f ParsedToken) \<times> 'e globals) option" where
  "validateRequest mdl jx validators ctx g =
    (case getTokenFromAuthorizationHeader mdl ctx of
       Inl _ \<Rightarrow> Some (Inl (unauthenticated ''token parse error''), g)
     | Inr None \<Rightarrow> Some (Inl (Status NotFound ''no token found''), g)
     | Inr (Some token) \<Rightarrow>
         (case getRawToken jx token of
            Inl err \<Rightarrow> Some (Inl err, g)
          | Inr rt \<Rightarrow>
              if length (hd (jm_Kids (pt_JWSMessage rt))) = 0
              then Some (Inl (unauthenticated ''no kid found in token''), g)
              else if length (tk_Issuer (pt_Token rt)) = 0
              then Some (Inl (unauthenticated ''no issuer found in token''), g)
              else tryValidators validators g rt))"

section \<open>The interceptors\<close>

text \<open>\<open>cfg\<close> is the registered \<open>RequestClaimsContextPropagateConfig\<close>, if any.\<close>

record propagateConfig =
  pc_ContextOrigin :: string
  pc_ClaimToContextMap :: "(string, string) gomap"

definition claimsToPropagate :: "propagateConfig option \<Rightarrow> propagateConfig" where
  "claimsToPropagate cfg =
    (let merged =
       (case cfg of
          None \<Rightarrow> \<lparr>pc_ContextOrigin = ''ctxOrigin'', pc_ClaimToContextMap = []\<rparr>
        | Some c \<Rightarrow>
            \<lparr>pc_ContextOrigin = pc_ContextOrigin c,
             pc_ClaimToContextMap = fold (\<lambda>(k, v) m. mput k v m) (pc_ClaimToContextMap c) []\<rparr>)
     in merged\<lparr>pc_ClaimToContextMap :=
          fold (\<lambda>t m. mput t t m) [''sub'', ''client_id'', ''email'', ''aud''] (pc_ClaimToContextMap merged)\<rparr>)"

definition anonymousClaim :: claim where
  "anonymousClaim = mk_claim ''sub'' ''anonymous''"

definition addTokenClaims :: "('f \<Rightarrow> string) \<Rightarrow> 'f ParsedToken \<Rightarrow> 'e reqState \<Rightarrow> 'e reqState" where
  "addTokenClaims fmtF rt s =
    (let jt = newJWTToken (pt_Token rt) (pt_AccessToken rt);
         scratch = ClaimsPrincipalFromClaimsMap fmtF (jt_Claims jt);
         s1 = addClaims s (WithoutReservedMTLSClaims (GetClaims scratch))
     in if jt_ID jt \<noteq> [] then addClaims s1 [mk_claim ''sub'' (jt_ID jt)] else s1)"

definition propagateClaim :: "claimsPrincipal \<Rightarrow> string \<times> string \<Rightarrow> 'e reqState \<Rightarrow> 'e reqState" where
  "propagateClaim p = (\<lambda>(claimType, ctxType) s.
    if HasClaimType p claimType then
      (case GetClaimsByType p claimType of
         [] \<Rightarrow> s
       | [c] \<Rightarrow> setBag s ctxType (BVString (c_value c))
       | cs \<Rightarrow> setBag s ctxType (BVStrings (map c_value cs)))
    else s)"

definition propagateClaims :: "propagateConfig \<Rightarrow> 'e reqState \<Rightarrow> 'e reqState" where
  "propagateClaims cfg s =
    (case rs_principal s of
       None \<Rightarrow> s
     | Some p \<Rightarrow> fold (propagateClaim p) (pc_ClaimToContextMap cfg) s)"

definition anonymousUnary :: "'e reqState \<Rightarrow> 'e reqState" where
  "anonymousUnary s = setBag (addClaims s [anonymousClaim]) ''sub'' (BVString ''anonymous'')"

definition jwtUnary ::
    "mdLib \<Rightarrow> ('ks, 'f) jwx \<Rightarrow> ('f \<Rightarrow> string) \<Rightarrow> ('e, 'f) validatorFun list \<Rightarrow> bool \<Rightarrow> propagateConfig option \<Rightarrow>
     ('e, 'r) unaryInterceptor" where
  "jwtUnary mdl jx fmtF validators anonymousOnFailure cfg ctx fullMethod handler s =
    (if diPrincipal ctx s = None \<or> diBag ctx s = None then None
     else
       (case validateRequest mdl jx validators ctx (rs_globals s) of
          None \<Rightarrow> None
        | Some (r, g) \<Rightarrow>
            let s1 = s\<lparr>rs_globals := g\<rparr> in
            (case r of
               Inl err \<Rightarrow>
                 if anonymousOnFailure then handler ctx (anonymousUnary s1)
                 else if errCode err = Some NotFound then handler ctx (anonymousUnary s1)
                 else Some (Inl err, s1)
             | Inr rt \<Rightarrow> handler ctx (propagateClaims (claimsToPropagate cfg) (addTokenClaims fmtF rt s1)))))"

definition jwtStream ::
    "mdLib \<Rightarrow> ('ks, 'f) jwx \<Rightarrow> ('f \<Rightarrow> string) \<Rightarrow> ('e, 'f) validatorFun list \<Rightarrow> bool \<Rightarrow> 'e streamInterceptor" where
  "jwtStream mdl jx fmtF validators anonymousOnFailure ss fullMethod handler s =
    (if \<not> GetRequestContainer ss then Some (Some (Status Internal ''authentication unavailable''), s)
     else if diPrincipal ss s = None then None
     else
       (case validateRequest mdl jx validators ss (rs_globals s) of
          None \<Rightarrow> None
        | Some (r, g) \<Rightarrow>
            let s1 = s\<lparr>rs_globals := g\<rparr> in
            (case r of
               Inl err \<Rightarrow>
                 if anonymousOnFailure \<or> errCode err = Some NotFound
                 then handler ss (addClaims s1 [anonymousClaim])
                 else Some (Some err, s1)
             | Inr rt \<Rightarrow> handler ss (addTokenClaims fmtF rt s1))))"

section \<open>Key sets: what a lookup promises\<close>

lemma loadSection_Inr:
  "loadSection lib g url = (Inr ks, g') \<Longrightarrow>
    jc_Lookup lib (g_env g) url = Inr ks \<or> (\<exists>e e'. jc_Refresh lib e url = (e', Inr ks))"
  by (auto simp: loadSection_def refreshJWKS_def split: sum.splits if_splits prod.splits)

lemma refreshSection_found:
  "refreshSection jx lib g url kid = (Inr (Some ks), g') \<Longrightarrow> ks_LookupKeyID jx ks kid"
  by (auto simp: refreshSection_def refreshJWKS_def Let_def split: sum.splits if_splits prod.splits option.splits)

lemma keySetForKid_found:
  "keySetForKid jx lib others g url kid = (Inr (Some ks), g') \<Longrightarrow> ks_LookupKeyID jx ks kid"
  using refreshSection_found
  by (fastforce simp: keySetForKid_def Let_def split: sum.splits if_splits prod.splits)

section \<open>Key sets: forced refreshes are spaced\<close>

text \<open>
  The cache instrumented with a record of its fetches: a fetch that starts at time \<open>t\<close> appends
  the URL and \<open>t\<close>. The definitions above do not depend on the world \<open>'e\<close>, so they run on it as
  they are.
\<close>

definition logged :: "('e, 'ks) jwksLib \<Rightarrow> ('e \<times> (string \<times> int) list, 'ks) jwksLib" where
  "logged lib =
    \<lparr>jc_Now = jc_Now lib \<circ> fst,
     jc_Lookup = jc_Lookup lib \<circ> fst,
     jc_LookupResource = jc_LookupResource lib \<circ> fst,
     jc_IsBusy = jc_IsBusy lib \<circ> fst,
     jc_Ready = (\<lambda>(e, l) url d. case jc_Ready lib e url d of (e', ok) \<Rightarrow> ((e', l), ok)),
     jc_Refresh = (\<lambda>(e, l) url. case jc_Refresh lib e url of
        (e', r) \<Rightarrow> ((e', l @ [(url, jc_Now lib e)]), r)),
     jc_IsRegistered = jc_IsRegistered lib \<circ> fst,
     jc_Register = (\<lambda>(e, l) url. case jc_Register lib e url of (e', r) \<Rightarrow> ((e', l), r))\<rparr>"

abbreviation fetches :: "('e \<times> (string \<times> int) list) globals \<Rightarrow> (string \<times> int) list" where
  "fetches g \<equiv> snd (g_env g)"

text \<open>
  One step of the process: a request runs one of the atomic parts of \<open>keySetForKid\<close> and
  \<open>loadKeySet\<close>, in any order and for any URL and key id, or the world moves on by itself (time
  passes, the cache refreshes in the background).
\<close>

inductive jwksStep ::
    "('ks, 'f) jwx \<Rightarrow> ('e, 'ks) jwksLib \<Rightarrow> ('e \<times> (string \<times> int) list) globals \<Rightarrow>
     ('e \<times> (string \<times> int) list) globals \<Rightarrow> bool"
  for jx lib where
  gate: "jwksStep jx lib g (loadOrStoreGate g url)"
| load: "jwksStep jx lib g (snd (loadSection (logged lib) g url))"
| refresh: "jwksStep jx lib g (snd (refreshSection jx (logged lib) g url kid))"
| world: "snd e = fetches g \<Longrightarrow> jwksStep jx lib g (g\<lparr>g_env := e\<rparr>)"

abbreviation jwksSteps where "jwksSteps jx lib \<equiv> (jwksStep jx lib)\<^sup>*\<^sup>*"

text \<open>Per URL, each fetch starts at least the minimum interval after the one before.\<close>

definition spaced :: "int \<Rightarrow> (string \<times> int) list \<Rightarrow> bool" where
  "spaced d = sorted_wrt (\<lambda>(u, t) (u', t'). u = u' \<longrightarrow> d \<le> t' - t)"

definition jwksInv :: "int \<Rightarrow> ('e \<times> (string \<times> int) list) globals \<Rightarrow> bool" where
  "jwksInv d g \<longleftrightarrow> g_min g = d \<and> spaced d (fetches g) \<and>
    (\<forall>(u, t) \<in> set (fetches g). \<exists>l. gateLast g u = Some l \<and> t \<le> l)"

lemma gateLast_simps:
  "gateLast (loadOrStoreGate g url) u = gateLast g u"
  "gateLast (stampGate lib g url) u = (if u = url then Some (jc_Now lib (g_env g)) else gateLast g u)"
  "gateLast (g\<lparr>g_env := e\<rparr>) u = gateLast g u"
  by (auto simp: gateLast_def loadOrStoreGate_def stampGate_def gomap)

lemma globals_kept:
  "g_min (loadOrStoreGate g url) = g_min g" "g_env (loadOrStoreGate g url) = g_env g"
  "g_min (stampGate lib g url) = g_min g" "g_env (stampGate lib g url) = g_env g"
  by (simp_all add: loadOrStoreGate_def stampGate_def)

text \<open>The fetch both locked parts end in, guarded by the recent attempt.\<close>

lemma fetch_keeps:
  assumes "jwksInv d g" "0 \<le> d" "\<not> recentlyTried (logged lib) g url"
  shows "jwksInv d (snd (refreshJWKS (logged lib) (stampGate (logged lib) g url) url))"
proof -
  obtain e l where env: "g_env g = (e, l)" by fastforce
  obtain e' r where r: "jc_Refresh lib e url = (e', r)" by fastforce
  let ?now = "jc_Now lib e"
  have now: "jc_Now (logged lib) (g_env g) = ?now" by (simp add: logged_def env)
  have old: "t + d \<le> ?now" if "(url, t) \<in> set l" for t
  proof -
    from that assms(1) obtain k where k: "gateLast g url = Some k" "t \<le> k"
      by (fastforce simp: jwksInv_def env)
    with assms(1,3) now show ?thesis by (auto simp: recentlyTried_def jwksInv_def)
  qed
  have "snd (refreshJWKS (logged lib) (stampGate (logged lib) g url) url) =
      (stampGate (logged lib) g url)\<lparr>g_env := (e', l @ [(url, ?now)])\<rparr>"
    by (simp add: refreshJWKS_def globals_kept env) (simp add: logged_def r)
  moreover have "spaced d (l @ [(url, ?now)])"
    using assms(1) old by (fastforce simp: jwksInv_def env spaced_def sorted_wrt_append)
  moreover have "\<exists>k. gateLast (stampGate (logged lib) g url) u = Some k \<and> t \<le> k"
    if "(u, t) \<in> set (l @ [(url, ?now)])" for u t
  proof (cases "u = url")
    case True
    then have "t \<le> ?now" using that assms(2) old [of t] by auto
    with True show ?thesis by (simp add: gateLast_simps now)
  next
    case False
    with that assms(1) show ?thesis by (auto simp: jwksInv_def env gateLast_simps)
  qed
  ultimately show ?thesis using assms(1)
    by (simp add: jwksInv_def globals_kept gateLast_simps(3) split_beta)
qed

lemma jwksStep_keeps:
  assumes "jwksStep jx lib g g'" "jwksInv d g" "0 \<le> d"
  shows "jwksInv d g'"
  using assms(1)
proof cases
  case (gate url)
  then show ?thesis using assms(2) by (simp add: jwksInv_def gateLast_simps globals_kept)
next
  case (load url)
  then show ?thesis using assms(2) fetch_keeps [OF assms(2,3), of lib url]
    by (cases "jc_Lookup (logged lib) (g_env g) url"; cases "recentlyTried (logged lib) g url")
       (simp_all add: loadSection_def)
next
  case (refresh url kid)
  have "snd (refreshSection jx (logged lib) g url kid) = g \<or>
      \<not> recentlyTried (logged lib) g url \<and> snd (refreshSection jx (logged lib) g url kid) =
        snd (refreshJWKS (logged lib) (stampGate (logged lib) g url) url)"
    by (auto simp: refreshSection_def Let_def split: sum.splits option.splits prod.splits)
  then show ?thesis using refresh assms(2) fetch_keeps [OF assms(2,3), of lib url] by auto
next
  case (world e)
  then show ?thesis using assms(2) by (simp add: jwksInv_def gateLast_simps)
qed

lemma jwksSteps_keep:
  "jwksSteps jx lib g g' \<Longrightarrow> jwksInv d g \<Longrightarrow> 0 \<le> d \<Longrightarrow> jwksInv d g'"
  by (induction rule: rtranclp_induct) (auto intro: jwksStep_keeps)

text \<open>Every call of \<open>keySetForKid\<close>, whatever the others do meanwhile, is a sequence of such steps.\<close>

lemma Ready_log: "jc_Ready (logged lib) e url d = (e', ok) \<Longrightarrow> snd e' = snd e"
  by (cases e) (auto simp: logged_def split: prod.splits)

lemma loadKeySet_steps:
  assumes others: "\<And>g. jwksSteps jx lib g (others g)"
  shows "jwksSteps jx lib g (snd (loadKeySet (logged lib) others g url))"
proof -
  have sec: "jwksSteps jx lib g (snd (loadSection (logged lib) (others h) url))"
    if "jwksSteps jx lib g h" for h
    using that others [of h] jwksStep.load [of jx lib "others h" url] by (meson rtranclp.simps rtranclp_trans)
  have ready: "jwksSteps jx lib g ((others g)\<lparr>g_env := e\<rparr>)" if "snd e = fetches (others g)" for e
    using others [of g] jwksStep.world [of e "others g" jx lib] that by (meson rtranclp.rtrancl_into_rtrancl)
  obtain e ok where e: "jc_Ready (logged lib) (g_env (others g)) url firstLoadWait = (e, ok)" by fastforce
  note run = others [of g] sec [OF others] ready [OF Ready_log [OF e]] sec [OF ready [OF Ready_log [OF e]]]
  show ?thesis
    by (cases "jc_LookupResource (logged lib) (g_env g) url";
        cases "recentlyTried (logged lib) (others g) url";
        cases "jc_Lookup (logged lib) (g_env (others g)) url";
        cases "jc_IsBusy (logged lib) (g_env (others g)) url"; cases ok)
      (simp_all add: loadKeySet_def Let_def e run)
qed

lemma keySetForKid_steps:
  assumes others: "\<And>g. jwksSteps jx lib g (others g)"
  shows "jwksSteps jx lib g (snd (keySetForKid jx (logged lib) others g url kid))"
proof -
  define g0 where "g0 = loadOrStoreGate g url"
  define r where "r = (case jc_Lookup (logged lib) (g_env g0) url of
      Inr ks \<Rightarrow> (Inr ks, g0) | Inl _ \<Rightarrow> loadKeySet (logged lib) others g0 url)"
  have g0: "jwksSteps jx lib g g0" unfolding g0_def by (rule r_into_rtranclp) (rule jwksStep.gate)
  have r: "jwksSteps jx lib g (snd r)"
    using rtranclp_trans [OF g0 loadKeySet_steps [OF others]] g0 by (auto simp: r_def split: sum.splits)
  have ref: "jwksSteps jx lib g (snd (refreshSection jx (logged lib) (others (snd r)) url kid))"
    using rtranclp_trans [OF r others] jwksStep.refresh by (meson rtranclp.rtrancl_into_rtrancl)
  have "snd (keySetForKid jx (logged lib) others g url kid) = snd r \<or>
      snd (keySetForKid jx (logged lib) others g url kid) =
        snd (refreshSection jx (logged lib) (others (snd r)) url kid)"
    unfolding keySetForKid_def Let_def g0_def [symmetric] r_def [symmetric]
    by (cases r; cases "fst r") auto
  then show ?thesis using r ref by auto
qed

section \<open>Accepted tokens\<close>

lemma matchedAudience_nonempty:
  "matchedAudience tok auds \<noteq> [] \<Longrightarrow> \<exists>aud \<in> set auds. aud = ''*'' \<or> aud \<in> set (tk_Audience tok)"
  by (induction auds) (auto split: if_splits)

text \<open>What it takes for the issuer validator of \<open>config\<close> to accept a token in the globals \<open>g\<close>.\<close>

definition accepts ::
    "('ks, 'f) jwx \<Rightarrow> ('e, 'ks) jwksLib \<Rightarrow> (string, IssuerConfig) gomap \<Rightarrow> IssuerConfig \<Rightarrow> 'e globals \<Rightarrow>
     'f ParsedToken \<Rightarrow> bool" where
  "accepts jx lib configs config g rt \<longleftrightarrow>
    ToLower (tk_Issuer (pt_Token rt)) = ic_Issuer config \<and>
    (\<exists>ic ks others g0. mget configs (ic_Issuer config) = Some ic \<and>
       keySetForKid jx lib others g0 (ic_JWKSUrl ic) (hd (jm_Kids (pt_JWSMessage rt))) = (Inr (Some ks), g) \<and>
       ks_LookupKeyID jx ks (hd (jm_Kids (pt_JWSMessage rt))) \<and>
       jws_Verify jx (pt_AccessToken rt) ks) \<and>
    jwt_Validate jx (jc_Now lib (g_env g)) (pt_Token rt) \<and>
    (ic_Audiences config = [] \<or>
      (\<exists>aud \<in> set (ic_Audiences config). aud = ''*'' \<or> aud \<in> set (tk_Audience (pt_Token rt))))"

lemma ValidateAccessToken_accepts:
  assumes "ValidateAccessToken jx lib others configs (IssuerValidator config) g rt = Some ((True, None), g')"
  shows "accepts jx lib configs config g' rt"
proof -
  obtain kid kids where kid: "jm_Kids (pt_JWSMessage rt) = kid # kids"
    using assms by (cases "jm_Kids (pt_JWSMessage rt)") (simp_all add: ValidateAccessToken_def)
  have iss: "ToLower (tk_Issuer (pt_Token rt)) = ic_Issuer config"
    using assms kid by (simp add: ValidateAccessToken_def Let_def split: if_splits)
  obtain ic where ic: "mget configs (ic_Issuer config) = Some ic"
    using assms kid iss by (cases "mget configs (ic_Issuer config)") (simp_all add: ValidateAccessToken_def Let_def)
  obtain r h where r: "keySetForKid jx lib others g (ic_JWKSUrl ic) kid = (r, h)" by fastforce
  obtain ks where ks: "r = Inr (Some ks)"
  proof (cases r)
    case (Inl e)
    then show ?thesis using assms kid iss ic r by (simp add: ValidateAccessToken_def Let_def)
  next
    case (Inr k)
    then show ?thesis using assms kid iss ic r that
      by (cases k) (simp_all add: ValidateAccessToken_def Let_def)
  qed
  note rest = assms [unfolded ValidateAccessToken_def Let_def, simplified, unfolded kid, simplified,
    unfolded iss, simplified, unfolded ic, simplified, unfolded r ks, simplified]
  show ?thesis
    using rest kid iss ic r ks keySetForKid_found [of jx lib others g "ic_JWKSUrl ic" kid ks h]
      matchedAudience_nonempty [of "pt_Token rt" "ic_Audiences config"]
    unfolding accepts_def by (auto split: if_splits)
qed

lemma tryValidators_Inr:
  "tryValidators vs g rt = Some (Inr rt', g') \<Longrightarrow>
    rt' = rt \<and> (\<exists>v \<in> set vs. \<exists>h. v h rt = Some ((True, None), g'))"
proof (induction vs arbitrary: g)
  case (Cons v vs)
  show ?case
  proof (cases "v g rt")
    case None
    with Cons.prems show ?thesis by simp
  next
    case (Some x)
    then obtain handled err h where x: "v g rt = Some ((handled, err), h)" by (cases x) auto
    show ?thesis
    proof (cases handled)
      case True
      with Cons.prems x show ?thesis by (cases err) auto
    next
      case False
      with Cons.prems x Cons.IH [of h] show ?thesis by (auto split: option.splits)
    qed
  qed
qed simp

lemma getRawToken_token:
  "getRawToken jx t = Inr rt \<Longrightarrow> \<exists>payload. jwt_Parse jx payload = Some (pt_Token rt)"
  by (cases rt) (auto simp: getRawToken_def split: option.splits if_splits)

lemma validateRequest_Inr:
  assumes "validateRequest mdl jx validators ctx g = Some (Inr rt, g')"
  shows "getTokenFromAuthorizationHeader mdl ctx = Inr (Some (pt_AccessToken rt))"
    "getRawToken jx (pt_AccessToken rt) = Inr rt"
    "hd (jm_Kids (pt_JWSMessage rt)) \<noteq> []" "tk_Issuer (pt_Token rt) \<noteq> []"
    "\<exists>v \<in> set validators. \<exists>h. v h rt = Some ((True, None), g')"
proof -
  obtain token where t: "getTokenFromAuthorizationHeader mdl ctx = Inr (Some token)"
    using assms by (simp add: validateRequest_def split: sum.splits option.splits)
  obtain rt0 where r: "getRawToken jx token = Inr rt0"
    using assms t by (simp add: validateRequest_def split: sum.splits)
  have at: "pt_AccessToken rt0 = token"
    using r by (auto simp: getRawToken_def split: option.splits if_splits)
  have k: "hd (jm_Kids (pt_JWSMessage rt0)) \<noteq> []" "tk_Issuer (pt_Token rt0) \<noteq> []"
    "tryValidators validators g rt0 = Some (Inr rt, g')"
    using assms t r by (auto simp: validateRequest_def split: if_splits)
  have rt: "rt = rt0" and ok: "\<exists>v \<in> set validators. \<exists>h. v h rt0 = Some ((True, None), g')"
    using tryValidators_Inr [OF k(3)] by auto
  show "getTokenFromAuthorizationHeader mdl ctx = Inr (Some (pt_AccessToken rt))"
    "getRawToken jx (pt_AccessToken rt) = Inr rt" "hd (jm_Kids (pt_JWSMessage rt)) \<noteq> []"
    "tk_Issuer (pt_Token rt) \<noteq> []" "\<exists>v \<in> set validators. \<exists>h. v h rt = Some ((True, None), g')"
    unfolding rt using t r at k(1,2) ok by simp_all
qed

section \<open>The claims of a token\<close>

lemma update_append_new: "k \<notin> fst ` set m \<Longrightarrow> mput k v m = m @ [(k, v)]"
  by (induction m) auto

lemma fold_put_unless:
  "wf_map m \<Longrightarrow> fst ` set m \<inter> fst ` set out = {} \<Longrightarrow> wf_map out \<Longrightarrow>
    set (fold (\<lambda>(k, v) out. if k \<in> R then out else mput k v out) m out) =
      set out \<union> {(k, v) \<in> set m. k \<notin> R}"
proof (induction m arbitrary: out)
  case (Cons e m)
  obtain k v where e: "e = (k, v)" by fastforce
  have new: "k \<notin> R \<Longrightarrow> set (mput k v out) = insert (k, v) (set out)"
    using Cons.prems by (auto simp: e update_append_new)
  show ?case
    using Cons by (cases "k \<in> R") (auto simp: e new wf_mput image_iff)
qed simp

definition tokenClaims :: "('f \<Rightarrow> string) \<Rightarrow> 'f ParsedToken \<Rightarrow> claim set" where
  "tokenClaims fmtF rt =
    {c. c_type c \<noteq> [] \<and> \<not> reserved c \<and>
      (\<exists>(k, v) \<in> set (tk_Claims (pt_Token rt)). k \<notin> set registeredClaims \<and> c \<in> set (claimsOfValue fmtF k v))} \<union>
    {c. tk_Subject (pt_Token rt) \<noteq> [] \<and> c = mk_claim ''sub'' (tk_Subject (pt_Token rt))}"

lemma set_privateClaims:
  "wf_map (tk_Claims tok) \<Longrightarrow> set (privateClaims tok) = {(k, v) \<in> set (tk_Claims tok). k \<notin> set registeredClaims}"
  unfolding privateClaims_def by (subst fold_put_unless) simp_all

lemma addTokenClaims_claims:
  assumes "wf_state s" "rs_principal s \<noteq> None" "wf_map (tk_Claims (pt_Token rt))"
  shows "wf_state (addTokenClaims fmtF rt s)"
    "state_claims (addTokenClaims fmtF rt s) = state_claims s \<union> tokenClaims fmtF rt"
    "rs_globals (addTokenClaims fmtF rt s) = rs_globals s" "rs_bag (addTokenClaims fmtF rt s) = rs_bag s"
    "rs_capture (addTokenClaims fmtF rt s) = rs_capture s" "rs_principal (addTokenClaims fmtF rt s) \<noteq> None"
proof -
  define P where "P = ClaimsPrincipalFromClaimsMap fmtF (privateClaims (pt_Token rt))"
  define s1 where "s1 = addClaims s (WithoutReservedMTLSClaims (GetClaims P))"
  have P: "wf_principal P" "claim_set P = {c. c_type c \<noteq> [] \<and>
      (\<exists>(k, v) \<in> set (privateClaims (pt_Token rt)). c \<in> set (claimsOfValue fmtF k v))}"
    using FromClaimsMap_refines [of fmtF "privateClaims (pt_Token rt)"] by (simp_all only: P_def)
  have s1: "wf_state s1" "rs_principal s1 \<noteq> None" "state_claims s1 = state_claims s \<union>
      {c. c_type c \<noteq> [] \<and> \<not> reserved c \<and>
        (\<exists>(k, v) \<in> set (tk_Claims (pt_Token rt)). k \<notin> set registeredClaims \<and> c \<in> set (claimsOfValue fmtF k v))}"
    using assms P
    by (auto simp: s1_def wf_addClaims claims_addClaims scope_simps set_WithoutReserved set_GetClaims
        set_privateClaims)
  have eq: "addTokenClaims fmtF rt s =
      (if tk_Subject (pt_Token rt) \<noteq> [] then addClaims s1 [mk_claim ''sub'' (tk_Subject (pt_Token rt))] else s1)"
    by (simp add: addTokenClaims_def Let_def newJWTToken_def s1_def P_def del: ClaimsPrincipalFromClaimsMap.simps)
  show "wf_state (addTokenClaims fmtF rt s)" using s1 by (simp add: eq wf_addClaims)
  show "rs_principal (addTokenClaims fmtF rt s) \<noteq> None" using s1 by (simp add: eq scope_simps)
  show "rs_globals (addTokenClaims fmtF rt s) = rs_globals s" "rs_bag (addTokenClaims fmtF rt s) = rs_bag s"
    "rs_capture (addTokenClaims fmtF rt s) = rs_capture s"
    by (simp_all add: eq s1_def scope_simps)
  show "state_claims (addTokenClaims fmtF rt s) = state_claims s \<union> tokenClaims fmtF rt"
  proof (cases "tk_Subject (pt_Token rt) = []")
    case True
    then show ?thesis by (simp add: eq s1(3) tokenClaims_def)
  next
    case False
    let ?c = "mk_claim ''sub'' (tk_Subject (pt_Token rt))"
    have "{c \<in> set [?c]. c_type c \<noteq> []} = {c. tk_Subject (pt_Token rt) \<noteq> [] \<and> c = ?c}"
      using False by (simp cong: conj_cong)
    with claims_addClaims [OF s1(1,2), of "[?c]"] False show ?thesis
      by (simp only: eq s1(3) tokenClaims_def Un_assoc if_True not_False_eq_True)
  qed
qed

lemma tokenClaims_not_reserved: "c \<in> tokenClaims fmtF rt \<Longrightarrow> \<not> reserved c"
  by (auto simp: tokenClaims_def reserved_def MTLSClaimTypePrefix_def)

lemma propagateClaims_keeps [scope_simps]:
  "state_claims (propagateClaims cfg s) = state_claims s" "wf_state (propagateClaims cfg s) = wf_state s"
  "rs_principal (propagateClaims cfg s) = rs_principal s" "rs_globals (propagateClaims cfg s) = rs_globals s"
  "rs_capture (propagateClaims cfg s) = rs_capture s"
proof -
  have one: "rs_principal (propagateClaim p kv t) = rs_principal t \<and>
      rs_globals (propagateClaim p kv t) = rs_globals t \<and> rs_capture (propagateClaim p kv t) = rs_capture t" for p kv and t :: "'a reqState"
    by (cases kv) (simp add: propagateClaim_def scope_simps split: list.splits)
  have fold: "rs_principal (fold (propagateClaim p) kvs t) = rs_principal t \<and>
      rs_globals (fold (propagateClaim p) kvs t) = rs_globals t \<and>
      rs_capture (fold (propagateClaim p) kvs t) = rs_capture t" for p kvs and t :: "'a reqState"
    by (induction kvs arbitrary: t) (simp_all add: one)
  show "rs_principal (propagateClaims cfg s) = rs_principal s" "rs_globals (propagateClaims cfg s) = rs_globals s"
    "rs_capture (propagateClaims cfg s) = rs_capture s"
    using fold by (simp_all add: propagateClaims_def split: option.splits)
  then show "state_claims (propagateClaims cfg s) = state_claims s" "wf_state (propagateClaims cfg s) = wf_state s"
    by (simp_all add: state_claims_def wf_state_def)
qed

lemma rs_globals_update [scope_simps]:
  "rs_principal (s\<lparr>rs_globals := g\<rparr>) = rs_principal s" "rs_bag (s\<lparr>rs_globals := g\<rparr>) = rs_bag s"
  "state_claims (s\<lparr>rs_globals := g\<rparr>) = state_claims s" "wf_state (s\<lparr>rs_globals := g\<rparr>) = wf_state s"
  by (simp_all add: state_claims_def wf_state_def)

lemma anonymous_claims:
  assumes "wf_state s" "rs_principal s \<noteq> None"
  shows "state_claims (addClaims s [anonymousClaim]) = insert anonymousClaim (state_claims s)"
proof -
  have "c_type anonymousClaim \<noteq> []" by (simp add: anonymousClaim_def)
  with claims_addClaims [OF assms, of "[anonymousClaim]"] show ?thesis by auto
qed

lemma anonymous_not_reserved: "\<not> reserved anonymousClaim"
  by (simp add: anonymousClaim_def reserved_def MTLSClaimTypePrefix_def)

text \<open>The state the handler gets, when it gets one, and the error otherwise.\<close>

definition jwtDecision ::
    "mdLib \<Rightarrow> ('ks, 'f) jwx \<Rightarrow> ('f \<Rightarrow> string) \<Rightarrow> ('e, 'f) validatorFun list \<Rightarrow> bool \<Rightarrow> reqContext \<Rightarrow>
     'e reqState \<Rightarrow> ((goError + claim set) \<times> 'e globals) option" where
  "jwtDecision mdl jx fmtF validators anon ctx s =
    map_option (\<lambda>(r, g).
      (case r of
         Inl err \<Rightarrow> if anon \<or> errCode err = Some NotFound then Inr {anonymousClaim} else Inl err
       | Inr rt \<Rightarrow> Inr (tokenClaims fmtF rt), g))
      (validateRequest mdl jx validators ctx (rs_globals s))"

text \<open>The interceptor without its handler: an error, or the state the handler is run in.\<close>

definition jwtNext ::
    "mdLib \<Rightarrow> ('ks, 'f) jwx \<Rightarrow> ('f \<Rightarrow> string) \<Rightarrow> ('e, 'f) validatorFun list \<Rightarrow> bool \<Rightarrow> propagateConfig option \<Rightarrow>
     reqContext \<Rightarrow> 'e reqState \<Rightarrow> (goError \<times> 'e reqState + 'e reqState) option" where
  "jwtNext mdl jx fmtF validators anon cfg ctx s =
    (if diPrincipal ctx s = None \<or> diBag ctx s = None then None
     else map_option (\<lambda>(r, g).
       let s1 = s\<lparr>rs_globals := g\<rparr> in
       case r of
         Inl err \<Rightarrow> if anon \<or> errCode err = Some NotFound then Inr (anonymousUnary s1) else Inl (err, s1)
       | Inr rt \<Rightarrow> Inr (propagateClaims (claimsToPropagate cfg) (addTokenClaims fmtF rt s1)))
       (validateRequest mdl jx validators ctx (rs_globals s)))"

definition runNext ::
    "(goError \<times> 'e reqState + 'e reqState) option \<Rightarrow> reqContext \<Rightarrow> ('e, 'r) handler \<Rightarrow>
     ((goError + 'r) \<times> 'e reqState) option" where
  "runNext n ctx h =
    (case n of None \<Rightarrow> None | Some (Inl (err, s)) \<Rightarrow> Some (Inl err, s) | Some (Inr s) \<Rightarrow> h ctx s)"

lemma runNext_simps [simp]:
  "runNext None ctx h = None" "runNext (Some (Inl (err, s))) ctx h = Some (Inl err, s)"
  "runNext (Some (Inr s)) ctx h = h ctx s"
  by (simp_all add: runNext_def)

lemma jwtUnary_next:
  "jwtUnary mdl jx fmtF validators anon cfg ctx name handler s =
    runNext (jwtNext mdl jx fmtF validators anon cfg ctx s) ctx handler"
  by (cases "validateRequest mdl jx validators ctx (rs_globals s)";
      cases "fst (the (validateRequest mdl jx validators ctx (rs_globals s)))")
    (auto simp: jwtUnary_def jwtNext_def Let_def split_beta)

lemma jwtNext_decision:
  assumes "wf_state s" "rc_container ctx" "rs_principal s \<noteq> None" "rs_bag s \<noteq> None"
    and "jwtDecision mdl jx fmtF validators anon ctx s = Some (d, g)"
    and "\<And>tok acc. jwt_Parse jx acc = Some tok \<Longrightarrow> wf_map (tk_Claims tok)"
  shows "case d of
     Inl err \<Rightarrow> jwtNext mdl jx fmtF validators anon cfg ctx s = Some (Inl (err, s\<lparr>rs_globals := g\<rparr>))
   | Inr cs \<Rightarrow> \<exists>s'. jwtNext mdl jx fmtF validators anon cfg ctx s = Some (Inr s') \<and>
       wf_state s' \<and> state_claims s' = state_claims s \<union> cs \<and> rs_globals s' = g \<and>
       rs_principal s' \<noteq> None \<and> rs_capture s' = rs_capture s"
proof -
  obtain r where v: "validateRequest mdl jx validators ctx (rs_globals s) = Some (r, g)"
    and d: "d = (case r of
         Inl err \<Rightarrow> if anon \<or> errCode err = Some NotFound then Inr {anonymousClaim} else Inl err
       | Inr rt \<Rightarrow> Inr (tokenClaims fmtF rt))"
    using assms(5) by (auto simp: jwtDecision_def)
  obtain p b where di: "diPrincipal ctx s = Some p" "diBag ctx s = Some b"
    using assms(2-4) by (auto simp: diPrincipal_def diBag_def GetRequestContainer_def)
  let ?s = "s\<lparr>rs_globals := g\<rparr>"
  have s: "wf_state ?s" "rs_principal ?s \<noteq> None" using assms(1,3) by (simp_all add: scope_simps)
  show ?thesis
  proof (cases r)
    case (Inl err)
    have "wf_state (anonymousUnary ?s)" "state_claims (anonymousUnary ?s) = state_claims s \<union> {anonymousClaim}"
      "rs_globals (anonymousUnary ?s) = g" "rs_principal (anonymousUnary ?s) \<noteq> None"
      "rs_capture (anonymousUnary ?s) = rs_capture s"
      using s by (simp_all add: anonymousUnary_def anonymous_claims wf_addClaims scope_simps)
    with Inl v d di show ?thesis by (auto simp: jwtNext_def Let_def)
  next
    case (Inr rt)
    then have rt: "getRawToken jx (pt_AccessToken rt) = Inr rt" using validateRequest_Inr(2) v by blast
    then have "wf_map (tk_Claims (pt_Token rt))" using assms(6) getRawToken_token by blast
    note tok = addTokenClaims_claims [OF s this, of fmtF]
    let ?t = "propagateClaims (claimsToPropagate cfg) (addTokenClaims fmtF rt ?s)"
    have "jwtNext mdl jx fmtF validators anon cfg ctx s = Some (Inr ?t)"
      using Inr v di by (simp add: jwtNext_def Let_def)
    with tok show ?thesis by (auto simp: d Inr scope_simps)
  qed
qed

lemma jwtDecision_None: "jwtDecision mdl jx fmtF vs anon ctx s = None \<Longrightarrow> jwtNext mdl jx fmtF vs anon cfg ctx s = None"
  by (simp add: jwtDecision_def jwtNext_def)

lemma jwtDecision_reserved:
  "jwtDecision mdl jx fmtF vs anon ctx s = Some (Inr cs, g) \<Longrightarrow> \<forall>c \<in> cs. \<not> reserved c"
  using tokenClaims_not_reserved [of _ fmtF]
  by (cases "validateRequest mdl jx vs ctx (rs_globals s)";
      cases "fst (the (validateRequest mdl jx vs ctx (rs_globals s)))")
    (auto simp: jwtDecision_def anonymous_not_reserved split: if_splits)

section \<open>A sample outside world\<close>

text \<open>One issuer, one key, a cache that is still empty; used by the examples that follow the
  properties.\<close>

definition sampleToken :: "unit jwxToken" where
  "sampleToken =
    \<lparr>tk_Issuer = ''I'', tk_Subject = ''u'', tk_Audience = [''a''], tk_Expiration = Some 100,
     tk_IssuedAt = None,
     tk_Claims = [(''iss'', CVString ''I''), (''role'', CVString ''r''), (''mtls_verified'', CVBool True)]\<rparr>"

definition sampleJwx :: "(string list, unit) jwx" where
  "sampleJwx =
    \<lparr>jws_ParseString = (\<lambda>t. Some \<lparr>jm_Kids = [''k''], jm_Payload = t\<rparr>),
     jws_Verify = (\<lambda>t ks. ''k'' \<in> set ks), jwt_Parse = (\<lambda>_. Some sampleToken),
     jwt_Validate = (\<lambda>now tok. case tk_Expiration tok of None \<Rightarrow> False | Some exp \<Rightarrow> now < exp),
     ks_LookupKeyID = (\<lambda>ks kid. kid \<in> set ks)\<rparr>"

definition sampleLib :: "(int, string list) jwksLib" where
  "sampleLib =
    \<lparr>jc_Now = id, jc_Lookup = (\<lambda>_ _. Inl ''not fetched''), jc_LookupResource = (\<lambda>_ _. None),
     jc_IsBusy = (\<lambda>_ _. False), jc_Ready = (\<lambda>e _ _. (e, True)), jc_Refresh = (\<lambda>e _. (e, Inr [''k''])),
     jc_IsRegistered = (\<lambda>_ _. False), jc_Register = (\<lambda>e _. (e, None))\<rparr>"

definition sampleConfig :: IssuerConfig where
  "sampleConfig = \<lparr>ic_OIDC = None, ic_Issuer = ''i'', ic_JWKSUrl = ''x'', ic_Audiences = [''a'']\<rparr>"

definition sampleCtx :: reqContext where
  "sampleCtx =
    \<lparr>rc_container = True, rc_metadata = Some [(''authorization'', [''Bearer t''])], rc_peer = None\<rparr>"

definition sampleGlobals :: "int globals" where
  "sampleGlobals = \<lparr>g_gates = [], g_min = 30, g_env = 5\<rparr>"

definition sampleState :: "int reqState" where
  "sampleState = \<lparr>rs_principal = Some NewIClaimsPrincipal, rs_bag = Some [], rs_capture = None, rs_globals = sampleGlobals\<rparr>"

definition sampleValidators :: "(int, unit) validatorFun list" where
  "sampleValidators =
    map (ValidateAccessToken sampleJwx sampleLib id [(''i'', sampleConfig)]) [IssuerValidator sampleConfig]"

definition sampleParsed :: "unit ParsedToken" where
  "sampleParsed =
    \<lparr>pt_Token = sampleToken, pt_JWSMessage = \<lparr>jm_Kids = [''k''], jm_Payload = ''t''\<rparr>, pt_AccessToken = ''t''\<rparr>"

definition sampleAfter :: "int globals" where
  "sampleAfter = \<lparr>g_gates = [(''x'', Some 5)], g_min = 30, g_env = 5\<rparr>"

lemma lower_I: "ToLower ''I'' = ''i''" "ToLower ''Bearer'' = ''bearer''"
  by code_simp+

lemma sample_header: "getTokenFromAuthorizationHeader sampleMd sampleCtx = Inr (Some ''t'')"
  by (simp add: getTokenFromAuthorizationHeader_def sampleCtx_def sampleMd_def MetadataKeyAuthorization_def
      AuthSchemeBearer_def lower_I)

lemma sample_raw: "getRawToken sampleJwx ''t'' = Inr sampleParsed"
  by (simp add: getRawToken_def sampleJwx_def sampleParsed_def)

lemma sample_keys: "keySetForKid sampleJwx sampleLib id sampleGlobals ''x'' ''k'' = (Inr (Some [''k'']), sampleAfter)"
  by (simp add: keySetForKid_def loadKeySet_def loadSection_def refreshJWKS_def recentlyTried_def gateLast_def
      loadOrStoreGate_def stampGate_def sampleJwx_def sampleLib_def sampleGlobals_def sampleAfter_def Let_def)

lemma sampleToken_simps:
  "tk_Issuer sampleToken = ''I''" "tk_Subject sampleToken = ''u''" "tk_Audience sampleToken = [''a'']"
  by (simp_all add: sampleToken_def)

lemma sample_checks:
  "jws_Verify sampleJwx ''t'' [''k'']" "jwt_Validate sampleJwx (jc_Now sampleLib (g_env sampleAfter)) sampleToken"
  by (simp_all add: sampleJwx_def sampleLib_def sampleAfter_def sampleToken_def)

lemma sample_valid:
  "validateRequest sampleMd sampleJwx sampleValidators sampleCtx sampleGlobals = Some (Inr sampleParsed, sampleAfter)"
  by (simp add: validateRequest_def sample_header sample_raw sampleValidators_def ValidateAccessToken_def Let_def)
    (simp add: sampleParsed_def sampleConfig_def sampleToken_simps lower_I sample_keys sample_checks)

lemma sample_tokenClaims:
  "tokenClaims (\<lambda>_. '''') sampleParsed = {mk_claim ''role'' ''r'', mk_claim ''sub'' ''u''}"
  by (rule set_eqI) (simp add: tokenClaims_def sampleParsed_def sampleToken_def registeredClaims_def
      NewStringClaim_def NewBoolClaim_def reserved_def MTLSClaimTypePrefix_def,
      rule iffI; (elim disjE conjE)?; simp)

section \<open>Properties\<close>

text \<open>C5: no request is treated as authenticated without a fully checked token. When \<open>_validate\<close>
  returns a token and every registered validator is an issuer validator, the token is the one of
  the request's bearer header, parsed as it stands; one of the validators has the token's lower
  cased issuer as its issuer; the token's signature verifies with a key set, fetched from the JWKS
  URL of that issuer, that contains the token's key id; its times (with a required expiry) are
  valid now; and the validator's audience list is empty or has \<open>*\<close> or an audience of the token.\<close>

theorem accepted_token_checked:
  assumes "validateRequest mdl jx (map (ValidateAccessToken jx lib others configs) svcs) ctx g = Some (Inr rt, g')"
    and "NilValidator \<notin> set svcs"
  shows "getTokenFromAuthorizationHeader mdl ctx = Inr (Some (pt_AccessToken rt)) \<and>
    getRawToken jx (pt_AccessToken rt) = Inr rt \<and>
    (\<exists>cfg. IssuerValidator cfg \<in> set svcs \<and> accepts jx lib configs cfg g' rt)"
proof -
  note v = validateRequest_Inr [OF assms(1)]
  then obtain svc h where svc: "svc \<in> set svcs"
    "ValidateAccessToken jx lib others configs svc h rt = Some ((True, None), g')" by auto
  with assms(2) obtain cfg where "svc = IssuerValidator cfg" by (cases svc) auto
  with svc v(1,2) ValidateAccessToken_accepts show ?thesis by blast
qed

theorem accepted_token_checked_witness:
  "accepts sampleJwx sampleLib [(''i'', sampleConfig)] sampleConfig sampleAfter sampleParsed"
  using accepted_token_checked [OF sample_valid [unfolded sampleValidators_def]] by simp

text \<open>C19: what the unary interceptor does, on every branch. With a request container that has a
  principal and a property bag: if validation gives a token, the handler runs once, and the principal it sees has exactly
  the claims it had plus the token's private claims without the reserved \<open>mtls_\<close> ones and the
  subject; with no authorization header, or on any failure when anonymous access is on, exactly one
  claim, the anonymous subject, is added; otherwise the error is returned and the handler does not run.\<close>

theorem jwt_unary_outcome:
  assumes "wf_state s" "rc_container ctx" "rs_principal s \<noteq> None" "rs_bag s \<noteq> None"
    and "jwtDecision mdl jx fmtF validators anon ctx s = Some (d, g)"
    and "\<And>tok acc. jwt_Parse jx acc = Some tok \<Longrightarrow> wf_map (tk_Claims tok)"
  shows "case d of
     Inl err \<Rightarrow> jwtUnary mdl jx fmtF validators anon cfg ctx name handler s = Some (Inl err, s\<lparr>rs_globals := g\<rparr>)
   | Inr cs \<Rightarrow> \<exists>s'. jwtUnary mdl jx fmtF validators anon cfg ctx name handler s = handler ctx s' \<and>
       wf_state s' \<and> state_claims s' = state_claims s \<union> cs \<and> rs_globals s' = g"
  using jwtNext_decision [OF assms(1-5), of cfg] assms(6) by (cases d) (auto simp: jwtUnary_next)

theorem jwt_unary_outcome_witness:
  "\<exists>s'. jwtUnary sampleMd sampleJwx (\<lambda>_. '''') sampleValidators False None sampleCtx ''/p.S/M''
      (\<lambda>ctx s. Some (Inr s, s)) sampleState = Some (Inr s', s') \<and>
    state_claims s' = {mk_claim ''role'' ''r'', mk_claim ''sub'' ''u''} \<and> rs_globals s' = sampleAfter"
proof -
  have "jwtDecision sampleMd sampleJwx (\<lambda>_. '''') sampleValidators False sampleCtx sampleState =
      Some (Inr (tokenClaims (\<lambda>_. '''') sampleParsed), sampleAfter)"
    using sample_valid by (simp add: jwtDecision_def sampleState_def)
  moreover have "\<And>tok acc. jwt_Parse sampleJwx acc = Some tok \<Longrightarrow> wf_map (tk_Claims tok)"
    by (simp add: sampleJwx_def) (auto simp: sampleToken_def)
  moreover have "wf_state sampleState" "rc_container sampleCtx" "rs_principal sampleState \<noteq> None"
    "rs_bag sampleState \<noteq> None" "state_claims sampleState = {}"
    by (simp_all add: sampleState_def sampleCtx_def wf_state_def state_claims_def wf_new claim_set_new)
  ultimately show ?thesis
    using jwt_unary_outcome [of sampleState sampleCtx sampleMd sampleJwx "\<lambda>_. ''''" sampleValidators False
        _ _ None "''/p.S/M''" "\<lambda>ctx s. Some (Inr s, s)"] sample_tokenClaims by fastforce
qed

text \<open>streams are authenticated like unary calls. On a request with a container that has a
  principal and a property bag, both interceptors panic, or both return the same error without
  running the handler, or both run it on the same state up to the property bag.\<close>

theorem jwt_stream_as_unary:
  assumes "rc_container ctx" "rs_principal s \<noteq> None" "rs_bag s \<noteq> None"
  shows "(\<forall>h sh. jwtUnary mdl jx fmtF validators anon cfg ctx name h s = None \<and>
        jwtStream mdl jx fmtF validators anon ctx name sh s = None) \<or>
    (\<exists>err s'. \<forall>h sh. jwtUnary mdl jx fmtF validators anon cfg ctx name h s = Some (Inl err, s') \<and>
        jwtStream mdl jx fmtF validators anon ctx name sh s = Some (Some err, s')) \<or>
    (\<exists>s1 s2. s1\<lparr>rs_bag := None\<rparr> = s2\<lparr>rs_bag := None\<rparr> \<and>
      (\<forall>h sh. jwtUnary mdl jx fmtF validators anon cfg ctx name h s = h ctx s1 \<and>
        jwtStream mdl jx fmtF validators anon ctx name sh s = sh ctx s2))"
proof -
  obtain p b where di: "diPrincipal ctx s = Some p" "diBag ctx s = Some b" "GetRequestContainer ctx"
    using assms by (auto simp: diPrincipal_def diBag_def GetRequestContainer_def)
  have eqI: "a\<lparr>rs_bag := None\<rparr> = b\<lparr>rs_bag := None\<rparr>"
    if "rs_principal a = rs_principal b" "rs_globals a = rs_globals b" "rs_capture a = rs_capture b" for a b :: "'a reqState"
    using that by simp
  show ?thesis
  proof (cases "validateRequest mdl jx validators ctx (rs_globals s)")
    case None
    then show ?thesis using di by (simp add: jwtUnary_def jwtStream_def)
  next
    case (Some x)
    obtain r g where x: "validateRequest mdl jx validators ctx (rs_globals s) = Some (r, g)"
      using Some by (cases x) auto
    let ?s = "s\<lparr>rs_globals := g\<rparr>"
    show ?thesis
    proof (cases r)
      case (Inl err)
      have "(anonymousUnary ?s)\<lparr>rs_bag := None\<rparr> = (addClaims ?s [anonymousClaim])\<lparr>rs_bag := None\<rparr>"
        by (rule eqI) (simp_all add: anonymousUnary_def scope_simps)
      with Inl x di show ?thesis by (simp add: jwtUnary_def jwtStream_def Let_def) blast
    next
      case (Inr rt)
      let ?t = "addTokenClaims fmtF rt ?s"
      have "(propagateClaims (claimsToPropagate cfg) ?t)\<lparr>rs_bag := None\<rparr> = ?t\<lparr>rs_bag := None\<rparr>"
        by (rule eqI) (simp_all add: scope_simps)
      with Inr x di show ?thesis by (simp add: jwtUnary_def jwtStream_def Let_def) blast
    qed
  qed
qed

theorem jwt_stream_as_unary_witness:
  "\<exists>s1 s2. s1\<lparr>rs_bag := None\<rparr> = s2\<lparr>rs_bag := None\<rparr> \<and>
    jwtUnary sampleMd sampleJwx (\<lambda>_. '''') sampleValidators False None sampleCtx ''/p.S/M''
      (\<lambda>ctx s. Some (Inr (), s)) sampleState = Some (Inr (), s1) \<and>
    jwtStream sampleMd sampleJwx (\<lambda>_. '''') sampleValidators False sampleCtx ''/p.S/M''
      (\<lambda>ctx s. Some (None, s)) sampleState = Some (None, s2)"
proof -
  have pre: "rc_container sampleCtx" "rs_principal sampleState \<noteq> None" "rs_bag sampleState \<noteq> None"
    by (simp_all add: sampleState_def sampleCtx_def)
  have run: "jwtStream sampleMd sampleJwx (\<lambda>_. '''') sampleValidators False sampleCtx ''/p.S/M'' h sampleState =
      h sampleCtx (addTokenClaims (\<lambda>_. '''') sampleParsed (sampleState\<lparr>rs_globals := sampleAfter\<rparr>))" for h
    using sample_valid pre
    by (simp add: jwtStream_def sampleState_def GetRequestContainer_def diPrincipal_def)
  from jwt_stream_as_unary [OF pre, of sampleMd sampleJwx "\<lambda>_. ''''" sampleValidators False None "''/p.S/M''"]
  consider
      "jwtStream sampleMd sampleJwx (\<lambda>_. '''') sampleValidators False sampleCtx ''/p.S/M''
        (\<lambda>ctx s. Some (None, s)) sampleState = None"
    | err s' where "jwtStream sampleMd sampleJwx (\<lambda>_. '''') sampleValidators False sampleCtx ''/p.S/M''
        (\<lambda>ctx s. Some (None, s)) sampleState = Some (Some err, s')"
    | s1 s2 where "s1\<lparr>rs_bag := None\<rparr> = s2\<lparr>rs_bag := None\<rparr>"
        "jwtUnary sampleMd sampleJwx (\<lambda>_. '''') sampleValidators False None sampleCtx ''/p.S/M''
          (\<lambda>ctx s. Some (Inr (), s)) sampleState = Some (Inr (), s1)"
        "jwtStream sampleMd sampleJwx (\<lambda>_. '''') sampleValidators False sampleCtx ''/p.S/M''
          (\<lambda>ctx s. Some (None, s)) sampleState = Some (None, s2)"
    by metis
  then show ?thesis
  proof cases
    case 1
    then show ?thesis by (simp add: run)
  next
    case (2 err s')
    then show ?thesis by (simp add: run)
  next
    case (3 s1 s2)
    then show ?thesis by blast
  qed
qed

text \<open>C14: the identity provider is not hammered. From the start of the process, whatever requests
  arrive with whatever key ids and however the locked parts of \<open>keySetForKid\<close> and \<open>loadKeySet\<close>
  interleave, the minimum interval is positive and two forced fetches of the same JWKS URL start at
  least that interval apart; and every call of \<open>keySetForKid\<close>, with others running while it waits
  for the lock, is such an interleaving.\<close>

theorem jwks_refreshes_spaced:
  assumes "jwksSteps jx lib (SetMinJWKSRefreshInterval \<lparr>g_gates = [], g_min = 0, g_env = (e, [])\<rparr> d) g"
    and "\<forall>h. jwksSteps jx lib h (others h)"
  shows "0 < g_min g \<and> spaced (g_min g) (fetches g) \<and>
    spaced (g_min g) (fetches (snd (keySetForKid jx (logged lib) others g url kid)))"
proof -
  define m where "m = (if d \<le> 0 then DefaultMinJWKSRefreshInterval else d)"
  have m: "0 < m" by (simp add: m_def DefaultMinJWKSRefreshInterval_def second_def)
  have "jwksInv m (SetMinJWKSRefreshInterval \<lparr>g_gates = [], g_min = 0, g_env = (e, [])\<rparr> d)"
    by (simp add: jwksInv_def SetMinJWKSRefreshInterval_def m_def spaced_def)
  from jwksSteps_keep [OF assms(1) this] m have g: "jwksInv m g" by simp
  have "jwksSteps jx lib g (snd (keySetForKid jx (logged lib) others g url kid))"
    using assms(2) by (intro keySetForKid_steps) blast
  from jwksSteps_keep [OF this g] m g show ?thesis by (simp add: jwksInv_def)
qed

theorem jwks_refreshes_spaced_witness:
  "\<exists>g. fetches g = [(''x'', 0), (''x'', 7)] \<and> spaced (g_min g) (fetches g) \<and> g_min g = 5 \<and>
    spaced (g_min g) (fetches (snd (keySetForKid sampleJwx (logged sampleLib) id g ''x'' ''z'')))"
proof -
  let ?g0 = "SetMinJWKSRefreshInterval \<lparr>g_gates = [], g_min = 0, g_env = (0, [])\<rparr> 5"
  let ?r = "\<lambda>g. snd (refreshSection sampleJwx (logged sampleLib) g ''x'' ''z'')"
  let ?g1 = "?r ?g0"
  let ?g2 = "?g1\<lparr>g_env := (7, fetches ?g1)\<rparr>"
  let ?g3 = "?r ?g2"
  have "jwksStep sampleJwx sampleLib ?g0 ?g1" "jwksStep sampleJwx sampleLib ?g2 ?g3" by (rule jwksStep.refresh)+
  moreover have "jwksStep sampleJwx sampleLib ?g1 ?g2" by (rule jwksStep.world) simp
  ultimately have "jwksSteps sampleJwx sampleLib ?g0 ?g3" by simp
  moreover have "fetches ?g3 = [(''x'', 0), (''x'', 7)]" "g_min ?g3 = 5"
    by (simp_all add: refreshSection_def refreshJWKS_def stampGate_def recentlyTried_def gateLast_def
        SetMinJWKSRefreshInterval_def logged_def sampleLib_def sampleJwx_def)
  ultimately show ?thesis
    using jwks_refreshes_spaced [of sampleJwx sampleLib 0 5 ?g3 id "''x''" "''z''"] by auto
qed



lemma lower_char_idem: "lower_char (lower_char c) = lower_char c"
  by (simp add: lower_char_def)

lemma ToLower_idem: "ToLower (ToLower s) = ToLower s"
  by (simp add: ToLower_def lower_char_idem)

text \<open>C40: an issuer configured with a capital letter never validates a token. The validator compares
  the lower cased issuer of the token with the configured issuer as it is written, so it reports
  every token as not its own, and a request with such a token is rejected when there is no other
  validator, whatever the token's signature.\<close>

theorem mixed_case_issuer_never_matches:
  assumes "ToLower (ic_Issuer cfg) \<noteq> ic_Issuer cfg"
  shows "\<not> (\<exists>rt g'. validateRequest mdl jx [ValidateAccessToken jx lib others configs (IssuerValidator cfg)]
      ctx g = Some (Inr rt, g'))"
proof
  assume "\<exists>rt g'. validateRequest mdl jx [ValidateAccessToken jx lib others configs (IssuerValidator cfg)]
      ctx g = Some (Inr rt, g')"
  then obtain rt g' h where "ValidateAccessToken jx lib others configs (IssuerValidator cfg) h rt = Some ((True, None), g')"
    using validateRequest_Inr(5) by fastforce
  then have "ToLower (tk_Issuer (pt_Token rt)) = ic_Issuer cfg"
    using ValidateAccessToken_accepts unfolding accepts_def by blast
  with assms ToLower_idem show False by metis
qed

theorem mixed_case_issuer_never_matches_witness:
  "\<not> (\<exists>rt g'. validateRequest sampleMd sampleJwx
      [ValidateAccessToken sampleJwx sampleLib id [(''I'', sampleConfig\<lparr>ic_Issuer := ''I''\<rparr>)]
        (IssuerValidator (sampleConfig\<lparr>ic_Issuer := ''I''\<rparr>))] sampleCtx sampleGlobals = Some (Inr rt, g'))"
  using mixed_case_issuer_never_matches [of "sampleConfig\<lparr>ic_Issuer := ''I''\<rparr>"] by (simp add: lower_I)

end
