(* ===== verification/Reference_Token.thy ===== *)
theory Reference_Token
  imports JWT_Middleware
begin

text \<open>
  The reference token middleware (\<open>middleware/auth/referencetoken/referencetoken.go\<close> and its
  contract): opaque bearer tokens are resolved to a JWT, which the JWT interceptor then validates,
  or to claims; resolutions are cached. Resolvers, the cache, the clock and the digest of the cache
  key are parameters.
\<close>

section \<open>Contract\<close>

datatype ResolvedKind = ResolvedKindUnhandled | ResolvedKindJWT | ResolvedKindClaimsPrincipal
  | ResolvedKindOther string

text \<open>How \<open>%v\<close> prints a kind; any other integer is kept as printed.\<close>

fun kindText :: "ResolvedKind \<Rightarrow> string" where
  "kindText ResolvedKindUnhandled = ''0''"
| "kindText ResolvedKindJWT = ''1''"
| "kindText ResolvedKindClaimsPrincipal = ''2''"
| "kindText (ResolvedKindOther n) = n"

record 'f Resolved =
  rv_Kind :: ResolvedKind
  rv_RawJWT :: string
  rv_Claims :: "(string, 'f claimValue) gomap"
  rv_TTL :: int

text \<open>\<open>Get\<close>: an error (\<open>None\<close>), a value of another type (\<open>Some None\<close>) or a list of claims.\<close>

record 'e ICache =
  ca_Get :: "'e \<Rightarrow> string \<Rightarrow> claim list option option"
  ca_SetWithTTL :: "'e \<Rightarrow> string \<Rightarrow> claim list \<Rightarrow> int \<Rightarrow> 'e"

type_synonym ('e, 'f) IResolver =
  "reqContext \<Rightarrow> 'e \<Rightarrow> string \<Rightarrow> (bool \<times> 'f Resolved option \<times> goError option) \<times> 'e"

section \<open>Configuration\<close>

record 'e refConfig =
  rf_Cache :: "'e ICache option"
  rf_DefaultTTL :: int
  rf_CacheKeyPrefix :: string
  rf_KnownPrefixes :: "string list"

definition WithCache :: "'e ICache option \<Rightarrow> 'e refConfig \<Rightarrow> 'e refConfig" where
  "WithCache cache c = c\<lparr>rf_Cache := cache\<rparr>"

definition WithDefaultTTL :: "int \<Rightarrow> 'e refConfig \<Rightarrow> 'e refConfig" where
  "WithDefaultTTL ttl c = c\<lparr>rf_DefaultTTL := ttl\<rparr>"

definition WithCacheKeyPrefix :: "string \<Rightarrow> 'e refConfig \<Rightarrow> 'e refConfig" where
  "WithCacheKeyPrefix pre c = c\<lparr>rf_CacheKeyPrefix := pre\<rparr>"

definition WithKnownPrefixes :: "string list \<Rightarrow> 'e refConfig \<Rightarrow> 'e refConfig" where
  "WithKnownPrefixes pres c = c\<lparr>rf_KnownPrefixes := pres\<rparr>"

record ('e, 'f) engine =
  en_config :: "'e refConfig"
  en_resolvers :: "('e, 'f) IResolver list"

definition newEngine ::
    "('e, 'f) IResolver list \<Rightarrow> ('e refConfig \<Rightarrow> 'e refConfig) list \<Rightarrow> ('e, 'f) engine" where
  "newEngine resolvers opts =
    \<lparr>en_config = fold (\<lambda>opt c. opt c) opts
       \<lparr>rf_Cache = None, rf_DefaultTTL = 5 * 60 * second, rf_CacheKeyPrefix = ''reftok:'', rf_KnownPrefixes = []\<rparr>,
     en_resolvers = resolvers\<rparr>"

section \<open>Reading and rewriting the authorization header\<close>

text \<open>\<open>strings.SplitN(s, " ", 2)\<close>.\<close>

definition splitN2 :: "string \<Rightarrow> string list" where
  "splitN2 s =
    (case dropWhile (\<lambda>c. c \<noteq> CHR '' '') s of
       [] \<Rightarrow> [s]
     | _ # rest \<Rightarrow> [takeWhile (\<lambda>c. c \<noteq> CHR '' '') s, rest])"

definition extractBearerToken :: "mdLib \<Rightarrow> reqContext \<Rightarrow> goError + string option" where
  "extractBearerToken mdl ctx =
    (case rc_metadata ctx of
       None \<Rightarrow> Inr None
     | Some md \<Rightarrow>
         (case md_Get mdl md MetadataKeyAuthorization of
            [] \<Rightarrow> Inr None
          | v # _ \<Rightarrow>
              (case splitN2 v of
                 [scheme, token] \<Rightarrow>
                   if ToLower scheme \<noteq> AuthSchemeBearer
                   then Inl (unauthenticated ''invalid authorization header'') else Inr (Some token)
               | _ \<Rightarrow> Inl (unauthenticated ''invalid authorization header''))))"

definition stripAuthorization :: "mdLib \<Rightarrow> reqContext \<Rightarrow> reqContext" where
  "stripAuthorization mdl ctx =
    ToIncoming (md_Del mdl (ExtractIncoming ctx) MetadataKeyAuthorization) ctx"

definition AuthSchemeBearerPrefix :: string where "AuthSchemeBearerPrefix = ''Bearer ''"

definition rewriteAuthorizationToJWT :: "mdLib \<Rightarrow> reqContext \<Rightarrow> string \<Rightarrow> reqContext" where
  "rewriteAuthorizationToJWT mdl ctx jwt =
    ToIncoming (md_Set mdl (ExtractIncoming ctx) MetadataKeyAuthorization (AuthSchemeBearerPrefix @ jwt)) ctx"

definition looksLikeJWT :: "string \<Rightarrow> bool" where
  "looksLikeJWT token = (count_list token (CHR ''.'') = 2)"

definition isReferenceToken :: "'e refConfig \<Rightarrow> string \<Rightarrow> bool" where
  "isReferenceToken c rawToken =
    (if length (rf_KnownPrefixes c) > 0
     then list_ex (\<lambda>pre. prefix pre rawToken) (rf_KnownPrefixes c)
     else \<not> looksLikeJWT rawToken)"

section \<open>Resolution\<close>

fun resolveViaResolvers ::
    "('e, 'f) IResolver list \<Rightarrow> reqContext \<Rightarrow> string \<Rightarrow> 'e \<Rightarrow> (goError + 'f Resolved option) \<times> 'e" where
  "resolveViaResolvers [] ctx rawToken e = (Inr None, e)"
| "resolveViaResolvers (resolver # rs) ctx rawToken e =
    (case resolver ctx e rawToken of
       ((handled, resolved, Some err), e') \<Rightarrow> (Inl err, e')
     | ((handled, resolved, None), e') \<Rightarrow>
         if handled then (Inr resolved, e') else resolveViaResolvers rs ctx rawToken e')"

text \<open>The zero time of Go, in nanoseconds from the Unix epoch, and the range of a duration.\<close>

definition zeroTime :: int where "zeroTime = -62135596800 * second"

definition clampDuration :: "int \<Rightarrow> int" where
  "clampDuration d = max (- (2 ^ 63)) (min (2 ^ 63 - 1) d)"

definition capTTLToJWTExpiry :: "(string \<Rightarrow> 'f jwxToken option) \<Rightarrow> int \<Rightarrow> int \<Rightarrow> string \<Rightarrow> int \<times> bool" where
  "capTTLToJWTExpiry parse now ttl rawJWT =
    (case parse rawJWT of
       None \<Rightarrow> (ttl, True)
     | Some tok \<Rightarrow>
         (case tk_Expiration tok of
            None \<Rightarrow> (ttl, True)
          | Some exp \<Rightarrow>
              if exp = zeroTime then (ttl, True)
              else
                let remaining = clampDuration (exp - now) in
                if remaining \<le> 0 then (0, False)
                else if remaining < ttl then (remaining, True)
                else (ttl, True)))"

definition cacheKey :: "(string \<Rightarrow> string) \<Rightarrow> 'e refConfig \<Rightarrow> string \<Rightarrow> string" where
  "cacheKey digest c rawToken = rf_CacheKeyPrefix c @ digest rawToken"

datatype resolveOutcome =
    outcomePassThrough
  | outcomeDelegateToJWT (out_ctx: reqContext) (out_cacheKey: string) (out_ttl: int)
      (out_claimsBefore: "claim list")
  | outcomeDirect reqContext
  | outcomeError goError

definition setEnv :: "'e reqState \<Rightarrow> 'e \<Rightarrow> 'e reqState" where
  "setEnv s e = s\<lparr>rs_globals := (rs_globals s)\<lparr>g_env := e\<rparr>\<rparr>"

abbreviation envOf :: "'e reqState \<Rightarrow> 'e" where "envOf s \<equiv> g_env (rs_globals s)"

definition cacheResolvedClaims :: "'e refConfig \<Rightarrow> string \<Rightarrow> claim list \<Rightarrow> int \<Rightarrow> 'e reqState \<Rightarrow> 'e reqState" where
  "cacheResolvedClaims c key claims ttl s =
    (case rf_Cache c of
       None \<Rightarrow> s
     | Some cache \<Rightarrow>
         if key = [] \<or> length claims = 0 then s
         else setEnv s (ca_SetWithTTL cache (envOf s) key claims ttl))"

text \<open>What a cache hit gives: the cached claims, when the cache has a list of claims.\<close>

definition cacheHit :: "'e refConfig \<Rightarrow> string \<Rightarrow> 'e \<Rightarrow> claim list option" where
  "cacheHit c key e =
    (case rf_Cache c of
       None \<Rightarrow> None
     | Some cache \<Rightarrow> (case ca_Get cache e key of Some (Some claims) \<Rightarrow> Some claims | _ \<Rightarrow> None))"

record ('e, 'f) refLib =
  rl_md :: mdLib
  rl_digest :: "string \<Rightarrow> string"
  rl_parse :: "string \<Rightarrow> 'f jwxToken option"
  rl_now :: "'e \<Rightarrow> int"
  rl_fmtF :: "'f \<Rightarrow> string"

definition noContainer :: goError where
  "noContainer = Status Internal
    ''referencetoken middleware: no request-scoped container found -- is dicontext.ScopedContextUnaryServerInterceptor/StreamServerInterceptor registered before this middleware?''"

definition unrecognizedToken :: goError where
  "unrecognizedToken = unauthenticated ''unrecognized reference token''"

definition unrecognizedKind :: "ResolvedKind \<Rightarrow> goError" where
  "unrecognizedKind k =
    Status Internal (''referencetoken middleware: resolver returned unrecognized ResolvedKind '' @ kindText k)"

text \<open>The part of \<open>resolve\<close> after the resolvers, on the principal \<open>p\<close>.\<close>

definition useResolved ::
    "('e, 'f) refLib \<Rightarrow> 'e refConfig \<Rightarrow> reqContext \<Rightarrow> string \<Rightarrow> claimsPrincipal \<Rightarrow> 'f Resolved \<Rightarrow> 'e reqState \<Rightarrow>
     resolveOutcome \<times> 'e reqState" where
  "useResolved lib c ctx key p resolved s =
    (let ttl = (if rv_TTL resolved \<le> 0 then rf_DefaultTTL c else rv_TTL resolved) in
     case rv_Kind resolved of
       ResolvedKindJWT \<Rightarrow>
         (case capTTLToJWTExpiry (rl_parse lib) (rl_now lib (envOf s)) ttl (rv_RawJWT resolved) of
            (jwtTTL, cacheable) \<Rightarrow>
              (outcomeDelegateToJWT (rewriteAuthorizationToJWT (rl_md lib) ctx (rv_RawJWT resolved))
                 (if cacheable then key else []) jwtTTL (GetClaims p), s))
     | ResolvedKindClaimsPrincipal \<Rightarrow>
         let scratch = ClaimsPrincipalFromClaimsMap (rl_fmtF lib) (rv_Claims resolved);
             claims = WithoutReservedMTLSClaims (GetClaims scratch);
             s1 = addClaims s claims;
             s2 = (case rf_Cache c of
                     None \<Rightarrow> s1
                   | Some cache \<Rightarrow>
                       if length claims > 0 then setEnv s1 (ca_SetWithTTL cache (envOf s1) key claims ttl) else s1)
         in (outcomeDirect (stripAuthorization (rl_md lib) ctx), s2)
     | k \<Rightarrow> (outcomeError (unrecognizedKind k), s))"

definition resolve ::
    "('e, 'f) refLib \<Rightarrow> ('e, 'f) engine \<Rightarrow> reqContext \<Rightarrow> 'e reqState \<Rightarrow> (resolveOutcome \<times> 'e reqState) option" where
  "resolve lib en ctx s =
    (let c = en_config en in
     case extractBearerToken (rl_md lib) ctx of
       Inl err \<Rightarrow> Some (outcomeError err, s)
     | Inr None \<Rightarrow> Some (outcomePassThrough, s)
     | Inr (Some rawToken) \<Rightarrow>
         if rawToken = [] then Some (outcomePassThrough, s)
         else if \<not> isReferenceToken c rawToken then Some (outcomePassThrough, s)
         else if \<not> GetRequestContainer ctx then Some (outcomeError noContainer, s)
         else
           (case rs_principal s of
              None \<Rightarrow> None
            | Some p \<Rightarrow>
                let key = cacheKey (rl_digest lib) c rawToken in
                (case cacheHit c key (envOf s) of
                   Some claims \<Rightarrow>
                     Some (outcomeDirect (stripAuthorization (rl_md lib) ctx),
                           addClaims s (WithoutReservedMTLSClaims claims))
                 | None \<Rightarrow>
                     (case resolveViaResolvers (en_resolvers en) ctx rawToken (envOf s) of
                        (Inl err, e) \<Rightarrow> Some (outcomeError err, setEnv s e)
                      | (Inr None, e) \<Rightarrow> Some (outcomeError unrecognizedToken, setEnv s e)
                      | (Inr (Some resolved), e) \<Rightarrow> Some (useResolved lib c ctx key p resolved (setEnv s e))))))"

section \<open>The interceptors\<close>

text \<open>\<open>capture.capture(principal)\<close> at the handoff, and what is cached of it.\<close>

definition capture :: "'e reqState \<Rightarrow> claim list option" where
  "capture t = Some (case rs_principal t of None \<Rightarrow> [] | Some p \<Rightarrow> GetClaims p)"

definition claimsToCache :: "claim list \<Rightarrow> claim list option \<Rightarrow> claim list" where
  "claimsToCache before captured =
    (case captured of
       None \<Rightarrow> []
     | Some claims \<Rightarrow> WithoutReservedMTLSClaims (ClaimsAddedSince before claims))"

text \<open>The handler cannot see or change the capture: it runs on the state as it is, and the capture
  taken before it is put back.\<close>

definition capturing :: "('e, 'r) handler \<Rightarrow> ('e, 'r) handler" where
  "capturing handler = (\<lambda>c t.
    map_option (\<lambda>(r, t'). (r, t'\<lparr>rs_capture := capture t\<rparr>)) (handler c t))"

definition refUnary ::
    "('e, 'f) refLib \<Rightarrow> ('e, 'f) engine \<Rightarrow> ('e, 'r) unaryInterceptor \<Rightarrow> ('e, 'r) unaryInterceptor" where
  "refUnary lib en next ctx fullMethod handler s =
    (case resolve lib en ctx s of
       None \<Rightarrow> None
     | Some (outcomeError err, s1) \<Rightarrow> Some (Inl err, s1)
     | Some (outcomePassThrough, s1) \<Rightarrow> next ctx fullMethod handler s1
     | Some (outcomeDirect ctx', s1) \<Rightarrow> handler ctx' s1
     | Some (outcomeDelegateToJWT ctx' key ttl before, s1) \<Rightarrow>
         map_option (\<lambda>(r, s2).
           (r, (cacheResolvedClaims (en_config en) key (claimsToCache before (rs_capture s2)) ttl s2)
                 \<lparr>rs_capture := rs_capture s\<rparr>))
           (next ctx' fullMethod (capturing handler) (s1\<lparr>rs_capture := None\<rparr>)))"

definition refStream ::
    "('e, 'f) refLib \<Rightarrow> ('e, 'f) engine \<Rightarrow> 'e streamInterceptor \<Rightarrow> 'e streamInterceptor" where
  "refStream lib en next ss fullMethod handler s =
    (case resolve lib en ss s of
       None \<Rightarrow> None
     | Some (outcomeError err, s1) \<Rightarrow> Some (Some err, s1)
     | Some (outcomePassThrough, s1) \<Rightarrow> next ss fullMethod handler s1
     | Some (outcomeDirect ctx', s1) \<Rightarrow> handler (SetContext ss ctx') s1
     | Some (outcomeDelegateToJWT ctx' key ttl before, s1) \<Rightarrow>
         next (SetContext ss ctx') fullMethod
           (\<lambda>stream t. handler stream
             (cacheResolvedClaims (en_config en) key (claimsToCache before (capture t)) ttl t)) s1)"

section \<open>Resolution, case by case\<close>

declare ClaimsPrincipalFromClaimsMap.simps [simp del]

definition refRequest :: "('e, 'f) refLib \<Rightarrow> ('e, 'f) engine \<Rightarrow> reqContext \<Rightarrow> string \<Rightarrow> bool" where
  "refRequest lib en ctx rawToken \<longleftrightarrow>
    extractBearerToken (rl_md lib) ctx = Inr (Some rawToken) \<and> rawToken \<noteq> [] \<and>
    isReferenceToken (en_config en) rawToken"

lemma setEnv_sel [scope_simps]:
  "rs_principal (setEnv s e) = rs_principal s" "rs_bag (setEnv s e) = rs_bag s"
  "rs_capture (setEnv s e) = rs_capture s" "envOf (setEnv s e) = e"
  "state_claims (setEnv s e) = state_claims s" "wf_state (setEnv s e) = wf_state s"
  by (simp_all add: setEnv_def state_claims_def wf_state_def)

lemma resolve_reference:
  assumes "refRequest lib en ctx rawToken" "rc_container ctx" "rs_principal s = Some p"
  shows "resolve lib en ctx s =
    (let c = en_config en; key = cacheKey (rl_digest lib) c rawToken in
     case cacheHit c key (envOf s) of
       Some claims \<Rightarrow>
         Some (outcomeDirect (stripAuthorization (rl_md lib) ctx), addClaims s (WithoutReservedMTLSClaims claims))
     | None \<Rightarrow>
         (case resolveViaResolvers (en_resolvers en) ctx rawToken (envOf s) of
            (Inl err, e) \<Rightarrow> Some (outcomeError err, setEnv s e)
          | (Inr None, e) \<Rightarrow> Some (outcomeError unrecognizedToken, setEnv s e)
          | (Inr (Some resolved), e) \<Rightarrow> Some (useResolved lib c ctx key p resolved (setEnv s e))))"
  using assms by (simp add: resolve_def refRequest_def GetRequestContainer_def Let_def)

lemma resolve_other:
  assumes "\<nexists>rawToken. refRequest lib en ctx rawToken"
  shows "resolve lib en ctx s = Some (outcomePassThrough, s) \<or> (\<exists>err. resolve lib en ctx s = Some (outcomeError err, s))"
  using assms by (auto simp: resolve_def refRequest_def Let_def split: sum.splits option.splits)

text \<open>The claims a resolution to claims contributes.\<close>

definition resolvedClaims :: "('f \<Rightarrow> string) \<Rightarrow> (string, 'f claimValue) gomap \<Rightarrow> claim set" where
  "resolvedClaims fmtF m = {c. c_type c \<noteq> [] \<and> \<not> reserved c \<and> (\<exists>(k, v) \<in> set m. c \<in> set (claimsOfValue fmtF k v))}"

lemma set_resolvedClaims:
  "set (WithoutReservedMTLSClaims (GetClaims (ClaimsPrincipalFromClaimsMap fmtF m))) = resolvedClaims fmtF m"
  using FromClaimsMap_refines [of fmtF m]
  by (auto simp: set_WithoutReserved set_GetClaims resolvedClaims_def simp del: ClaimsPrincipalFromClaimsMap.simps)

text \<open>\<open>same_reserved s t\<close>: the reserved claims of the principal are untouched from \<open>s\<close> to \<open>t\<close>.\<close>

definition same_reserved :: "'e reqState \<Rightarrow> 'e reqState \<Rightarrow> bool" where
  "same_reserved s t \<longleftrightarrow> {c \<in> state_claims t. reserved c} = {c \<in> state_claims s. reserved c} \<and>
    wf_state t \<and> (rs_principal s \<noteq> None \<longrightarrow> rs_principal t \<noteq> None) \<and> (rs_bag s \<noteq> None \<longrightarrow> rs_bag t \<noteq> None)"

lemma same_reserved_add:
  assumes "wf_state s" "\<forall>c \<in> set cs. \<not> reserved c"
  shows "same_reserved s (addClaims s cs)"
  using assms
proof (cases "rs_principal s")
  case None
  then have "addClaims s cs = s" by (simp add: addClaims_def)
  with assms(1) show ?thesis by (simp add: same_reserved_def)
next
  case (Some p)
  with assms show ?thesis by (auto simp: same_reserved_def claims_addClaims wf_addClaims scope_simps)
qed

lemma same_reserved_env: "same_reserved s (setEnv t e) \<longleftrightarrow> same_reserved s t"
  by (simp add: same_reserved_def scope_simps)

lemma same_reserved_trans:
  "same_reserved s t \<Longrightarrow> same_reserved t u \<Longrightarrow> same_reserved s u"
  by (auto simp: same_reserved_def)

lemma useResolved_reserved:
  assumes "wf_state s" "useResolved lib c ctx key p r s = (out, t)"
  shows "same_reserved s t"
proof -
  define cs where "cs = WithoutReservedMTLSClaims (GetClaims (ClaimsPrincipalFromClaimsMap (rl_fmtF lib) (rv_Claims r)))"
  have add: "same_reserved s (addClaims s cs)"
    using same_reserved_add [OF assms(1) no_reserved] by (simp only: cs_def)
  have refl: "same_reserved s s" using assms(1) by (simp add: same_reserved_def)
  show ?thesis
    using assms(2) add refl unfolding useResolved_def Let_def cs_def [symmetric]
    by (cases "rv_Kind r"; cases "rf_Cache c") (auto simp: same_reserved_env split: prod.splits if_splits)
qed

lemma resolve_reserved:
  assumes "wf_state s" "resolve lib en ctx s = Some (out, t)"
  shows "same_reserved s t"
proof (cases "\<exists>raw. refRequest lib en ctx raw \<and> rc_container ctx")
  case True
  then obtain raw where raw: "refRequest lib en ctx raw" "rc_container ctx" by blast
  with assms(2) obtain p where p: "rs_principal s = Some p"
    by (cases "rs_principal s") (auto simp: resolve_def refRequest_def GetRequestContainer_def)
  let ?key = "cacheKey (rl_digest lib) (en_config en) raw"
  obtain r e where r: "resolveViaResolvers (en_resolvers en) ctx raw (envOf s) = (r, e)" by fastforce
  note res = assms(2) [unfolded resolve_reference [OF raw p] Let_def r]
  have env: "same_reserved s (setEnv s e)" using assms(1) by (simp add: same_reserved_def scope_simps)
  show ?thesis
  proof (cases "cacheHit (en_config en) ?key (envOf s)")
    case (Some claims)
    with res same_reserved_add [OF assms(1) no_reserved] show ?thesis by auto
  next
    case None
    have "same_reserved (setEnv s e) t" if "r = Inr (Some x)" for x
      using res None that assms(1) by (intro useResolved_reserved) (auto simp: scope_simps)
    then show ?thesis using res None env same_reserved_trans
      by (cases r; cases "projr r") fastforce+
  qed
next
  case False
  then have "t = s" using assms(2)
    by (auto simp: resolve_def refRequest_def GetRequestContainer_def Let_def split: sum.splits option.splits if_splits)
  with assms(1) show ?thesis by (simp add: same_reserved_def)
qed

section \<open>What reaches the handler\<close>

lemma runNext_passes:
  assumes "\<And>ctx name h s. I ctx name h s = runNext (n ctx s) ctx h"
    and "\<And>ctx s t. P ctx s \<Longrightarrow> n ctx s = Some (Inr t) \<Longrightarrow> Q ctx s ctx t"
  shows "passes P I Q"
proof (rule passesI)
  fix ctx name s and h h' :: "('a, 'b) handler"
  assume "P ctx s" "\<And>c t. Q ctx s c t \<Longrightarrow> h c t = h' c t"
  then show "I ctx name h s = I ctx name h' s"
    using assms(2) [of ctx s] unfolding assms(1)
    by (cases "n ctx s"; cases "the (n ctx s)") auto
qed

lemma jwtUnary_context: "passes (\<lambda>_ _. True) (jwtUnary mdl jx fmtF vs anon cfg) (\<lambda>ctx s c t. c = ctx)"
  by (rule runNext_passes [OF jwtUnary_next]) simp

definition distinctTokens :: "('ks, 'f) jwx \<Rightarrow> bool" where
  "distinctTokens jx \<longleftrightarrow> (\<forall>acc tok. jwt_Parse jx acc = Some tok \<longrightarrow> wf_map (tk_Claims tok))"

abbreviation readyState :: "reqContext \<Rightarrow> 'e reqState \<Rightarrow> bool" where
  "readyState ctx s \<equiv> wf_state s \<and> rc_container ctx \<and> rs_principal s \<noteq> None \<and> rs_bag s \<noteq> None"

abbreviation reservedClaims :: "'e reqState \<Rightarrow> claim set" where
  "reservedClaims s \<equiv> {c \<in> state_claims s. reserved c}"

lemma addTokenClaims_reserved:
  assumes "wf_state s"
  shows "same_reserved s (addTokenClaims fmtF rt s)"
proof -
  let ?cs = "WithoutReservedMTLSClaims (GetClaims (ClaimsPrincipalFromClaimsMap fmtF (privateClaims (pt_Token rt))))"
  have "\<not> reserved (mk_claim ''sub'' x)" for x by (simp add: reserved_def MTLSClaimTypePrefix_def)
  then have "same_reserved (addClaims s ?cs) (addClaims (addClaims s ?cs) [mk_claim ''sub'' x])" for x
    using assms by (intro same_reserved_add) (simp_all add: wf_addClaims)
  moreover have "same_reserved s (addClaims s ?cs)" by (rule same_reserved_add [OF assms no_reserved])
  ultimately show ?thesis
    by (auto simp: addTokenClaims_def Let_def newJWTToken_def intro: same_reserved_trans)
qed

lemma jwtNext_reserved:
  assumes "wf_state s" "jwtNext mdl jx fmtF vs anon cfg ctx s = Some (Inr t)"
  shows "wf_state t" "reservedClaims t = reservedClaims s" "rs_principal s \<noteq> None \<Longrightarrow> rs_principal t \<noteq> None"
proof -
  obtain r g where v: "validateRequest mdl jx vs ctx (rs_globals s) = Some (r, g)"
    using assms(2) by (auto simp: jwtNext_def split: if_splits)
  let ?s = "s\<lparr>rs_globals := g\<rparr>"
  have s: "wf_state ?s" using assms(1) by (simp add: scope_simps)
  have t: "t = (case r of Inl _ \<Rightarrow> anonymousUnary ?s
      | Inr rt \<Rightarrow> propagateClaims (claimsToPropagate cfg) (addTokenClaims fmtF rt ?s))"
    using assms(2) v by (cases r) (auto simp: jwtNext_def Let_def split: if_splits)
  have anon: "same_reserved ?s (addClaims ?s [anonymousClaim])"
    using same_reserved_add [OF s] anonymous_not_reserved by simp
  show "wf_state t" "reservedClaims t = reservedClaims s" "rs_principal s \<noteq> None \<Longrightarrow> rs_principal t \<noteq> None"
    using anon addTokenClaims_reserved [OF s, of fmtF]
    by (cases r; simp add: t anonymousUnary_def same_reserved_def scope_simps)+
qed

lemma jwtUnary_reserved:
  "passes readyState (jwtUnary mdl jx fmtF vs anon cfg)
    (\<lambda>ctx s c t. c = ctx \<and> wf_state t \<and> reservedClaims t = reservedClaims s \<and> rs_principal t \<noteq> None)"
proof (rule runNext_passes [OF jwtUnary_next])
  fix ctx and s t assume s: "readyState ctx s" and t: "jwtNext mdl jx fmtF vs anon cfg ctx s = Some (Inr t)"
  then show "ctx = ctx \<and> wf_state t \<and> reservedClaims t = reservedClaims s \<and> rs_principal t \<noteq> None"
    using jwtNext_reserved [OF _ t] by (intro conjI) simp_all
qed

text \<open>The reference token interceptor around the JWT interceptor.\<close>

lemma refUnary_passes:
  assumes "passes P' next Q'"
    and "\<And>ctx s t. P ctx s \<Longrightarrow> resolve lib en ctx s = Some (outcomePassThrough, t) \<Longrightarrow>
      P' ctx t \<and> (\<forall>c u. Q' ctx t c u \<longrightarrow> Q ctx s c u)"
    and "\<And>ctx s t c. P ctx s \<Longrightarrow> resolve lib en ctx s = Some (outcomeDirect c, t) \<Longrightarrow> Q ctx s c t"
    and "\<And>ctx s t c key ttl before. P ctx s \<Longrightarrow> resolve lib en ctx s = Some (outcomeDelegateToJWT c key ttl before, t) \<Longrightarrow>
      P' c (t\<lparr>rs_capture := None\<rparr>) \<and> (\<forall>c' u. Q' c (t\<lparr>rs_capture := None\<rparr>) c' u \<longrightarrow> Q ctx s c' u)"
  shows "passes P (refUnary lib en next) Q"
proof (rule passesI)
  fix ctx name s and h h' :: "('a, 'b) handler"
  assume P: "P ctx s" and eq: "\<And>c t. Q ctx s c t \<Longrightarrow> h c t = h' c t"
  show "refUnary lib en next ctx name h s = refUnary lib en next ctx name h' s"
  proof (cases "resolve lib en ctx s")
    case None
    then show ?thesis by (simp add: refUnary_def)
  next
    case (Some x)
    then obtain out t where r: "resolve lib en ctx s = Some (out, t)" by (cases x) auto
    show ?thesis
    proof (cases out)
      case outcomePassThrough
      with r assms(2) [OF P] have "next ctx name h t = next ctx name h' t"
        by (intro passesD [OF assms(1)]) (auto intro: eq)
      then show ?thesis using r outcomePassThrough by (simp add: refUnary_def)
    next
      case (outcomeDelegateToJWT c key ttl before)
      with r assms(4) [OF P]
      have "next c name (capturing h) (t\<lparr>rs_capture := None\<rparr>) = next c name (capturing h') (t\<lparr>rs_capture := None\<rparr>)"
        by (intro passesD [OF assms(1)]) (auto simp: capturing_def eq)
      then show ?thesis using r outcomeDelegateToJWT by (simp add: refUnary_def)
    next
      case (outcomeDirect c)
      then show ?thesis using r assms(3) [OF P] eq by (simp add: refUnary_def)
    next
      case (outcomeError err)
      then show ?thesis using r by (simp add: refUnary_def)
    qed
  qed
qed

lemma useResolved_kinds:
  "useResolved lib c ctx key p r s = (out, t) \<Longrightarrow>
    (rv_Kind r = ResolvedKindJWT \<and> t = s \<and>
      out = outcomeDelegateToJWT (rewriteAuthorizationToJWT (rl_md lib) ctx (rv_RawJWT r))
        (if snd (capTTLToJWTExpiry (rl_parse lib) (rl_now lib (envOf s))
           (if rv_TTL r \<le> 0 then rf_DefaultTTL c else rv_TTL r) (rv_RawJWT r)) then key else [])
        (fst (capTTLToJWTExpiry (rl_parse lib) (rl_now lib (envOf s))
           (if rv_TTL r \<le> 0 then rf_DefaultTTL c else rv_TTL r) (rv_RawJWT r))) (GetClaims p)) \<or>
    (rv_Kind r = ResolvedKindClaimsPrincipal \<and> out = outcomeDirect (stripAuthorization (rl_md lib) ctx)) \<or>
    (\<exists>err. out = outcomeError err)"
  by (cases "rv_Kind r"; simp only: useResolved_def Let_def split_beta ResolvedKind.simps prod.inject;
      elim conjE; hypsubst; simp)

lemma useResolved_delegate:
  assumes "useResolved lib c ctx key p r s = (outcomeDelegateToJWT ctx' key' ttl' before, t)"
  shows "t = s \<and> before = GetClaims p \<and> ctx' = rewriteAuthorizationToJWT (rl_md lib) ctx (rv_RawJWT r) \<and>
    (\<exists>cacheable. capTTLToJWTExpiry (rl_parse lib) (rl_now lib (envOf s))
        (if rv_TTL r \<le> 0 then rf_DefaultTTL c else rv_TTL r) (rv_RawJWT r) = (ttl', cacheable) \<and>
      key' = (if cacheable then key else []))"
proof -
  obtain a b where "capTTLToJWTExpiry (rl_parse lib) (rl_now lib (envOf s))
        (if rv_TTL r \<le> 0 then rf_DefaultTTL c else rv_TTL r) (rv_RawJWT r) = (a, b)" by fastforce
  with useResolved_kinds [OF assms] show ?thesis by simp
qed

lemma resolve_acts:
  assumes "resolve lib en ctx s = Some (out, t)" "out \<noteq> outcomePassThrough" "\<nexists>err. out = outcomeError err"
  shows "\<exists>raw p. refRequest lib en ctx raw \<and> rc_container ctx \<and> rs_principal s = Some p"
proof -
  obtain raw where raw: "refRequest lib en ctx raw" using assms resolve_other [of lib en ctx s] by auto
  then show ?thesis using assms
    by (cases "rc_container ctx"; cases "rs_principal s")
       (auto simp: resolve_def refRequest_def GetRequestContainer_def Let_def)
qed

lemma resolve_delegate:
  assumes "resolve lib en ctx s = Some (outcomeDelegateToJWT ctx' key ttl before, t)"
  obtains raw p r e cacheable where "refRequest lib en ctx raw" "rc_container ctx" "rs_principal s = Some p"
    "resolveViaResolvers (en_resolvers en) ctx raw (envOf s) = (Inr (Some r), e)"
    "t = setEnv s e" "before = GetClaims p" "ctx' = rewriteAuthorizationToJWT (rl_md lib) ctx (rv_RawJWT r)"
    "capTTLToJWTExpiry (rl_parse lib) (rl_now lib e)
        (if rv_TTL r \<le> 0 then rf_DefaultTTL (en_config en) else rv_TTL r) (rv_RawJWT r) = (ttl, cacheable)"
    "key = (if cacheable then cacheKey (rl_digest lib) (en_config en) raw else [])"
proof -
  obtain raw p where raw: "refRequest lib en ctx raw" and c: "rc_container ctx" and p: "rs_principal s = Some p"
    using resolve_acts [OF assms] by auto
  obtain x e where x: "resolveViaResolvers (en_resolvers en) ctx raw (envOf s) = (x, e)" by fastforce
  note res = assms [unfolded resolve_reference [OF raw c p] Let_def x]
  obtain r where r: "x = Inr (Some r)"
    using res by (cases x; cases "projr x") (auto split: option.splits)
  have "useResolved lib (en_config en) ctx (cacheKey (rl_digest lib) (en_config en) raw) p r (setEnv s e) =
      (outcomeDelegateToJWT ctx' key ttl before, t)"
    using res by (auto simp: r split: option.splits)
  from useResolved_delegate [OF this] that [OF raw c p x [unfolded r]] show ?thesis
    by (auto simp: scope_simps)
qed

lemma resolve_direct:
  assumes "resolve lib en ctx s = Some (outcomeDirect ctx', t)"
  shows "ctx' = stripAuthorization (rl_md lib) ctx \<and> rc_container ctx"
proof -
  obtain raw p where raw: "refRequest lib en ctx raw" and c: "rc_container ctx" and p: "rs_principal s = Some p"
    using resolve_acts [OF assms] by auto
  have u: "ctx' = stripAuthorization (rl_md lib) ctx"
    if "useResolved lib c0 ctx key p r s0 = (outcomeDirect ctx', t)" for c0 key r s0
    using useResolved_kinds [OF that] by simp
  obtain x e where x: "resolveViaResolvers (en_resolvers en) ctx raw (envOf s) = (x, e)" by fastforce
  note res = assms [unfolded resolve_reference [OF raw c p] Let_def x]
  show ?thesis
    using res c u by (cases x; cases "projr x") (auto split: option.splits)
qed

text \<open>\<open>hidden\<close>: the authorization header is gone, or is the JWT a resolver returned for the raw token;
  every other key is as it was.\<close>

definition hidden :: "('e, 'f) refLib \<Rightarrow> ('e, 'f) engine \<Rightarrow> string \<Rightarrow> reqContext \<Rightarrow> reqContext \<Rightarrow> bool" where
  "hidden lib en raw ctx c \<longleftrightarrow> (\<exists>md. rc_metadata c = Some md \<and>
    (md_Get (rl_md lib) md MetadataKeyAuthorization = [] \<or>
     (\<exists>e r e'. resolveViaResolvers (en_resolvers en) ctx raw e = (Inr (Some r), e') \<and>
        md_Get (rl_md lib) md MetadataKeyAuthorization = [AuthSchemeBearerPrefix @ rv_RawJWT r])) \<and>
    (\<forall>k. k \<noteq> MetadataKeyAuthorization \<longrightarrow>
      md_Get (rl_md lib) md k = md_Get (rl_md lib) (ExtractIncoming ctx) k))"

lemma strip_hidden: "md_laws (rl_md lib) \<Longrightarrow> hidden lib en raw ctx (stripAuthorization (rl_md lib) ctx)"
  by (simp add: hidden_def stripAuthorization_def ToIncoming_def md_laws_def)

lemma rewrite_hidden:
  "md_laws (rl_md lib) \<Longrightarrow> resolveViaResolvers (en_resolvers en) ctx raw e = (Inr (Some r), e') \<Longrightarrow>
    hidden lib en raw ctx (rewriteAuthorizationToJWT (rl_md lib) ctx (rv_RawJWT r))"
  by (auto simp: hidden_def rewriteAuthorizationToJWT_def ToIncoming_def md_laws_def)

lemma refRequest_unique: "refRequest lib en ctx raw \<Longrightarrow> refRequest lib en ctx raw' \<Longrightarrow> raw' = raw"
  by (simp add: refRequest_def)

lemma rewritten_sel [scope_simps]:
  "rc_container (rewriteAuthorizationToJWT mdl ctx jwt) = rc_container ctx"
  "rc_peer (rewriteAuthorizationToJWT mdl ctx jwt) = rc_peer ctx"
  "rc_container (stripAuthorization mdl ctx) = rc_container ctx"
  "rc_peer (stripAuthorization mdl ctx) = rc_peer ctx"
  by (simp_all add: rewriteAuthorizationToJWT_def stripAuthorization_def ToIncoming_def)

lemma capTTL_bound:
  assumes "capTTLToJWTExpiry parse now ttl0 jwt = (ttl, True)" "parse jwt = Some tok"
    and "tk_Expiration tok = Some exp" "exp \<noteq> zeroTime"
  shows "now < exp" "now + ttl \<le> exp"
proof -
  have "clampDuration (exp - now) \<le> 0 \<or> clampDuration (exp - now) \<le> exp - now"
    by (auto simp: clampDuration_def)
  with assms show "now < exp" "now + ttl \<le> exp"
    by (auto simp: capTTLToJWTExpiry_def Let_def clampDuration_def split: if_splits)
qed

lemma same_reserved_ready:
  "same_reserved s t \<Longrightarrow> readyState ctx s \<Longrightarrow> rc_container c = rc_container ctx \<Longrightarrow> readyState c t"
  by (simp add: same_reserved_def)

lemma capture_update [scope_simps]:
  "state_claims (s\<lparr>rs_capture := x\<rparr>) = state_claims s" "wf_state (s\<lparr>rs_capture := x\<rparr>) = wf_state s"
  by (simp_all add: state_claims_def wf_state_def)

lemma refUnary_reserved:
  "passes readyState (refUnary lib en (jwtUnary mdl jx fmtF vs anon cfg))
    (\<lambda>ctx s c t. rc_container c = rc_container ctx \<and> rc_peer c = rc_peer ctx \<and> wf_state t \<and>
       reservedClaims t = reservedClaims s \<and> rs_principal t \<noteq> None)"
proof (rule refUnary_passes [OF jwtUnary_reserved])
  fix ctx s t assume "readyState ctx s" "resolve lib en ctx s = Some (outcomePassThrough, t)"
  moreover from this have "same_reserved s t" using resolve_reserved by blast
  ultimately show "readyState ctx t \<and> (\<forall>c u. c = ctx \<and> wf_state u \<and> reservedClaims u = reservedClaims t \<and>
      rs_principal u \<noteq> None \<longrightarrow> rc_container c = rc_container ctx \<and> rc_peer c = rc_peer ctx \<and> wf_state u \<and>
      reservedClaims u = reservedClaims s \<and> rs_principal u \<noteq> None)"
    by (simp add: same_reserved_def)
next
  fix ctx s t c assume s: "readyState ctx s" and r: "resolve lib en ctx s = Some (outcomeDirect c, t)"
  have "same_reserved s t" using s r resolve_reserved by blast
  with s show "rc_container c = rc_container ctx \<and> rc_peer c = rc_peer ctx \<and> wf_state t \<and>
      reservedClaims t = reservedClaims s \<and> rs_principal t \<noteq> None"
    using resolve_direct [OF r] by (simp add: same_reserved_def scope_simps)
next
  fix ctx s t c key ttl before
  assume s: "readyState ctx s" and r: "resolve lib en ctx s = Some (outcomeDelegateToJWT c key ttl before, t)"
  have same: "same_reserved s t" using s r resolve_reserved by blast
  have c: "rc_container c = rc_container ctx" "rc_peer c = rc_peer ctx"
    using resolve_delegate [OF r] by (metis rewritten_sel(1,2))+
  show "readyState c (t\<lparr>rs_capture := None\<rparr>) \<and> (\<forall>c' u. c' = c \<and> wf_state u \<and>
      reservedClaims u = reservedClaims (t\<lparr>rs_capture := None\<rparr>) \<and> rs_principal u \<noteq> None \<longrightarrow>
      rc_container c' = rc_container ctx \<and> rc_peer c' = rc_peer ctx \<and> wf_state u \<and>
      reservedClaims u = reservedClaims s \<and> rs_principal u \<noteq> None)"
    using s same c by (auto simp: same_reserved_def scope_simps)
qed

text \<open>What a validated delegation caches, and what a hit replays.\<close>

lemma set_claimsToCache:
  "wf_state t \<Longrightarrow> rs_principal t \<noteq> None \<Longrightarrow>
    set (claimsToCache before (capture t)) = {c \<in> state_claims t - set before. \<not> reserved c}"
  by (auto simp: claimsToCache_def capture_def set_WithoutReserved set_ClaimsAddedSince set_GetClaims
      wf_state_def state_claims_def)

lemma refUnary_delegate:
  assumes s: "readyState ctx s" and jx: "distinctTokens jx"
    and r: "resolve lib en ctx s = Some (outcomeDelegateToJWT ctx' key ttl before, s1)"
    and d: "jwtDecision mdl jx fmtF vs anon ctx' s1 = Some (d, g)"
  shows "case d of
     Inl err \<Rightarrow> refUnary lib en (jwtUnary mdl jx fmtF vs anon cfg) ctx name h s =
       Some (Inl err, s1\<lparr>rs_globals := g, rs_capture := rs_capture s\<rparr>)
   | Inr cs \<Rightarrow> \<exists>s2 claims. set claims = cs - state_claims s \<and>
       state_claims s2 = state_claims s \<union> cs \<and> rs_globals s2 = g \<and>
       refUnary lib en (jwtUnary mdl jx fmtF vs anon cfg) ctx name h s =
         map_option (\<lambda>(x, t). (x, (cacheResolvedClaims (en_config en) key claims ttl t)\<lparr>rs_capture := rs_capture s\<rparr>))
           (h ctx' s2)"
proof -
  obtain p e where p: "rs_principal s = Some p" and s1: "s1 = setEnv s e" and before: "before = GetClaims p"
    and ctx': "rc_container ctx'"
    using resolve_delegate [OF r] by (metis rewritten_sel(1))
  let ?t = "s1\<lparr>rs_capture := None\<rparr>"
  have t: "wf_state ?t" "rs_principal ?t \<noteq> None" "rs_bag ?t \<noteq> None" "state_claims ?t = state_claims s"
    using s by (simp_all add: s1 scope_simps)
  have dt: "jwtDecision mdl jx fmtF vs anon ctx' ?t = Some (d, g)" using d by (simp add: jwtDecision_def)
  have run: "refUnary lib en (jwtUnary mdl jx fmtF vs anon cfg) ctx name h s =
      map_option (\<lambda>(x, t). (x, (cacheResolvedClaims (en_config en) key (claimsToCache before (rs_capture t)) ttl t)
        \<lparr>rs_capture := rs_capture s\<rparr>)) (runNext (jwtNext mdl jx fmtF vs anon cfg ctx' ?t) ctx' (capturing h))"
    using r by (simp add: refUnary_def jwtUnary_next)
  note dec = jwtNext_decision [OF t(1) ctx' t(2,3) dt, of cfg]
  show ?thesis
  proof (cases d)
    case (Inl err)
    have "cacheResolvedClaims (en_config en) key [] ttl u = u" for u
      by (simp add: cacheResolvedClaims_def split: option.splits)
    with Inl run dec jx show ?thesis by (simp add: distinctTokens_def claimsToCache_def)
  next
    case (Inr cs)
    then obtain s2 where s2: "jwtNext mdl jx fmtF vs anon cfg ctx' ?t = Some (Inr s2)" "wf_state s2"
      "state_claims s2 = state_claims s \<union> cs" "rs_globals s2 = g" "rs_principal s2 \<noteq> None"
      using dec jx t(4) by (auto simp: distinctTokens_def)
    have "set before = state_claims s" using s p before by (simp add: set_GetClaims wf_state_def state_claims_def)
    then have claims: "set (claimsToCache before (capture s2)) = cs - state_claims s"
      using set_claimsToCache [OF s2(2,5)] jwtDecision_reserved d Inr s2(3) by blast
    have "refUnary lib en (jwtUnary mdl jx fmtF vs anon cfg) ctx name h s =
        map_option (\<lambda>(x, t). (x, (cacheResolvedClaims (en_config en) key (claimsToCache before (capture s2)) ttl t)
          \<lparr>rs_capture := rs_capture s\<rparr>)) (h ctx' s2)"
      unfolding run s2(1)
      by (cases "h ctx' s2") (auto simp: capturing_def cacheResolvedClaims_def setEnv_def split: option.splits)
    with claims s2 Inr show ?thesis by auto
  qed
qed

lemma refUnary_hit:
  assumes "wf_state s" "refRequest lib en ctx raw" "rc_container ctx" "rs_principal s \<noteq> None"
    and "cacheHit (en_config en) (cacheKey (rl_digest lib) (en_config en) raw) (envOf s) = Some claims"
  shows "\<exists>s'. (\<forall>next name h. refUnary lib en next ctx name h s = h (stripAuthorization (rl_md lib) ctx) s') \<and>
    state_claims s' = state_claims s \<union> {c \<in> set claims. \<not> reserved c \<and> c_type c \<noteq> []} \<and> rs_globals s' = rs_globals s"
proof -
  obtain p where p: "rs_principal s = Some p" using assms(4) by blast
  have "resolve lib en ctx s = Some (outcomeDirect (stripAuthorization (rl_md lib) ctx),
      addClaims s (WithoutReservedMTLSClaims claims))"
    using assms(5) by (simp add: resolve_reference [OF assms(2,3) p] Let_def)
  then show ?thesis using claims_addClaims [OF assms(1,4)]
    by (intro exI [of _ "addClaims s (WithoutReservedMTLSClaims claims)"])
       (auto simp: refUnary_def scope_simps set_WithoutReserved)
qed

lemma jwtDecision_types:
  "jwtDecision mdl jx fmtF vs anon ctx s = Some (Inr cs, g) \<Longrightarrow> \<forall>c \<in> cs. c_type c \<noteq> []"
  by (cases "validateRequest mdl jx vs ctx (rs_globals s)";
      cases "fst (the (validateRequest mdl jx vs ctx (rs_globals s)))")
    (auto simp: jwtDecision_def anonymousClaim_def tokenClaims_def split: if_splits)

section \<open>A sample engine\<close>

text \<open>A resolver that turns every token into the JWT \<open>t\<close>, on the sample world of the JWT theory; the
  cache holds one entry once the clock shows 1000 or more.\<close>

definition sampleRefLib :: "(int, unit) refLib" where
  "sampleRefLib = \<lparr>rl_md = sampleMd, rl_digest = id, rl_parse = (\<lambda>_. Some sampleToken), rl_now = id, rl_fmtF = (\<lambda>_. '''')\<rparr>"

definition sampleResolved :: "unit Resolved" where
  "sampleResolved = \<lparr>rv_Kind = ResolvedKindJWT, rv_RawJWT = ''t'', rv_Claims = [], rv_TTL = 0\<rparr>"

definition sampleCache :: "int ICache" where
  "sampleCache =
    \<lparr>ca_Get = (\<lambda>e key. if e \<ge> 1000 then Some (Some [mk_claim ''role'' ''r'', mk_claim ''sub'' ''u'']) else None),
     ca_SetWithTTL = (\<lambda>e key claims ttl. e + 1000)\<rparr>"

definition sampleEngine :: "(int, unit) engine" where
  "sampleEngine =
    newEngine [\<lambda>ctx e raw. ((True, Some sampleResolved, None), e)] [WithCache (Some sampleCache), WithKnownPrefixes [''p'']]"

definition sampleRefCtx :: reqContext where
  "sampleRefCtx = \<lparr>rc_container = True, rc_metadata = Some [(''authorization'', [''Bearer pq''])], rc_peer = None\<rparr>"

abbreviation sampleNext :: "(int, 'r) unaryInterceptor" where
  "sampleNext \<equiv> jwtUnary sampleMd sampleJwx (\<lambda>_. '''') sampleValidators False None"

lemma sampleEngine_simps:
  "en_config sampleEngine = \<lparr>rf_Cache = Some sampleCache, rf_DefaultTTL = 300000000000,
     rf_CacheKeyPrefix = ''reftok:'', rf_KnownPrefixes = [''p'']\<rparr>"
  "en_resolvers sampleEngine = [\<lambda>ctx e raw. ((True, Some sampleResolved, None), e)]"
  by (simp_all add: sampleEngine_def newEngine_def WithCache_def WithKnownPrefixes_def second_def)

lemma sample_refRequest: "refRequest sampleRefLib sampleEngine sampleRefCtx ''pq''"
  by (simp add: refRequest_def extractBearerToken_def sampleRefCtx_def sampleRefLib_def sampleMd_def
      MetadataKeyAuthorization_def splitN2_def lower_I AuthSchemeBearer_def isReferenceToken_def sampleEngine_simps)

lemma sampleRefCtx_container: "rc_container sampleRefCtx" by (simp add: sampleRefCtx_def)

lemma rewritten_sample:
  "rewriteAuthorizationToJWT sampleMd sampleRefCtx ''t'' = sampleCtx"
  by (simp add: rewriteAuthorizationToJWT_def ToIncoming_def ExtractIncoming_def sampleRefCtx_def sampleCtx_def
      sampleMd_def MetadataKeyAuthorization_def AuthSchemeBearerPrefix_def)

lemma sample_resolve:
  "resolve sampleRefLib sampleEngine sampleRefCtx sampleState =
    Some (outcomeDelegateToJWT sampleCtx ''reftok:pq'' 95 [], sampleState)"
proof -
  have p: "rs_principal sampleState = Some NewIClaimsPrincipal" by (simp add: sampleState_def)
  have "cacheHit (en_config sampleEngine) ''reftok:pq'' (envOf sampleState) = None"
    by (simp add: cacheHit_def sampleEngine_simps sampleCache_def sampleState_def sampleGlobals_def)
  moreover have "setEnv sampleState (envOf sampleState) = sampleState" by (simp add: setEnv_def)
  moreover have "capTTLToJWTExpiry (rl_parse sampleRefLib) (rl_now sampleRefLib (envOf sampleState)) 300000000000 ''t'' =
      (95, True)"
    by (simp add: capTTLToJWTExpiry_def sampleRefLib_def sampleToken_def zeroTime_def second_def clampDuration_def
        sampleState_def sampleGlobals_def)
  moreover have "cacheKey (rl_digest sampleRefLib) (en_config sampleEngine) ''pq'' = ''reftok:pq''"
    by (simp add: cacheKey_def sampleRefLib_def sampleEngine_simps)
  moreover have "rl_md sampleRefLib = sampleMd" "rf_DefaultTTL (en_config sampleEngine) = 300000000000"
    by (simp_all add: sampleRefLib_def sampleEngine_simps)
  moreover have "GetClaims NewIClaimsPrincipal = []" by (simp add: GetClaims_def NewIClaimsPrincipal_def)
  ultimately show ?thesis
    by (simp add: resolve_reference [OF sample_refRequest sampleRefCtx_container p] Let_def sampleEngine_simps(2)
        useResolved_def sampleResolved_def rewritten_sample)
qed

lemma sample_ready: "readyState sampleRefCtx sampleState" "distinctTokens sampleJwx" "state_claims sampleState = {}"
proof -
  show "readyState sampleRefCtx sampleState" "state_claims sampleState = {}"
    by (simp_all add: sampleState_def sampleRefCtx_def wf_state_def state_claims_def wf_new claim_set_new)
  have "wf_map (tk_Claims sampleToken)" by (simp add: sampleToken_def)
  then show "distinctTokens sampleJwx" by (simp add: distinctTokens_def sampleJwx_def)
qed

lemma sample_decision:
  "jwtDecision sampleMd sampleJwx (\<lambda>_. '''') sampleValidators False sampleCtx sampleState =
    Some (Inr {mk_claim ''role'' ''r'', mk_claim ''sub'' ''u''}, sampleAfter)"
  using sample_valid sample_tokenClaims by (simp add: jwtDecision_def sampleState_def)

section \<open>Properties\<close>









end
