(* ===== verification/Server_Pipeline.thy ===== *)
theory Server_Pipeline
  imports Auth_Gate MTLS Reference_Token
begin

text \<open>
  The interceptors composed the way \<open>runtime/otel/otel-fluffycore-startup.go\<close> registers them:
  panic recovery, correlation id, request scope, context logging, mutual TLS claims, JWT
  authentication, authorization gate; and the same chain with the reference token middleware
  around the JWT interceptor. How gRPC chains interceptors and what the recovery interceptor of
  go-grpc-middleware does are the hypotheses \<open>chain_law\<close> and \<open>recovery_law\<close>.
\<close>

section \<open>The chains\<close>

type_synonym ('e, 'r) chaining = "('e, 'r) unaryInterceptor list \<Rightarrow> ('e, 'r) unaryInterceptor"

definition chain_law :: "('e, 'r) chaining \<Rightarrow> bool" where
  "chain_law chain \<longleftrightarrow>
    chain [] = (\<lambda>ctx name h s. h ctx s) \<and> (\<forall>i is. chain (i # is) = around i (chain is))"

definition internalError :: goError where "internalError = Status Internal ''internal error''"

definition recovery_law :: "('e, 'r) unaryInterceptor \<Rightarrow> bool" where
  "recovery_law recover \<longleftrightarrow> (\<forall>ctx name h s.
    case h ctx s of
      Some r \<Rightarrow> recover ctx name h s = Some r
    | None \<Rightarrow> \<exists>s'. recover ctx name h s = Some (Inl internalError, s'))"

text \<open>Everything the chain is built from besides the authentication interceptor.\<close>

record server =
  sv_newId :: string
  sv_md :: mdLib
  sv_unmarshal :: "string \<Rightarrow> string option option"
  sv_origin :: string
  sv_fingerprint :: "string \<Rightarrow> string"
  sv_entryMap :: entryMap

definition serverChain ::
    "server \<Rightarrow> ('e, 'r) unaryInterceptor \<Rightarrow> ('e, 'r) unaryInterceptor list" where
  "serverChain sv auth =
    [EnsureOTELCorrelationIDUnary (sv_newId sv),
     ScopedContextUnary True True,
     EnsureContextLoggingUnary (sv_md sv) (sv_unmarshal sv) (sv_origin sv),
     mtlsUnary (sv_fingerprint sv),
     auth,
     unaryGate (sv_entryMap sv) True]"

definition otelUnaryServerOptions ::
    "('e, 'r) unaryInterceptor \<Rightarrow> server \<Rightarrow> ('ks, 'f) jwx \<Rightarrow> ('f \<Rightarrow> string) \<Rightarrow> ('e, 'f) validatorFun list \<Rightarrow>
     propagateConfig option \<Rightarrow> ('e, 'r) unaryInterceptor list" where
  "otelUnaryServerOptions recover sv jx fmtF vs cfg =
    recover # serverChain sv (jwtUnary (sv_md sv) jx fmtF vs False cfg)"

section \<open>What each interceptor lets through\<close>

text \<open>\<open>denies I\<close>: when the handler never succeeds, neither does the interceptor.\<close>

definition denies :: "('e, 'r) unaryInterceptor \<Rightarrow> bool" where
  "denies I \<longleftrightarrow> (\<forall>ctx name h s r s'. (\<forall>c t x t'. h c t = Some (x, t') \<longrightarrow> isl x) \<longrightarrow>
    I ctx name h s = Some (r, s') \<longrightarrow> isl r)"

lemma deniesI:
  "(\<And>ctx name h s r s'. (\<And>c t x t'. h c t = Some (x, t') \<Longrightarrow> isl x) \<Longrightarrow> I ctx name h s = Some (r, s') \<Longrightarrow> isl r) \<Longrightarrow>
    denies I"
  unfolding denies_def by blast

lemma deniesD:
  "denies I \<Longrightarrow> (\<And>c t x t'. h c t = Some (x, t') \<Longrightarrow> isl x) \<Longrightarrow> I ctx name h s = Some (r, s') \<Longrightarrow> isl r"
  unfolding denies_def by blast

lemma denies_around:
  assumes "denies I" "denies J"
  shows "denies (around I J)"
proof (rule deniesI)
  fix ctx name s r s' and h :: "('a, 'b) handler"
  assume h: "\<And>c t x t'. h c t = Some (x, t') \<Longrightarrow> isl x" and r: "around I J ctx name h s = Some (r, s')"
  have "isl x" if "J c name h t = Some (x, t')" for c t x t' by (rule deniesD [OF assms(2) h that])
  then show "isl r" using r unfolding around_def by (rule deniesD [OF assms(1)])
qed

lemma denies_steps:
  "denies (EnsureOTELCorrelationIDUnary newId)" "denies (ScopedContextUnary hp hb)"
  "denies (EnsureContextLoggingUnary mdl um org)" "denies (mtlsUnary fp)" "denies (unaryGate m zt)"
  by (rule deniesI; auto simp: EnsureOTELCorrelationIDUnary_def ScopedContextUnary_def EnsureContextLoggingUnary_def
      mtlsUnary_def unaryGate_def split: option.splits sum.splits)+

lemma denies_runNext: "(\<And>ctx name h s. I ctx name h s = runNext (n ctx s) ctx h) \<Longrightarrow> denies I"
  by (rule deniesI) (auto simp: runNext_def split: option.splits sum.splits)

lemma denies_refUnary:
  assumes "denies next"
  shows "denies (refUnary lib en next)"
proof (rule deniesI)
  fix ctx name s r s' and h :: "('a, 'b) handler"
  assume h: "\<And>c t x t'. h c t = Some (x, t') \<Longrightarrow> isl x" and r: "refUnary lib en next ctx name h s = Some (r, s')"
  have ch: "isl x" if "capturing h c t = Some (x, t')" for c t x t'
    using that h by (auto simp: capturing_def)
  show "isl r"
    using r h deniesD [OF assms h] deniesD [OF assms ch]
    by (auto simp: refUnary_def split: option.splits resolveOutcome.splits)
qed

lemma correlation_passes:
  "passes (\<lambda>_ _. True) (EnsureOTELCorrelationIDUnary newId) (\<lambda>ctx s c t. t = s \<and> rc_peer c = rc_peer ctx)"
  by (rule passesI) (auto simp: EnsureOTELCorrelationIDUnary_def scope_simps split: option.splits)

lemma scope_passes:
  "passes (\<lambda>_ _. True) (ScopedContextUnary True True)
    (\<lambda>ctx s c t. rc_peer c = rc_peer ctx \<and> readyState c t \<and> state_claims t = {})"
  by (rule passesI) (auto simp: ScopedContextUnary_def scope_simps openScope_def wf_state_def state_claims_def
      wf_new claim_set_new)

lemma logging_passes:
  "passes readyState (EnsureContextLoggingUnary mdl um org)
    (\<lambda>ctx s c t. c = ctx \<and> readyState c t \<and> state_claims t = state_claims s)"
  by (rule passesI) (auto simp: EnsureContextLoggingUnary_def scope_simps split: option.splits sum.splits)

lemma mtls_passes:
  "passes readyState (mtlsUnary fp)
    (\<lambda>ctx s c t. c = ctx \<and> readyState c t \<and> reservedClaims t = reservedClaims s \<union>
      (case verifiedClientCert ctx of None \<Rightarrow> {} | Some cert \<Rightarrow> set (certClaims fp cert)))"
proof (rule passesI)
  fix ctx name and s :: "'a reqState" and h h' :: "('a, 'b) handler"
  let ?Q = "\<lambda>t. readyState ctx t \<and> reservedClaims t = reservedClaims s \<union>
      (case verifiedClientCert ctx of None \<Rightarrow> {} | Some cert \<Rightarrow> set (certClaims fp cert))"
  assume s: "readyState ctx s" and eq: "\<And>c t. c = ctx \<and> readyState c t \<and> reservedClaims t = reservedClaims s \<union>
      (case verifiedClientCert ctx of None \<Rightarrow> {} | Some cert \<Rightarrow> set (certClaims fp cert)) \<Longrightarrow> h c t = h' c t"
  have "?Q t" if t: "addPeerCertClaims fp ctx s = Some t" for t
  proof -
    have "wf_state s" "rc_container ctx" "rs_principal s \<noteq> None" using s by simp_all
    moreover have "rs_bag t = rs_bag s"
      using t by (auto simp: addPeerCertClaims_eq scope_simps split: option.splits if_splits)
    ultimately show ?thesis using mtls_reserved [OF _ t] s by simp
  qed
  with eq show "mtlsUnary fp ctx name h s = mtlsUnary fp ctx name h' s"
    by (simp add: mtlsUnary_def split: option.splits)
qed

section \<open>Authentication interceptors\<close>

text \<open>What the chain relies on: an authentication interceptor never adds or removes a reserved claim,
  keeps the connection's peer, and never makes a failing handler succeed.\<close>

locale auth_interceptor =
  fixes auth :: "('e, 'r) unaryInterceptor"
  assumes auth_reserved: "passes readyState auth
      (\<lambda>ctx s c t. rc_container c = rc_container ctx \<and> rc_peer c = rc_peer ctx \<and> wf_state t \<and>
         reservedClaims t = reservedClaims s \<and> rs_principal t \<noteq> None)"
    and auth_denies: "denies auth"
begin

text \<open>In front of the gate, the reserved claims are exactly those of the verified certificate.\<close>

lemma before_gate:
  "passes (\<lambda>_ _. True)
    (around (EnsureOTELCorrelationIDUnary (sv_newId sv)) (around (ScopedContextUnary True True)
      (around (EnsureContextLoggingUnary (sv_md sv) (sv_unmarshal sv) (sv_origin sv))
        (around (mtlsUnary (sv_fingerprint sv)) auth))))
    (\<lambda>ctx s c t. rc_container c \<and> wf_state t \<and> rs_principal t \<noteq> None \<and> reservedClaims t =
      (case verifiedClientCert ctx of None \<Rightarrow> {} | Some cert \<Rightarrow> set (certClaims (sv_fingerprint sv) cert)))"
proof -
  let ?cert = "\<lambda>ctx. case verifiedClientCert ctx of None \<Rightarrow> {} | Some cert \<Rightarrow> set (certClaims (sv_fingerprint sv) cert)"
  have peer: "rc_peer c = rc_peer ctx \<Longrightarrow> verifiedClientCert c = verifiedClientCert ctx" for c ctx
    by (simp add: verifiedClientCert_def)
  have 1: "passes readyState (around (mtlsUnary (sv_fingerprint sv)) auth)
    (\<lambda>ctx s c t. rc_container c \<and> wf_state t \<and> rs_principal t \<noteq> None \<and>
      reservedClaims t = reservedClaims s \<union> ?cert ctx)"
    by (rule passes_around [OF mtls_passes auth_reserved]) simp_all
  have 2: "passes readyState (around (EnsureContextLoggingUnary (sv_md sv) (sv_unmarshal sv) (sv_origin sv))
      (around (mtlsUnary (sv_fingerprint sv)) auth))
    (\<lambda>ctx s c t. rc_container c \<and> wf_state t \<and> rs_principal t \<noteq> None \<and>
      reservedClaims t = reservedClaims s \<union> ?cert ctx)"
    by (rule passes_around [OF logging_passes 1]) simp_all
  have 3: "passes (\<lambda>_ _. True) (around (ScopedContextUnary True True)
      (around (EnsureContextLoggingUnary (sv_md sv) (sv_unmarshal sv) (sv_origin sv))
      (around (mtlsUnary (sv_fingerprint sv)) auth)))
    (\<lambda>ctx s c t. rc_container c \<and> wf_state t \<and> rs_principal t \<noteq> None \<and> reservedClaims t = ?cert ctx)"
    by (rule passes_around [OF scope_passes 2]; elim conjE; (drule peer)?; simp)
  show ?thesis
    by (rule passes_around [OF correlation_passes 3]; (elim conjE)?; (drule peer)?; simp)
qed

lemma chain_eq:
  "chain_law chain \<Longrightarrow> chain (serverChain sv auth) ctx name h s =
    around (EnsureOTELCorrelationIDUnary (sv_newId sv)) (around (ScopedContextUnary True True)
      (around (EnsureContextLoggingUnary (sv_md sv) (sv_unmarshal sv) (sv_origin sv))
        (around (mtlsUnary (sv_fingerprint sv)) auth))) ctx name
      (\<lambda>c t. unaryGate (sv_entryMap sv) True c name h t) s"
  by (simp add: chain_law_def serverChain_def around_def)

lemma chain_denied:
  assumes "chain_law chain" "\<And>c t x t'. h c t = Some (x, t') \<Longrightarrow> isl x"
    and "chain (serverChain sv auth) ctx name h s = Some (r, s')"
  shows "isl r"
proof -
  have gate: "isl x" if "unaryGate (sv_entryMap sv) True c name h t = Some (x, t')" for c t x t'
    by (rule deniesD [OF denies_steps(5) assms(2) that])
  have "denies (around (EnsureOTELCorrelationIDUnary (sv_newId sv)) (around (ScopedContextUnary True True)
      (around (EnsureContextLoggingUnary (sv_md sv) (sv_unmarshal sv) (sv_origin sv))
        (around (mtlsUnary (sv_fingerprint sv)) auth))))"
    by (intro denies_around denies_steps auth_denies)
  from deniesD [OF this gate] assms(3) chain_eq [OF assms(1)] show ?thesis by simp
qed

end

section \<open>The gate on reserved claims\<close>

lemma fact_reserved: "fact_holds S f \<Longrightarrow> reserved (cf_claim f) \<Longrightarrow> \<exists>c \<in> S. reserved c"
  unfolding fact_holds_def reserved_def by (metis (no_types))

lemma gate_denies_reserved:
  assumes "built m" "facts_in m name = Some fs" "f \<in> set fs" "reserved (cf_claim f)"
    and "wf_state t" "rc_container c" "rs_principal t \<noteq> None" "reservedClaims t = {}"
  shows "unaryGate m True c name h t = Some (Inl permissionDenied, t)"
proof -
  obtain p where p: "rs_principal t = Some p" using assms(7) by blast
  then have "wf_principal p" "state_claims t = claim_set p"
    using assms(5) by (simp_all add: wf_state_def state_claims_def)
  then have "\<not> fact_HasClaim f p" using fact_reserved [of "claim_set p" f] assms(4,8) by (auto simp: fact_HasClaim_iff)
  then have "\<not> list_all (\<lambda>f. fact_HasClaim f (requestPrincipal c t)) fs"
    using assms(3,6) p by (auto simp: list_all_iff requestPrincipal_def diPrincipal_def GetRequestContainer_def)
  then show ?thesis by (simp add: unaryGate_def authorize_built [OF assms(1)] assms(2))
qed

context auth_interceptor
begin

lemma mtls_required:
  assumes "chain_law chain" "built (sv_entryMap sv)" "facts_in (sv_entryMap sv) name = Some fs"
    and "f \<in> set fs" "reserved (cf_claim f)" "verifiedClientCert ctx = None"
  shows "chain (serverChain sv auth) ctx name h s = chain (serverChain sv auth) ctx name h' s"
    and "chain (serverChain sv auth) ctx name h s = Some (r, s') \<Longrightarrow> isl r"
proof -
  have same: "chain (serverChain sv auth) ctx name h s = chain (serverChain sv auth) ctx name h' s" for h h'
    unfolding chain_eq [OF assms(1)]
    by (rule passesD [OF before_gate]) (simp_all add: assms(6) gate_denies_reserved [OF assms(2-5)])
  then show "chain (serverChain sv auth) ctx name h s = chain (serverChain sv auth) ctx name h' s" .
  show "chain (serverChain sv auth) ctx name h s = Some (r, s') \<Longrightarrow> isl r"
    unfolding same [of h "\<lambda>_ _. None"] by (rule chain_denied [OF assms(1)]) simp_all
qed

text \<open>With the recovery interceptor in front: always a response, never a success.\<close>

lemma mtls_required_recovered:
  assumes "recovery_law recover" "chain_law chain" "built (sv_entryMap sv)" "facts_in (sv_entryMap sv) name = Some fs"
    and "f \<in> set fs" "reserved (cf_claim f)" "verifiedClientCert ctx = None"
  shows "\<exists>err s'. chain (recover # serverChain sv auth) ctx name h s = Some (Inl err, s')"
proof -
  let ?inner = "\<lambda>c t. chain (serverChain sv auth) c name h t"
  have outer: "chain (recover # serverChain sv auth) ctx name h s = recover ctx name ?inner s"
    using assms(2) by (simp add: chain_law_def around_def)
  note rec = assms(1) [unfolded recovery_law_def, THEN spec, of ctx, THEN spec, of name, THEN spec, of ?inner,
      THEN spec, of s]
  show ?thesis
  proof (cases "?inner ctx s")
    case None
    with rec have "\<exists>s'. recover ctx name ?inner s = Some (Inl internalError, s')" by simp
    then show ?thesis unfolding outer by blast
  next
    case (Some x)
    then obtain r s' where x: "?inner ctx s = Some (r, s')" by (cases x) auto
    with rec have "recover ctx name ?inner s = Some (r, s')" by simp
    moreover have "isl r" using mtls_required(2) [OF assms(2-7) x] .
    ultimately show ?thesis unfolding outer by (cases r) auto
  qed
qed

end

interpretation jwt_auth: auth_interceptor "jwtUnary mdl jx fmtF vs anon cfg"
  for mdl :: mdLib and jx :: "('ks, 'f) jwx" and fmtF :: "'f \<Rightarrow> string" and vs :: "('e, 'f) validatorFun list"
    and anon :: bool and cfg :: "propagateConfig option"
proof
  show "passes readyState (jwtUnary mdl jx fmtF vs anon cfg :: ('e, 'r) unaryInterceptor)
      (\<lambda>ctx s c t. rc_container c = rc_container ctx \<and> rc_peer c = rc_peer ctx \<and> wf_state t \<and>
         reservedClaims t = reservedClaims s \<and> rs_principal t \<noteq> None)"
    by (rule passes_weaken [OF jwtUnary_reserved]) simp
  show "denies (jwtUnary mdl jx fmtF vs anon cfg :: ('e, 'r) unaryInterceptor)"
    by (rule denies_runNext [OF jwtUnary_next])
qed

interpretation ref_auth: auth_interceptor "refUnary lib en (jwtUnary mdl jx fmtF vs anon cfg)"
  for lib :: "('e, 'g) refLib" and en :: "('e, 'g) engine" and mdl :: mdLib and jx :: "('ks, 'f) jwx"
    and fmtF :: "'f \<Rightarrow> string" and vs :: "('e, 'f) validatorFun list" and anon :: bool and cfg :: "propagateConfig option"
  by unfold_locales (rule refUnary_reserved, rule denies_refUnary, rule jwt_auth.auth_denies)

section \<open>The whole decision\<close>

lemma jwtDecision_globals:
  "rs_globals s = rs_globals t \<Longrightarrow> jwtDecision mdl jx fmtF vs anon ctx s = jwtDecision mdl jx fmtF vs anon ctx t"
  by (simp add: jwtDecision_def)

lemma gate_claims:
  assumes "built m" "rc_container c" "wf_state t" "rs_principal t \<noteq> None"
  shows "unaryGate m True c name h t =
    (if case facts_in m name of None \<Rightarrow> False | Some fs \<Rightarrow> \<forall>f \<in> set fs. fact_holds (state_claims t) f
     then h c t else Some (Inl permissionDenied, t))"
proof -
  obtain p where p: "rs_principal t = Some p" using assms(4) by blast
  then have w: "wf_principal p" "state_claims t = claim_set p" "requestPrincipal c t = p"
    using assms(2,3) by (simp_all add: wf_state_def state_claims_def requestPrincipal_def diPrincipal_def
        GetRequestContainer_def)
  show ?thesis
    by (cases "facts_in m name")
       (simp_all add: unaryGate_def authorize_built [OF assms(1)] w list_all_iff fact_HasClaim_iff [OF w(1)])
qed

text \<open>The state in front of the JWT interceptor: a fresh scope with the certificate's claims.\<close>

lemma before_jwt:
  assumes "chain_law chain" "ensureCorrelation (sv_newId sv) (ExtractIncoming ctx) = Some (md, ids)"
  shows "\<exists>t. readyState (SetRequestContainer (ToIncoming md ctx)) t \<and> rs_globals t = rs_globals s \<and>
    state_claims t = (case verifiedClientCert ctx of None \<Rightarrow> {} | Some cert \<Rightarrow> set (certClaims (sv_fingerprint sv) cert)) \<and>
    (\<forall>auth h. chain (serverChain sv auth) ctx name h s =
      map_option (\<lambda>(r, u). (r, closeScope s u))
        (auth (SetRequestContainer (ToIncoming md ctx)) name
          (\<lambda>c t. unaryGate (sv_entryMap sv) True c name h t) t))"
proof -
  let ?c = "SetRequestContainer (ToIncoming md ctx)"
  let ?s1 = "openScope True True s"
  define s2 where "s2 = (case getIncomingOriginContextJson (sv_md sv) (sv_unmarshal sv) ?c of
      Inr (Some obj) \<Rightarrow> setBag ?s1 (sv_origin sv) (BVObject obj) | _ \<Rightarrow> ?s1)"
  have s1: "readyState ?c ?s1" "state_claims ?s1 = {}" "rs_globals ?s1 = rs_globals s"
    by (simp_all add: openScope_def scope_simps wf_state_def state_claims_def wf_new claim_set_new)
  have s2: "readyState ?c s2" "state_claims s2 = {}" "rs_globals s2 = rs_globals s"
    using s1 by (auto simp: s2_def scope_simps split: sum.splits option.splits)
  have log: "EnsureContextLoggingUnary (sv_md sv) (sv_unmarshal sv) (sv_origin sv) ?c name k ?s1 = k ?c s2" for k
    using s1 by (auto simp: EnsureContextLoggingUnary_def s2_def diBag_def GetRequestContainer_def
        split: sum.splits option.splits)
  have cert: "verifiedClientCert ?c = verifiedClientCert ctx"
    by (simp add: verifiedClientCert_def scope_simps)
  have types: "{x \<in> set (certClaims fp cert). c_type x \<noteq> []} = set (certClaims fp cert)" for fp cert
    using certClaims_reserved [of _ fp cert] by blast
  obtain t where t: "addPeerCertClaims (sv_fingerprint sv) ?c s2 = Some t" "readyState ?c t"
    "rs_globals t = rs_globals s" "state_claims t =
      (case verifiedClientCert ctx of None \<Rightarrow> {} | Some cert \<Rightarrow> set (certClaims (sv_fingerprint sv) cert))"
    using s2 by (cases "verifiedClientCert ctx")
      (auto simp: addPeerCertClaims_eq cert scope_simps wf_addClaims claims_addClaims types)
  have "chain (serverChain sv auth) ctx name h s =
      map_option (\<lambda>(r, u). (r, closeScope s u)) (auth ?c name (\<lambda>c t. unaryGate (sv_entryMap sv) True c name h t) t)"
    for auth h
    using assms t(1)
    by (simp add: chain_law_def serverChain_def around_def EnsureOTELCorrelationIDUnary_def ScopedContextUnary_def
        log mtlsUnary_def split_beta)
  with t(2-4) show ?thesis by blast
qed

section \<open>A sample server\<close>

lemma foldr_chain: "chain_law (\<lambda>is. foldr around is (\<lambda>ctx name h s. h ctx s))"
  by (simp add: chain_law_def)

definition sampleRecover :: "(int, 'r) unaryInterceptor" where
  "sampleRecover ctx name h s = (case h ctx s of Some r \<Rightarrow> Some r | None \<Rightarrow> Some (Inl internalError, s))"

lemma sampleRecover_law: "recovery_law sampleRecover"
  by (simp add: recovery_law_def sampleRecover_def split: option.splits)

definition sampleServer :: server where
  "sampleServer =
    \<lparr>sv_newId = ''n'', sv_md = sampleMd, sv_unmarshal = (\<lambda>_. None), sv_origin = ''ctxOrigin'', sv_fingerprint = id,
     sv_entryMap = [(''/p.S/M'', Some (entry_of ''/p.S/M'' [NewClaimFactType ''mtls_verified'']))]\<rparr>"

definition sampleCert :: certificate where
  "sampleCert = \<lparr>ct_CommonName = ''cn'', ct_Raw = ''der'', ct_URIs = [''spiffe://a'']\<rparr>"

definition sampleTLSCtx :: reqContext where
  "sampleTLSCtx =
    \<lparr>rc_container = False, rc_metadata = None, rc_peer = Some (TLSInfo [[sampleCert]] [sampleCert])\<rparr>"

section \<open>Properties\<close>

text \<open>C1: a mutual TLS requirement cannot be met by a token. If a method was registered with a fact
  about an \<open>mtls_\<close> claim and the connection has no verified client certificate, then for every
  token, every validator and every resolver the request gets an error, with the JWT chain and with
  the reference token middleware in front of it, and the method's handler has no part in the result.\<close>

theorem mtls_requirement_enforced:
  assumes "chain_law chain" "recovery_law recover"
    and "build NewEntryPointClaimsBuilder calls = Some (sv_entryMap sv)" "required name None calls = Some fs"
    and "f \<in> set fs" "reserved (cf_claim f)" "verifiedClientCert ctx = None"
  shows "(\<exists>err s'. chain (otelUnaryServerOptions recover sv jx fmtF vs cfg) ctx name h s = Some (Inl err, s')) \<and>
    (\<exists>err s'. chain (recover # serverChain sv (refUnary lib en (jwtUnary (sv_md sv) jx fmtF vs False cfg)))
        ctx name h s = Some (Inl err, s')) \<and>
    chain (tl (otelUnaryServerOptions recover sv jx fmtF vs cfg)) ctx name h s =
      chain (tl (otelUnaryServerOptions recover sv jx fmtF vs cfg)) ctx name h' s"
proof -
  from build_refines [OF built_empty(1), of calls] assms(3,4)
  have m: "built (sv_entryMap sv)" "facts_in (sv_entryMap sv) name = Some fs" by (auto simp: built_empty(2))
  note args = m assms(5-7)
  show ?thesis
    unfolding otelUnaryServerOptions_def list.sel(3)
    by (intro conjI jwt_auth.mtls_required_recovered [OF assms(2,1) args]
        ref_auth.mtls_required_recovered [OF assms(2,1) args] jwt_auth.mtls_required(1) [OF assms(1) args])
qed

theorem mtls_requirement_enforced_witness:
  "\<exists>err s'. foldr around (otelUnaryServerOptions sampleRecover sampleServer sampleJwx (\<lambda>_. '''') sampleValidators None)
     (\<lambda>ctx name h s. h ctx s) sampleCtx ''/p.S/M'' (\<lambda>c t. Some (Inr (), t)) sampleState = Some (Inl err, s')"
proof -
  have "build NewEntryPointClaimsBuilder [Claims ''/p.S/M'' [NewClaimFactType ''mtls_verified'']] =
      Some (sv_entryMap sampleServer)"
    by (simp add: NewEntryPointClaimsBuilder_def WithGrpcEntrypointClams_def ensureEntry_def Let_def
        emptyAST_def entry_of_def AppendClaimsFact_def sampleServer_def)
  moreover have "required ''/p.S/M'' None [Claims ''/p.S/M'' [NewClaimFactType ''mtls_verified'']] =
      Some [NewClaimFactType ''mtls_verified'']" by simp
  moreover have "reserved (cf_claim (NewClaimFactType ''mtls_verified''))"
    by (simp add: NewClaimFactType_def reserved_def MTLSClaimTypePrefix_def)
  moreover have "verifiedClientCert sampleCtx = None" by (simp add: verifiedClientCert_def sampleCtx_def)
  ultimately show ?thesis
    using mtls_requirement_enforced [OF foldr_chain sampleRecover_law, where ctx = sampleCtx and name = "''/p.S/M''"
        and jx = sampleJwx and fmtF = "\<lambda>_. ''''" and vs = sampleValidators and cfg = None and s = sampleState
        and h = "\<lambda>c t. Some (Inr (), t)" and sv = sampleServer]
    by fastforce
qed

text \<open>C6: the decision of the whole chain. Let \<open>d\<close> be the decision of the JWT interceptor on the
  request. If it is an error, that error is the response. Otherwise the handler runs, once, in a
  new scope whose principal has exactly the claims of the verified certificate (if any) and the
  claims of the token (or the anonymous subject), if the method is registered and all facts required
  of it hold of these claims; in every other case the response is permission denied.\<close>

theorem server_decision:
  assumes "chain_law chain" "build NewEntryPointClaimsBuilder calls = Some (sv_entryMap sv)" "distinctTokens jx"
    and "ensureCorrelation (sv_newId sv) (ExtractIncoming ctx) = Some (md, ids)"
    and "c1 = SetRequestContainer (ToIncoming md ctx)"
    and "jwtDecision (sv_md sv) jx fmtF vs False c1 s = Some (d, g)"
    and "certs = (case verifiedClientCert ctx of None \<Rightarrow> {} | Some cert \<Rightarrow> set (certClaims (sv_fingerprint sv) cert))"
  shows "case d of
     Inl err \<Rightarrow> \<exists>s'. chain (tl (otelUnaryServerOptions recover sv jx fmtF vs cfg)) ctx name h s = Some (Inl err, s')
   | Inr cs \<Rightarrow> \<exists>t s'. state_claims t = certs \<union> cs \<and>
       chain (tl (otelUnaryServerOptions recover sv jx fmtF vs cfg)) ctx name h s =
         (if case required name None calls of None \<Rightarrow> False | Some fs \<Rightarrow> \<forall>f \<in> set fs. fact_holds (certs \<union> cs) f
          then map_option (\<lambda>(r, u). (r, closeScope s u)) (h c1 t)
          else Some (Inl permissionDenied, s'))"
proof -
  from build_refines [OF built_empty(1), of calls] assms(2)
  have m: "built (sv_entryMap sv)" "facts_in (sv_entryMap sv) name = required name None calls"
    by (auto simp: built_empty(2))
  obtain t where t: "readyState c1 t" "rs_globals t = rs_globals s" "state_claims t = certs"
    and run: "\<And>auth h. chain (serverChain sv auth) ctx name h s =
      map_option (\<lambda>(r, u). (r, closeScope s u)) (auth c1 name (\<lambda>c t. unaryGate (sv_entryMap sv) True c name h t) t)"
    using before_jwt [OF assms(1,4), of s name] unfolding assms(5,7) by blast
  have d: "jwtDecision (sv_md sv) jx fmtF vs False c1 t = Some (d, g)"
    unfolding jwtDecision_globals [OF t(2)] by (rule assms(6))
  have w: "wf_state t" "rc_container c1" "rs_principal t \<noteq> None" "rs_bag t \<noteq> None" using t(1) by simp_all
  note dec = jwtNext_decision [OF w d, of cfg]
  show ?thesis
  proof (cases d)
    case (Inl err)
    then show ?thesis using dec assms(3)
      by (simp add: otelUnaryServerOptions_def run jwtUnary_next distinctTokens_def)
  next
    case (Inr cs)
    then obtain u where u: "jwtNext (sv_md sv) jx fmtF vs False cfg c1 t = Some (Inr u)" "wf_state u"
      "state_claims u = certs \<union> cs" "rs_principal u \<noteq> None"
      using dec assms(3) t(3) by (auto simp: distinctTokens_def)
    show ?thesis unfolding Inr sum.case
      by (rule exI [of _ u], rule exI [of _ "closeScope s u"], cases "required name None calls")
         (simp_all add: otelUnaryServerOptions_def run jwtUnary_next u gate_claims [OF m(1) w(2) u(2,4)] m(2))
  qed
qed

theorem server_decision_witness:
  "\<exists>s'. foldr around (tl (otelUnaryServerOptions sampleRecover sampleServer sampleJwx (\<lambda>_. '''') sampleValidators None))
     (\<lambda>ctx name h s. h ctx s) sampleTLSCtx ''/p.S/M'' (\<lambda>c t. Some (Inr (state_claims t), t)) sampleState =
   Some (Inr (set (certClaims id sampleCert) \<union> {anonymousClaim}), s')"
proof -
  let ?calls = "[Claims ''/p.S/M'' [NewClaimFactType ''mtls_verified'']]"
  let ?md = "[(XCorrelationIDName, [''n''])]"
  let ?c1 = "SetRequestContainer (ToIncoming ?md sampleTLSCtx)"
  have b: "build NewEntryPointClaimsBuilder ?calls = Some (sv_entryMap sampleServer)"
    by (simp add: NewEntryPointClaimsBuilder_def WithGrpcEntrypointClams_def ensureEntry_def Let_def
        emptyAST_def entry_of_def AppendClaimsFact_def sampleServer_def)
  have c: "ensureCorrelation (sv_newId sampleServer) (ExtractIncoming sampleTLSCtx) = Some (?md, ''n'', ''0'')"
    by (simp add: ensureCorrelation_def ExtractIncoming_def sampleTLSCtx_def sampleServer_def)
  have d: "jwtDecision (sv_md sampleServer) sampleJwx (\<lambda>_. '''') sampleValidators False ?c1 sampleState =
      Some (Inr {anonymousClaim}, rs_globals sampleState)"
    by (simp add: jwtDecision_def validateRequest_def getTokenFromAuthorizationHeader_def sampleServer_def sampleMd_def
        scope_simps MetadataKeyAuthorization_def XCorrelationIDName_def errCode_def)
  have v: "set (certClaims id sampleCert) = (case verifiedClientCert sampleTLSCtx of None \<Rightarrow> {}
      | Some cert \<Rightarrow> set (certClaims (sv_fingerprint sampleServer) cert))"
    by (simp add: verifiedClientCert_def sampleTLSCtx_def sampleServer_def)
  have f: "fact_holds (set (certClaims id sampleCert) \<union> {anonymousClaim}) (NewClaimFactType ''mtls_verified'')"
    using bexI [OF _ UnI1 [OF verified_claim [of id sampleCert]],
        of "\<lambda>c. c_type c = ''mtls_verified''" "{anonymousClaim}"]
    by (simp add: fact_holds_def NewClaimFactType_def ClaimTypeMTLSVerified_def)
  have r: "(case required ''/p.S/M'' None ?calls of None \<Rightarrow> False
      | Some fs \<Rightarrow> \<forall>f \<in> set fs. fact_holds (set (certClaims id sampleCert) \<union> {anonymousClaim}) f) = True"
    using f by simp
  from server_decision [OF foldr_chain b sample_ready(2) c refl d v, where recover = sampleRecover and cfg = None
      and name = "''/p.S/M''" and h = "\<lambda>c t. Some (Inr (state_claims t), t)", unfolded sum.case r if_True]
  obtain t where "state_claims t = set (certClaims id sampleCert) \<union> {anonymousClaim}"
    "foldr around (tl (otelUnaryServerOptions sampleRecover sampleServer sampleJwx (\<lambda>_. '''') sampleValidators None))
      (\<lambda>ctx name h s. h ctx s) sampleTLSCtx ''/p.S/M'' (\<lambda>c t. Some (Inr (state_claims t), t)) sampleState =
     map_option (\<lambda>(r, u). (r, closeScope sampleState u)) (Some (Inr (state_claims t), t))"
    by (elim exE conjE)
  then show ?thesis by simp
qed

end
