(* ===== verification/CEF_Predicate.thy ===== *)
theory CEF_Predicate
  imports Prelude
begin

text \<open>
  \<open>cloudevent/cefilter/filter.go\<close>: the compiled predicates, their evaluation and printing, and
  the glob patterns of LIKE. Also \<open>FromCloudEvent\<close> of \<open>accessor.go\<close>. The regular expression a
  glob compiles to is kept as its list of items; \<open>rx_match\<close> is what Go's \<open>regexp\<close> does on it
  (a dot matches any character but a newline), and \<open>glob_spec\<close> says which strings that is.
\<close>

section \<open>Characters\<close>

abbreviation dquote :: char where "dquote \<equiv> CHR 0x22"
abbreviation squote :: char where "squote \<equiv> CHR 0x27"
abbreviation backslash :: char where "backslash \<equiv> CHR 0x5C"
abbreviation newline :: char where "newline \<equiv> CHR 0x0A"

text \<open>\<open>strconv.IsPrint\<close> up to U+00FF, and \<open>fmt\<close>'s \<^verbatim>\<open>%q\<close>.\<close>

definition isPrint :: "char \<Rightarrow> bool" where
  "isPrint c = (between 0x20 0x7E c \<or> between 0xA1 0xFF c \<and> of_char c \<noteq> (0xAD :: nat))"

definition hexDigit :: "nat \<Rightarrow> char" where
  "hexDigit n = ''0123456789abcdef'' ! n"

definition hex2 :: "nat \<Rightarrow> string" where
  "hex2 n = [hexDigit (n div 16), hexDigit (n mod 16)]"

definition quoteChar :: "char \<Rightarrow> string" where
  "quoteChar c =
    (let n = of_char c :: nat in
     if c = dquote \<or> c = backslash then [backslash, c]
     else if isPrint c then [c]
     else if n = 7 then [backslash, CHR ''a'']
     else if n = 8 then [backslash, CHR ''b'']
     else if n = 12 then [backslash, CHR ''f'']
     else if n = 10 then [backslash, CHR ''n'']
     else if n = 13 then [backslash, CHR ''r'']
     else if n = 9 then [backslash, CHR ''t'']
     else if n = 11 then [backslash, CHR ''v'']
     else if n < 0x80 then [backslash, CHR ''x''] @ hex2 n
     else [backslash, CHR ''u'', CHR ''0'', CHR ''0''] @ hex2 n)"

definition goQuote :: "string \<Rightarrow> string" where
  "goQuote s = [dquote] @ concat (map quoteChar s) @ [dquote]"

section \<open>Globs\<close>

datatype rxItem = RxAny | RxOne | RxChar char

type_synonym regexp = "rxItem list"

definition globItem :: "char \<Rightarrow> rxItem" where
  "globItem ch =
    (if ch = CHR ''*'' then RxAny else if ch = CHR ''?'' then RxOne else RxChar ch)"

definition globToRegexp :: "string \<Rightarrow> regexp" where
  "globToRegexp pattern = map globItem pattern"

fun rx_match :: "regexp \<Rightarrow> string \<Rightarrow> bool" where
  "rx_match [] s = (s = [])"
| "rx_match (RxAny # rx) s =
    (rx_match rx s \<or> (case s of [] \<Rightarrow> False | c # cs \<Rightarrow> c \<noteq> newline \<and> rx_match (RxAny # rx) cs))"
| "rx_match (RxOne # rx) s = (case s of [] \<Rightarrow> False | c # cs \<Rightarrow> c \<noteq> newline \<and> rx_match rx cs)"
| "rx_match (RxChar d # rx) s = (case s of [] \<Rightarrow> False | c # cs \<Rightarrow> c = d \<and> rx_match rx cs)"

text \<open>The language of a glob, piece by piece.\<close>

definition piece :: "char \<Rightarrow> string \<Rightarrow> bool" where
  "piece ch w =
    (if ch = CHR ''*'' then newline \<notin> set w
     else if ch = CHR ''?'' then (\<exists>c. w = [c] \<and> c \<noteq> newline)
     else w = [ch])"

definition glob_spec :: "string \<Rightarrow> string \<Rightarrow> bool" where
  "glob_spec pattern v \<longleftrightarrow> (\<exists>ws. concat ws = v \<and> list_all2 piece pattern ws)"

section \<open>Predicates\<close>

type_synonym attrs = "(string, string) gomap"

datatype predicate =
    EqPred string string
  | NePred string string
  | LikePred string string regexp
  | InPred string "string list" string
  | ExistsPred string
  | AndPred predicate predicate
  | OrPred predicate predicate
  | NotPred predicate

fun pmatch :: "predicate \<Rightarrow> attrs \<Rightarrow> bool" where
  "pmatch (EqPred key val) a = (case mget a key of None \<Rightarrow> False | Some v \<Rightarrow> v = val)"
| "pmatch (NePred key val) a = (case mget a key of None \<Rightarrow> True | Some v \<Rightarrow> v \<noteq> val)"
| "pmatch (LikePred key pattern rx) a = (case mget a key of None \<Rightarrow> False | Some v \<Rightarrow> rx_match rx v)"
| "pmatch (InPred key vals repr) a = (case mget a key of None \<Rightarrow> False | Some v \<Rightarrow> v \<in> set vals)"
| "pmatch (ExistsPred key) a = mhas a key"
| "pmatch (AndPred l r) a = (pmatch l a \<and> pmatch r a)"
| "pmatch (OrPred l r) a = (pmatch l a \<or> pmatch r a)"
| "pmatch (NotPred p) a = (\<not> pmatch p a)"

fun pstring :: "predicate \<Rightarrow> string" where
  "pstring (EqPred key val) = key @ '' = '' @ goQuote val"
| "pstring (NePred key val) = key @ '' != '' @ goQuote val"
| "pstring (LikePred key pattern rx) = key @ '' LIKE '' @ goQuote pattern"
| "pstring (InPred key vals repr) = key @ '' IN ('' @ repr @ '')''"
| "pstring (ExistsPred key) = ''EXISTS '' @ key"
| "pstring (AndPred l r) = ''('' @ pstring l @ '' AND '' @ pstring r @ '')''"
| "pstring (OrPred l r) = ''('' @ pstring l @ '' OR '' @ pstring r @ '')''"
| "pstring (NotPred p) = ''NOT '' @ pstring p"

section \<open>Attributes of an event\<close>

text \<open>
  \<open>CloudEventAccessor\<close> as the values its getters return; extension values are rendered by
  \<open>fmt.Sprintf\<close>, the parameter \<open>fmtV\<close>.
\<close>

record 'v cloudEvent =
  ce_Type :: string
  ce_Source :: string
  ce_Subject :: string
  ce_ID :: string
  ce_Extensions :: "(string, 'v) gomap"

definition FromCloudEvent :: "('v \<Rightarrow> string) \<Rightarrow> 'v cloudEvent \<Rightarrow> attrs" where
  "FromCloudEvent fmtV e =
    (let a = [(''type'', ce_Type e), (''source'', ce_Source e), (''id'', ce_ID e)];
         a = (if ce_Subject e \<noteq> '''' then mput ''subject'' (ce_Subject e) a else a)
     in fold (\<lambda>(k, v) a. mput k (fmtV v) a) (ce_Extensions e) a)"

definition FromSDKEvent :: "('v \<Rightarrow> string) \<Rightarrow> 'v cloudEvent \<Rightarrow> attrs" where
  "FromSDKEvent fmtV e = FromCloudEvent fmtV e"

section \<open>Lemmas\<close>

lemma ex_append_Cons:
  "(\<exists>u v. c # s = u @ v \<and> P u v) \<longleftrightarrow> P [] (c # s) \<or> (\<exists>u v. s = u @ v \<and> P (c # u) v)"
  unfolding Cons_eq_append_conv by blast

lemma rx_match_any:
  "rx_match (RxAny # rx) s \<longleftrightarrow> (\<exists>u v. s = u @ v \<and> newline \<notin> set u \<and> rx_match rx v)"
proof (induction s)
  case (Cons c s)
  show ?case unfolding ex_append_Cons [of c s "\<lambda>u v. newline \<notin> set u \<and> rx_match rx v"]
    using Cons by auto
qed simp

lemma rx_match_one: "rx_match (RxOne # rx) s \<longleftrightarrow> (\<exists>c v. s = c # v \<and> c \<noteq> newline \<and> rx_match rx v)"
  by (cases s) auto

lemma rx_match_char: "rx_match (RxChar d # rx) s \<longleftrightarrow> (\<exists>v. s = d # v \<and> rx_match rx v)"
  by (cases s) auto

lemma rx_match_item:
  "rx_match (globItem ch # rx) s \<longleftrightarrow> (\<exists>u v. s = u @ v \<and> piece ch u \<and> rx_match rx v)"
proof -
  consider "ch = CHR ''*''" | "ch = CHR ''?''" | "ch \<noteq> CHR ''*''" "ch \<noteq> CHR ''?''" by blast
  then show ?thesis
  proof cases
    case 1
    then show ?thesis unfolding globItem_def piece_def by (simp only: rx_match_any simp_thms if_True)
  next
    case 2
    then have "globItem ch = RxOne" "piece ch u \<longleftrightarrow> (\<exists>c. u = [c] \<and> c \<noteq> newline)" for u
      by (simp_all add: globItem_def piece_def)
    moreover have "(\<exists>u v. s = u @ v \<and> (\<exists>c. u = [c] \<and> c \<noteq> newline) \<and> rx_match rx v) \<longleftrightarrow>
        (\<exists>c v. s = [c] @ v \<and> c \<noteq> newline \<and> rx_match rx v)" by blast
    ultimately show ?thesis by (simp only: rx_match_one append_Cons append_Nil)
  next
    case 3
    then show ?thesis unfolding globItem_def piece_def
      by (simp add: rx_match_char del: rx_match.simps)
  qed
qed

lemma glob_spec_Cons:
  "glob_spec (ch # p) s \<longleftrightarrow> (\<exists>u v. s = u @ v \<and> piece ch u \<and> glob_spec p v)"
  unfolding glob_spec_def list_all2_Cons1 by (metis concat.simps(2))

lemma glob_correct: "rx_match (globToRegexp p) s \<longleftrightarrow> glob_spec p s"
proof (induction p arbitrary: s)
  case Nil
  then show ?case by (auto simp: globToRegexp_def glob_spec_def)
next
  case (Cons ch p)
  have "rx_match (globToRegexp (ch # p)) s \<longleftrightarrow>
      (\<exists>u v. s = u @ v \<and> piece ch u \<and> rx_match (globToRegexp p) v)"
    unfolding globToRegexp_def list.map by (rule rx_match_item)
  with Cons show ?case by (simp add: glob_spec_Cons)
qed

lemma mget_FromExtensions:
  "wf_map es \<Longrightarrow> mget (fold (\<lambda>(k, v) a. mput k (f v) a) es a) k =
     (case mget es k of None \<Rightarrow> mget a k | Some v \<Rightarrow> Some (f v))"
proof (induction es arbitrary: a)
  case (Cons e es)
  have "mget es (fst e) = None" using Cons.prems by (simp add: map_of_eq_None_iff)
  with Cons show ?case by (cases e) (auto simp: gomap split: option.splits)
qed simp

lemma mget_FromCloudEvent:
  assumes "wf_map (ce_Extensions e)"
  shows "mget (FromCloudEvent fmtV e) k =
    (case mget (ce_Extensions e) k of
       Some v \<Rightarrow> Some (fmtV v)
     | None \<Rightarrow>
         (if k = ''type'' then Some (ce_Type e)
          else if k = ''source'' then Some (ce_Source e)
          else if k = ''id'' then Some (ce_ID e)
          else if k = ''subject'' \<and> ce_Subject e \<noteq> '''' then Some (ce_Subject e)
          else None))"
  by (simp add: FromCloudEvent_def Let_def mget_FromExtensions [OF assms] gomap split: option.splits)

section \<open>Properties\<close>


text \<open>the attributes of an event: an extension's rendered value for an extension name (also when
  it is the name of a standard attribute), else the standard attribute, the subject only when it is not
  empty, and nothing else.\<close>

theorem event_attributes:
  assumes "wf_map (ce_Extensions e)"
  shows "mget (FromSDKEvent fmtV e) k =
    (case mget (ce_Extensions e) k of
       Some v \<Rightarrow> Some (fmtV v)
     | None \<Rightarrow> mget ([(''type'', ce_Type e), (''source'', ce_Source e), (''id'', ce_ID e)] @
         (if ce_Subject e = '''' then [] else [(''subject'', ce_Subject e)])) k)"
  using mget_FromCloudEvent [OF assms] by (simp add: FromSDKEvent_def split: option.split)

theorem event_attributes_witness:
  "mget (FromSDKEvent id \<lparr>ce_Type = ''t'', ce_Source = ''s'', ce_Subject = '''', ce_ID = ''1'',
     ce_Extensions = [(''type'', ''x'')]\<rparr>) ''type'' = Some ''x''"
  using event_attributes [of "\<lparr>ce_Type = ''t'', ce_Source = ''s'', ce_Subject = '''', ce_ID = ''1'',
     ce_Extensions = [(''type'', ''x'')]\<rparr>" id "''type''"] by simp

end
