(* ===== verification/CEF_Lexer.thy ===== *)
theory CEF_Lexer
  imports CEF_Predicate
begin

text \<open>
  \<open>cloudevent/cefilter/lexer.go\<close>. The lexer state (input and position) is the remaining
  input together with the position it starts at; \<open>tokenize\<close> returns the tokens it emits, in
  order, or the error it stops at. Characters are classified as Go's \<open>unicode\<close> package
  does up to U+00FF.
\<close>

section \<open>Tokens\<close>

datatype tokenKind =
    TokEOF | TokIdent | TokString | TokEq | TokNe | TokLike | TokIn | TokExists
  | TokAnd | TokOr | TokNot | TokLParen | TokRParen | TokComma

record token =
  tk_kind :: tokenKind
  tk_val :: string
  tk_pos :: nat

abbreviation mk_token :: "tokenKind \<Rightarrow> string \<Rightarrow> nat \<Rightarrow> token" where
  "mk_token k v p \<equiv> \<lparr>tk_kind = k, tk_val = v, tk_pos = p\<rparr>"

definition token_String :: "token \<Rightarrow> string" where
  "token_String t =
    (case tk_kind t of
       TokEOF \<Rightarrow> ''<EOF>''
     | TokIdent \<Rightarrow> ''IDENT('' @ tk_val t @ '')''
     | TokString \<Rightarrow> ''STRING('' @ goQuote (tk_val t) @ '')''
     | _ \<Rightarrow> tk_val t)"

text \<open>An unexpected character at a position, or an unterminated string with the position reported.\<close>

datatype lexError = UnexpectedChar char nat | UnterminatedString nat

section \<open>Character classes\<close>

definition isLetter :: "char \<Rightarrow> bool" where
  "isLetter c =
    (between 65 90 c \<or> between 97 122 c \<or> of_char c = (0xAA :: nat) \<or> of_char c = (0xB5 :: nat) \<or>
     of_char c = (0xBA :: nat) \<or> between 0xC0 0xD6 c \<or> between 0xD8 0xF6 c \<or> between 0xF8 0xFF c)"

definition isDigit :: "char \<Rightarrow> bool" where
  "isDigit c = between 48 57 c"

definition isSpace :: "char \<Rightarrow> bool" where
  "isSpace c =
    (between 9 13 c \<or> of_char c = (32 :: nat) \<or> of_char c = (0x85 :: nat) \<or> of_char c = (0xA0 :: nat))"

definition wordStart :: "char \<Rightarrow> bool" where
  "wordStart c = (isLetter c \<or> c = CHR ''_'')"

definition wordChar :: "char \<Rightarrow> bool" where
  "wordChar c = (isLetter c \<or> isDigit c \<or> c = CHR ''_'' \<or> c = CHR ''-'' \<or> c = CHR ''.'')"

section \<open>The lexer\<close>

definition readWord :: "string \<Rightarrow> string \<times> string" where
  "readWord s = (takeWhile wordChar s, dropWhile wordChar s)"

text \<open>After the opening quote: the contents and what follows the closing quote.\<close>

fun readString :: "char \<Rightarrow> string \<Rightarrow> (string \<times> string) option" where
  "readString quote [] = None"
| "readString quote [c] = (if c = quote then Some ([], []) else None)"
| "readString quote (c # d # cs) =
    (if c = quote then Some ([], d # cs)
     else if c = backslash then map_option (\<lambda>(v, r). (d # v, r)) (readString quote cs)
     else map_option (\<lambda>(v, r). (c # v, r)) (readString quote (d # cs)))"

definition emitWord :: "string \<Rightarrow> nat \<Rightarrow> token" where
  "emitWord word pos =
    (let w = map ascii_upper word in
     if w = ''AND'' then mk_token TokAnd ''AND'' pos
     else if w = ''OR'' then mk_token TokOr ''OR'' pos
     else if w = ''NOT'' then mk_token TokNot ''NOT'' pos
     else if w = ''LIKE'' then mk_token TokLike ''LIKE'' pos
     else if w = ''IN'' then mk_token TokIn ''IN'' pos
     else if w = ''EXISTS'' then mk_token TokExists ''EXISTS'' pos
     else mk_token TokIdent word pos)"

definition lexPeek :: "string \<Rightarrow> char" where
  "lexPeek s = (case s of [] \<Rightarrow> CHR 0x00 | c # _ \<Rightarrow> c)"

definition skipWhitespace :: "nat \<Rightarrow> string \<Rightarrow> nat \<times> string" where
  "skipWhitespace pos s = (pos + length (takeWhile isSpace s), dropWhile isSpace s)"

text \<open>
  The switch of \<open>tokenize\<close> on the character at \<open>start\<close>: the token it emits, the position
  and the input after it.
\<close>

definition nextToken :: "nat \<Rightarrow> char \<Rightarrow> string \<Rightarrow> lexError + token \<times> nat \<times> string" where
  "nextToken start ch rest =
    (if ch = CHR ''('' then Inr (mk_token TokLParen ''('' start, start + 1, rest)
     else if ch = CHR '')'' then Inr (mk_token TokRParen '')'' start, start + 1, rest)
     else if ch = CHR '','' then Inr (mk_token TokComma '','' start, start + 1, rest)
     else if ch = CHR ''!'' \<and> lexPeek rest = CHR ''='' then
       Inr (mk_token TokNe ''!='' start, start + 2, tl rest)
     else if ch = CHR ''='' then Inr (mk_token TokEq ''='' start, start + 1, rest)
     else if ch = dquote \<or> ch = squote then
       (case readString ch rest of
          None \<Rightarrow> Inl (UnterminatedString (start + 1 + length rest))
        | Some (v, r) \<Rightarrow> Inr (mk_token TokString v start, start + 1 + (length rest - length r), r))
     else if wordStart ch then
       (case readWord (ch # rest) of (word, r) \<Rightarrow> Inr (emitWord word start, start + length word, r))
     else Inl (UnexpectedChar ch start))"

lemma readString_length: "readString q s = Some (v, r) \<Longrightarrow> length r < length s"
  by (induction q s arbitrary: v r rule: readString.induct) (auto split: if_splits)

lemma readWord_length:
  assumes "wordStart ch" and "readWord (ch # rest) = (w, r)"
  shows "length w + length r = Suc (length rest)" and "0 < length w"
proof -
  have "wordChar ch" using assms(1) by (auto simp: wordStart_def wordChar_def)
  then show "0 < length w" using assms(2) by (auto simp: readWord_def)
  show "length w + length r = Suc (length rest)"
    using assms(2) takeWhile_dropWhile_id [of wordChar "ch # rest"]
    by (metis Pair_inject length_Cons length_append readWord_def)
qed

lemma lexPeek_eq: "lexPeek s = c \<Longrightarrow> c \<noteq> CHR 0x00 \<Longrightarrow> s = c # tl s"
  by (cases s) (auto simp: lexPeek_def)

text \<open>A token starts where the switch is entered, is not EOF, and consumes at least a character.\<close>

lemma emitWord_simps [simp]: "tk_pos (emitWord w n) = n" "tk_kind (emitWord w n) \<noteq> TokEOF"
  by (simp_all add: emitWord_def Let_def)

lemma nextToken_Inr:
  assumes "nextToken start ch rest = Inr (t, p, r)"
  shows "tk_pos t = start \<and> tk_kind t \<noteq> TokEOF \<and> start < p \<and> p + length r = start + Suc (length rest)"
proof -
  have peek: "rest \<noteq> []" if "lexPeek rest = CHR ''=''"
    using lexPeek_eq [OF that] by auto
  show ?thesis
    using assms peek readString_length [of ch rest] readWord_length [of ch rest]
    unfolding nextToken_def
    by (simp split: if_split_asm option.split_asm prod.split_asm; force)
qed

function tokenize :: "nat \<Rightarrow> string \<Rightarrow> lexError + token list" where
  "tokenize pos s =
    (case skipWhitespace pos s of
       (start, []) \<Rightarrow> Inr [mk_token TokEOF '''' start]
     | (start, ch # rest) \<Rightarrow>
         bindR (nextToken start ch rest)
           (\<lambda>(t, p, r). bindR (tokenize p r) (\<lambda>ts. Inr (t # ts))))"
  by pat_completeness auto
termination
proof (relation "measure (\<lambda>(pos, s). length s)", goal_cases)
  case (2 pos s start s' ch rest y t z p r)
  then have "length (ch # rest) \<le> length s"
    by (metis Pair_inject length_dropWhile_le skipWhitespace_def)
  with 2 nextToken_Inr [of start ch rest t p r] show ?case by (cases z) auto
qed simp

declare tokenize.simps [simp del]

definition lex :: "string \<Rightarrow> lexError + token list" where
  "lex input = tokenize 0 input"

section \<open>Positions\<close>

lemma skipWhitespace_length:
  "skipWhitespace pos s = (start, s') \<Longrightarrow> start + length s' = pos + length s \<and> pos \<le> start"
  by (auto simp: skipWhitespace_def simp flip: length_append)

definition well_placed :: "nat \<Rightarrow> nat \<Rightarrow> token list \<Rightarrow> bool" where
  "well_placed lo hi ts \<longleftrightarrow>
    ts \<noteq> [] \<and> last ts = mk_token TokEOF '''' hi \<and>
    (\<forall>t \<in> set (butlast ts). tk_kind t \<noteq> TokEOF) \<and>
    sorted_wrt (<) (map tk_pos ts) \<and> (\<forall>t \<in> set ts. lo \<le> tk_pos t \<and> tk_pos t \<le> hi)"

lemma well_placed_Cons:
  assumes "well_placed p hi ts" and "tk_pos t < p" and "tk_kind t \<noteq> TokEOF" and "lo \<le> tk_pos t"
  shows "well_placed lo hi (t # ts)"
  using assms by (auto simp: well_placed_def neq_Nil_conv)

lemma tokenize_placed:
  "tokenize pos s = Inr ts \<Longrightarrow> well_placed pos (pos + length s) ts"
proof (induction pos s arbitrary: ts rule: tokenize.induct)
  case (1 pos s)
  obtain start s' where sk: "skipWhitespace pos s = (start, s')" by fastforce
  note len = skipWhitespace_length [OF sk]
  show ?case
  proof (cases s')
    case Nil
    with sk len 1 show ?thesis by (auto simp: tokenize.simps [of pos s] well_placed_def)
  next
    case (Cons ch rest)
    with sk "1.prems" obtain t p r ts' where nt: "nextToken start ch rest = Inr (t, p, r)"
      and ts': "tokenize p r = Inr ts'" "ts = t # ts'"
      by (auto simp: tokenize.simps [of pos s] bindR_eq_Inr)
    have "well_placed p (p + length r) ts'"
      using "1.IH" [OF sk [symmetric] Cons nt refl refl ts'(1)] .
    moreover have "p + length r = pos + length s" using nextToken_Inr [OF nt] len Cons by simp
    ultimately show ?thesis
      using nextToken_Inr [OF nt] len ts'(2) by (auto intro: well_placed_Cons)
  qed
qed

lemma nextToken_Inl:
  "nextToken start ch rest = Inl e \<Longrightarrow>
     e = UnterminatedString (start + Suc (length rest)) \<or> e = UnexpectedChar ch start"
  by (auto simp: nextToken_def split: if_split_asm option.split_asm prod.split_asm)

lemma tokenize_error:
  "tokenize pos s = Inl (UnterminatedString n) \<Longrightarrow> n = pos + length s"
proof (induction pos s rule: tokenize.induct)
  case (1 pos s)
  obtain start s' where sk: "skipWhitespace pos s = (start, s')" by fastforce
  note len = skipWhitespace_length [OF sk]
  show ?case
  proof (cases s')
    case (Cons ch rest)
    show ?thesis
    proof (cases "nextToken start ch rest")
      case (Inl e)
      with sk Cons "1.prems" nextToken_Inl [OF Inl] len show ?thesis
        by (simp add: tokenize.simps [of pos s])
    next
      case (Inr y)
      obtain t p r where y: "y = (t, p, r)" by (cases y)
      with Inr sk Cons "1.prems" have "tokenize p r = Inl (UnterminatedString n)"
        by (simp add: tokenize.simps [of pos s] bindR_eq_Inl)
      from "1.IH" [OF sk [symmetric] Cons Inr y [symmetric] refl this] nextToken_Inr [OF Inr [unfolded y]] len Cons
      show ?thesis by simp
    qed
  qed (use sk "1.prems" in \<open>simp add: tokenize.simps [of pos s]\<close>)
qed

section \<open>Tokens without positions\<close>

definition kv :: "token \<Rightarrow> tokenKind \<times> string" where
  "kv t = (tk_kind t, tk_val t)"

lemma kv_mk_token [simp]: "kv (mk_token k v p) = (k, v)"
  by (simp add: kv_def)

text \<open>\<open>lexes s K\<close>: from any position, the input \<open>s\<close> yields the tokens \<open>K\<close>, EOF included.\<close>

definition lexes :: "string \<Rightarrow> (tokenKind \<times> string) list \<Rightarrow> bool" where
  "lexes s K \<longleftrightarrow> (\<forall>pos. \<exists>ts. tokenize pos s = Inr ts \<and> map kv ts = K)"

definition wordTok :: "string \<Rightarrow> tokenKind \<times> string" where
  "wordTok w = kv (emitWord w 0)"

lemma kv_emitWord [simp]: "kv (emitWord w n) = wordTok w"
  by (simp add: wordTok_def kv_def emitWord_def Let_def)

lemma lexes_empty: "lexes [] [(TokEOF, [])]"
  by (simp add: lexes_def tokenize.simps [of _ "[]"] skipWhitespace_def)

lemma tokenize_space: "isSpace c \<Longrightarrow> tokenize pos (c # s) = tokenize (pos + 1) s"
  by (simp add: tokenize.simps [of pos "c # s"] tokenize.simps [of "Suc pos" s] skipWhitespace_def)

lemma lexes_space: "isSpace c \<Longrightarrow> lexes s K \<Longrightarrow> lexes (c # s) K"
  by (simp add: lexes_def tokenize_space)

lemma tokenize_cons:
  "tokenize pos (c # s) =
    (if isSpace c then tokenize (pos + 1) s
     else bindR (nextToken pos c s) (\<lambda>(t, p, r). bindR (tokenize p r) (\<lambda>ts. Inr (t # ts))))"
proof (cases "isSpace c")
  case False
  then show ?thesis by (simp add: tokenize.simps [of pos "c # s"] skipWhitespace_def)
qed (simp add: tokenize_space)

lemma tokenize_nil: "tokenize pos [] = Inr [mk_token TokEOF [] pos]"
  by (simp add: tokenize.simps [of pos "[]"] skipWhitespace_def)

lemmas lex_eval = lex_def tokenize_cons tokenize_nil nextToken_def isSpace_def lexPeek_def
  wordStart_def wordChar_def isLetter_def isDigit_def readWord_def emitWord_def Let_def ascii_upper_def

lemma lexes_token:
  assumes "\<not> isSpace c" and "\<And>pos. \<exists>t p. nextToken pos c s = Inr (t, p, r) \<and> kv t = k"
    and "lexes r K"
  shows "lexes (c # s) (k # K)"
  unfolding lexes_def
proof
  fix pos
  obtain t p where "nextToken pos c s = Inr (t, p, r)" "kv t = k" using assms(2) by blast
  moreover obtain ts where "tokenize p r = Inr ts" "map kv ts = K"
    using assms(3) by (auto simp: lexes_def)
  ultimately show "\<exists>ts. tokenize pos (c # s) = Inr ts \<and> map kv ts = k # K"
    using assms(1) by (simp add: tokenize.simps [of pos "c # s"] skipWhitespace_def)
qed

lemma lexes_punct:
  "lexes s K \<Longrightarrow> lexes (CHR ''('' # s) ((TokLParen, ''('') # K)"
  "lexes s K \<Longrightarrow> lexes (CHR '')'' # s) ((TokRParen, '')'') # K)"
  "lexes s K \<Longrightarrow> lexes (CHR '','' # s) ((TokComma, '','') # K)"
  "lexes s K \<Longrightarrow> lexes (CHR ''='' # s) ((TokEq, ''='') # K)"
  "lexes s K \<Longrightarrow> lexes (CHR ''!'' # CHR ''='' # s) ((TokNe, ''!='') # K)"
  by (rule lexes_token [where r = s]; simp add: nextToken_def isSpace_def lexPeek_def)+

definition isWord :: "string \<Rightarrow> bool" where
  "isWord w \<longleftrightarrow> w \<noteq> [] \<and> wordStart (hd w) \<and> list_all wordChar w"

text \<open>What may follow a word without being read as part of it.\<close>

definition boundary :: "string \<Rightarrow> bool" where
  "boundary s \<longleftrightarrow> s = [] \<or> \<not> wordChar (hd s)"

lemma wordStart_other:
  "wordStart c \<Longrightarrow> \<not> isSpace c \<and> c \<noteq> CHR ''('' \<and> c \<noteq> CHR '')'' \<and> c \<noteq> CHR '','' \<and>
     c \<noteq> CHR ''!'' \<and> c \<noteq> CHR ''='' \<and> c \<noteq> dquote \<and> c \<noteq> squote"
  by (auto simp: wordStart_def isLetter_def isSpace_def)

lemma readWord_boundary:
  "list_all wordChar w \<Longrightarrow> boundary s \<Longrightarrow> readWord (w @ s) = (w, s)"
  by (cases s) (auto simp: readWord_def boundary_def list_all_iff)

lemma lexes_word:
  assumes "isWord w" and "boundary s" and "lexes s K"
  shows "lexes (w @ s) (wordTok w # K)"
proof (cases w)
  case (Cons c cs)
  with assms(1) have c: "wordStart c" "list_all wordChar w" by (simp_all add: isWord_def)
  have "readWord (c # (cs @ s)) = (w, s)" using readWord_boundary [OF c(2) assms(2)] Cons by simp
  then have "nextToken pos c (cs @ s) = Inr (emitWord w pos, pos + length w, s)" for pos
    using wordStart_other [OF c(1)] c(1) by (simp add: nextToken_def)
  then show ?thesis unfolding Cons append_Cons
    using wordStart_other [OF c(1)] assms(3) Cons by (intro lexes_token) auto
qed (use assms in \<open>simp add: isWord_def\<close>)

lemma readString_char:
  "c \<noteq> q \<Longrightarrow> c \<noteq> backslash \<Longrightarrow> s \<noteq> [] \<Longrightarrow>
     readString q (c # s) = map_option (\<lambda>(v, r). (c # v, r)) (readString q s)"
  by (cases s) auto

lemma readString_quoted:
  "list_all isPrint v \<Longrightarrow> readString dquote (concat (map quoteChar v) @ dquote # s) = Some (v, s)"
proof (induction v)
  case Nil
  then show ?case by (cases s) auto
next
  case (Cons c v)
  then show ?case
    by (cases "c = dquote \<or> c = backslash")
      (auto simp: quoteChar_def readString_char)
qed

lemma lexes_quote:
  assumes "list_all isPrint v" and "lexes s K"
  shows "lexes (goQuote v @ s) ((TokString, v) # K)"
proof -
  have "\<exists>t p. nextToken pos dquote (concat (map quoteChar v) @ dquote # s) = Inr (t, p, s) \<and>
      kv t = (TokString, v)" for pos
    by (simp add: nextToken_def readString_quoted [OF assms(1)])
  then have "lexes (dquote # (concat (map quoteChar v) @ dquote # s)) ((TokString, v) # K)"
    using assms(2) by (intro lexes_token) (auto simp: isSpace_def)
  then show ?thesis by (simp add: goQuote_def)
qed

lemma boundary_simps [simp]:
  "boundary []" "boundary (CHR '' '' # s)" "boundary (CHR '')'' # s)"
  by (simp_all add: boundary_def wordChar_def isLetter_def isDigit_def)

lemma lexes_blank [intro]: "lexes s K \<Longrightarrow> lexes (CHR '' '' # s) K"
  by (rule lexes_space) (simp add: isSpace_def)

lemma reserved_words:
  "isWord ''AND''" "isWord ''OR''" "isWord ''NOT''" "isWord ''LIKE''" "isWord ''IN''" "isWord ''EXISTS''"
  "wordTok ''AND'' = (TokAnd, ''AND'')" "wordTok ''OR'' = (TokOr, ''OR'')"
  "wordTok ''NOT'' = (TokNot, ''NOT'')" "wordTok ''LIKE'' = (TokLike, ''LIKE'')"
  "wordTok ''IN'' = (TokIn, ''IN'')" "wordTok ''EXISTS'' = (TokExists, ''EXISTS'')"
  by (simp_all add: isWord_def wordStart_def wordChar_def isLetter_def wordTok_def emitWord_def
      ascii_upper_def)

lemmas lexes_keyword = lexes_word [OF reserved_words(1), unfolded reserved_words]
  lexes_word [OF reserved_words(2), unfolded reserved_words] lexes_word [OF reserved_words(3), unfolded reserved_words]
  lexes_word [OF reserved_words(4), unfolded reserved_words] lexes_word [OF reserved_words(5), unfolded reserved_words]
  lexes_word [OF reserved_words(6), unfolded reserved_words]

section \<open>Properties\<close>

text \<open>the lexer is total, and the tokens it returns are well placed: the positions increase
  strictly and lie in the input, and there is exactly one EOF token, the last, at the end of the
  input.\<close>

theorem lex_well_placed:
  assumes "lex s = Inr ts"
  shows "well_placed 0 (length s) ts"
  using tokenize_placed [of 0 s ts] assms by (simp add: lex_def)

theorem lex_well_placed_witness:
  "well_placed 0 11 [mk_token TokIdent ''a'' 0, mk_token TokNe ''!='' 2,
     mk_token TokString [CHR ''x'', dquote, CHR ''y''] 5, mk_token TokEOF '''' 11]"
proof -
  let ?s = "''a != '' @ [dquote, CHR ''x'', backslash, dquote, CHR ''y'', dquote]"
  have "lex ?s = Inr [mk_token TokIdent ''a'' 0, mk_token TokNe ''!='' 2,
      mk_token TokString [CHR ''x'', dquote, CHR ''y''] 5, mk_token TokEOF '''' 11]"
    by (simp add: lex_eval)
  from lex_well_placed [OF this] show ?thesis by (simp add: numeral_eq_Suc)
qed

text \<open>the position in the "unterminated string starting at position" error is always the
  length of the input, never the position of the opening quote.\<close>

theorem unterminated_reports_end:
  assumes "lex s = Inl (UnterminatedString n)"
  shows "n = length s"
  using tokenize_error [of 0 s n] assms by (simp add: lex_def)

theorem unterminated_reports_end_witness:
  "lex (''a = '' @ [dquote] @ ''xyz'') = Inl (UnterminatedString 8) \<and> (8 :: nat) = length (''a = '' @ [dquote] @ ''xyz'')"
proof -
  have "lex (''a = '' @ [dquote] @ ''xyz'') = Inl (UnterminatedString 8)" by (simp add: lex_eval)
  with unterminated_reports_end [OF this] show ?thesis by simp
qed

end
