(* ===== verification/CEF_Parser.thy ===== *)
theory CEF_Parser
  imports CEF_Lexer
begin

text \<open>
  \<open>cloudevent/cefilter/parser.go\<close>: the recursive descent parser on the tokens that remain,
  with fuel for its mutual recursion. \<open>Parse\<close> gives it enough (\<open>enough_fuel\<close>). The
  relations \<open>gOr\<close>, \<open>gAnd\<close>, \<open>gNot\<close> and \<open>gPrimary\<close> are the grammar of the comment of \<open>Parse\<close>, with the
  predicate each phrase stands for; the parser accepts exactly the phrases of the grammar.
\<close>

section \<open>The parser\<close>

datatype parseError =
    LexError lexError
  | UnexpectedToken token
  | Expected string token
  | ExpectedOperator string token
  | OutOfFuel

type_synonym 'a parsed = "parseError + 'a \<times> token list"

definition peek :: "token list \<Rightarrow> token" where
  "peek ts = (case ts of [] \<Rightarrow> mk_token TokEOF [] 0 | t # _ \<Rightarrow> t)"

definition consume :: "token list \<Rightarrow> token list" where
  "consume ts = tl ts"

definition pdone :: "token list \<Rightarrow> bool" where
  "pdone ts = (tk_kind (peek ts) = TokEOF)"

definition expect :: "tokenKind \<Rightarrow> string \<Rightarrow> token list \<Rightarrow> token parsed" where
  "expect kind desc ts =
    (let t = peek ts in
     if tk_kind t \<noteq> kind then Inl (Expected desc t) else Inr (t, consume ts))"

definition expectString :: "token list \<Rightarrow> string parsed" where
  "expectString ts =
    bindR (expect TokString ''string literal'' ts) (\<lambda>(t, ts'). Inr (tk_val t, ts'))"

text \<open>The loop over the strings of IN: the values read and their \<^verbatim>\<open>%q\<close> forms.\<close>

function inLoop :: "string list \<Rightarrow> string list \<Rightarrow> token list \<Rightarrow> (string list \<times> string list) parsed" where
  "inLoop vals reprs ts =
    bindR (expectString ts) (\<lambda>(s, ts').
      let vals' = sadd s vals; reprs' = reprs @ [goQuote s] in
      if tk_kind (peek ts') \<noteq> TokComma then Inr ((vals', reprs'), ts')
      else inLoop vals' reprs' (consume ts'))"
  by pat_completeness auto
termination
  by (relation "measure (\<lambda>(vals, reprs, ts). length ts)")
    (auto simp: expectString_def expect_def Let_def consume_def peek_def bindR_eq_Inr
      split: list.splits if_splits)

declare inLoop.simps [simp del]

definition parseComparison :: "string \<Rightarrow> token list \<Rightarrow> predicate parsed" where
  "parseComparison key ts =
    (let op = peek ts in
     case tk_kind op of
       TokEq \<Rightarrow> bindR (expectString (consume ts)) (\<lambda>(s, ts'). Inr (EqPred key s, ts'))
     | TokNe \<Rightarrow> bindR (expectString (consume ts)) (\<lambda>(s, ts'). Inr (NePred key s, ts'))
     | TokLike \<Rightarrow> bindR (expectString (consume ts)) (\<lambda>(pattern, ts').
         Inr (LikePred key pattern (globToRegexp pattern), ts'))
     | TokIn \<Rightarrow> bindR (expect TokLParen [squote, CHR ''('', squote] (consume ts)) (\<lambda>(_, ts1).
         bindR (inLoop [] [] ts1) (\<lambda>((vals, reprs), ts2).
         bindR (expect TokRParen [squote, CHR '')'', squote] ts2) (\<lambda>(_, ts3).
         Inr (InPred key vals (join_with '', '' reprs), ts3))))
     | _ \<Rightarrow> Inl (ExpectedOperator key op))"

fun parseOr :: "nat \<Rightarrow> token list \<Rightarrow> predicate parsed"
  and orLoop :: "nat \<Rightarrow> predicate \<Rightarrow> token list \<Rightarrow> predicate parsed"
  and parseAnd :: "nat \<Rightarrow> token list \<Rightarrow> predicate parsed"
  and andLoop :: "nat \<Rightarrow> predicate \<Rightarrow> token list \<Rightarrow> predicate parsed"
  and parseNot :: "nat \<Rightarrow> token list \<Rightarrow> predicate parsed"
  and parsePrimary :: "nat \<Rightarrow> token list \<Rightarrow> predicate parsed" where
  "parseOr 0 ts = Inl OutOfFuel"
| "parseOr (Suc n) ts = bindR (parseAnd n ts) (\<lambda>(left, ts'). orLoop n left ts')"
| "orLoop 0 left ts = Inl OutOfFuel"
| "orLoop (Suc n) left ts =
    (if tk_kind (peek ts) = TokOr then
       bindR (parseAnd n (consume ts)) (\<lambda>(right, ts'). orLoop n (OrPred left right) ts')
     else Inr (left, ts))"
| "parseAnd 0 ts = Inl OutOfFuel"
| "parseAnd (Suc n) ts = bindR (parseNot n ts) (\<lambda>(left, ts'). andLoop n left ts')"
| "andLoop 0 left ts = Inl OutOfFuel"
| "andLoop (Suc n) left ts =
    (if tk_kind (peek ts) = TokAnd then
       bindR (parseNot n (consume ts)) (\<lambda>(right, ts'). andLoop n (AndPred left right) ts')
     else Inr (left, ts))"
| "parseNot 0 ts = Inl OutOfFuel"
| "parseNot (Suc n) ts =
    (if tk_kind (peek ts) = TokNot then
       bindR (parseNot n (consume ts)) (\<lambda>(inner, ts'). Inr (NotPred inner, ts'))
     else parsePrimary n ts)"
| "parsePrimary 0 ts = Inl OutOfFuel"
| "parsePrimary (Suc n) ts =
    (case tk_kind (peek ts) of
       TokLParen \<Rightarrow>
         bindR (parseOr n (consume ts)) (\<lambda>(inner, ts').
         bindR (expect TokRParen [squote, CHR '')'', squote] ts') (\<lambda>(_, ts''). Inr (inner, ts'')))
     | TokExists \<Rightarrow>
         bindR (expect TokIdent ''attribute name'' (consume ts)) (\<lambda>(ident, ts').
         Inr (ExistsPred (tk_val ident), ts'))
     | TokIdent \<Rightarrow> parseComparison (tk_val (peek ts)) (consume ts)
     | _ \<Rightarrow> Inl (UnexpectedToken (peek ts)))"

text \<open>Five calls at most per token consumed (\<open>enough_fuel\<close> below).\<close>

definition parseFuel :: "token list \<Rightarrow> nat" where
  "parseFuel ts = 5 * length ts + 5"

definition parseTokens :: "token list \<Rightarrow> parseError + predicate" where
  "parseTokens ts =
    bindR (parseOr (parseFuel ts) ts) (\<lambda>(pred, ts').
      if \<not> pdone ts' then Inl (UnexpectedToken (peek ts')) else Inr pred)"

definition Parse :: "string \<Rightarrow> parseError + predicate" where
  "Parse expr = (case lex expr of Inl e \<Rightarrow> Inl (LexError e) | Inr ts \<Rightarrow> parseTokens ts)"

section \<open>The grammar\<close>

type_synonym phrase = "(tokenKind \<times> string) list"

inductive gStrings :: "phrase \<Rightarrow> string list \<Rightarrow> bool" where
  "gStrings [(TokString, s)] [s]"
| "gStrings K ss \<Longrightarrow> gStrings ((TokString, s) # (TokComma, v) # K) (s # ss)"

inductive gOr :: "phrase \<Rightarrow> predicate \<Rightarrow> bool"
  and gOrTail :: "predicate \<Rightarrow> phrase \<Rightarrow> predicate \<Rightarrow> bool"
  and gAnd :: "phrase \<Rightarrow> predicate \<Rightarrow> bool"
  and gAndTail :: "predicate \<Rightarrow> phrase \<Rightarrow> predicate \<Rightarrow> bool"
  and gNot :: "phrase \<Rightarrow> predicate \<Rightarrow> bool"
  and gPrimary :: "phrase \<Rightarrow> predicate \<Rightarrow> bool" where
  or_expr: "gAnd K l \<Longrightarrow> gOrTail l K' p \<Longrightarrow> gOr (K @ K') p"
| or_end: "gOrTail l [] l"
| or_more: "gAnd K r \<Longrightarrow> gOrTail (OrPred l r) K' p \<Longrightarrow> gOrTail l ((TokOr, v) # K @ K') p"
| and_expr: "gNot K l \<Longrightarrow> gAndTail l K' p \<Longrightarrow> gAnd (K @ K') p"
| and_end: "gAndTail l [] l"
| and_more: "gNot K r \<Longrightarrow> gAndTail (AndPred l r) K' p \<Longrightarrow> gAndTail l ((TokAnd, v) # K @ K') p"
| not_expr: "gNot K p \<Longrightarrow> gNot ((TokNot, v) # K) (NotPred p)"
| not_prim: "gPrimary K p \<Longrightarrow> gNot K p"
| paren: "gOr K p \<Longrightarrow> gPrimary ((TokLParen, v) # K @ [(TokRParen, w)]) p"
| exists: "gPrimary [(TokExists, v), (TokIdent, key)] (ExistsPred key)"
| eq: "gPrimary [(TokIdent, key), (TokEq, v), (TokString, s)] (EqPred key s)"
| ne: "gPrimary [(TokIdent, key), (TokNe, v), (TokString, s)] (NePred key s)"
| like: "gPrimary [(TokIdent, key), (TokLike, v), (TokString, s)] (LikePred key s (globToRegexp s))"
| inlist: "gStrings K ss \<Longrightarrow>
    gPrimary ((TokIdent, key) # (TokIn, v) # (TokLParen, w) # K @ [(TokRParen, u)])
      (InPred key (fold sadd ss []) (join_with '', '' (map goQuote ss)))"

lemma gStrings_nonempty: "gStrings K ss \<Longrightarrow> K \<noteq> [] \<and> ss \<noteq> []"
  by (induction rule: gStrings.induct) auto

lemma g_nonempty:
  "gOr K p \<Longrightarrow> K \<noteq> []" "gOrTail l K p \<Longrightarrow> True" "gAnd K p \<Longrightarrow> K \<noteq> []" "gAndTail l K p \<Longrightarrow> True"
  "gNot K p \<Longrightarrow> K \<noteq> []" "gPrimary K p \<Longrightarrow> K \<noteq> []"
  by (induction rule: gOr_gOrTail_gAnd_gAndTail_gNot_gPrimary.inducts) auto

section \<open>Soundness\<close>

lemma peek_kind: "tk_kind (peek ts) = k \<Longrightarrow> k \<noteq> TokEOF \<Longrightarrow> \<exists>t. ts = t # consume ts \<and> kv t = (k, tk_val (peek ts))"
  by (cases ts) (auto simp: peek_def consume_def kv_def)

lemma peek_Cons [simp]: "peek (t # ts) = t" "consume (t # ts) = ts"
  by (simp_all add: peek_def consume_def)

lemma expect_Inr:
  "k \<noteq> TokEOF \<Longrightarrow> expect k d ts = Inr (t, r) \<longleftrightarrow> ts = t # r \<and> tk_kind t = k"
  by (cases ts) (auto simp: expect_def Let_def peek_def consume_def)

lemma expectString_Inr: "expectString ts = Inr (s, r) \<longleftrightarrow> (\<exists>t. ts = t # r \<and> kv t = (TokString, s))"
  by (auto simp: expectString_def bindR_eq_Inr expect_Inr kv_def)

lemma expect_no_fuel: "expect k d ts \<noteq> Inl OutOfFuel" "expectString ts \<noteq> Inl OutOfFuel"
  by (auto simp: expectString_def expect_def Let_def bindR_eq_Inl)

lemma inLoop_sound:
  "inLoop vals reprs ts = Inr ((vals', reprs'), r) \<Longrightarrow>
     \<exists>us ss. ts = us @ r \<and> gStrings (map kv us) ss \<and> vals' = fold sadd ss vals \<and>
       reprs' = reprs @ map goQuote ss"
proof (induction vals reprs ts rule: inLoop.induct)
  case (1 vals reprs ts)
  then obtain s ts1 where e: "expectString ts = Inr (s, ts1)"
    by (auto simp: inLoop.simps [of vals reprs ts] bindR_eq_Inr)
  then obtain t where t: "ts = t # ts1" "kv t = (TokString, s)" by (auto simp: expectString_Inr)
  show ?case
  proof (cases "tk_kind (peek ts1) = TokComma")
    case False
    with "1.prems" e have "ts1 = r" "vals' = sadd s vals" "reprs' = reprs @ [goQuote s]"
      by (simp_all add: inLoop.simps [of vals reprs ts] Let_def)
    with t show ?thesis
      by (intro exI [of _ "[t]"] exI [of _ "[s]"]) (auto intro: gStrings.intros)
  next
    case True
    then obtain c where c: "ts1 = c # consume ts1" "kv c = (TokComma, tk_val (peek ts1))"
      using peek_kind [of ts1 TokComma] by auto
    have "inLoop (sadd s vals) (reprs @ [goQuote s]) (consume ts1) = Inr ((vals', reprs'), r)"
      using "1.prems" e True by (simp add: inLoop.simps [of vals reprs ts] Let_def)
    from "1.IH" [OF e refl refl refl _ this] True obtain us ss where
      "consume ts1 = us @ r" "gStrings (map kv us) ss" "vals' = fold sadd ss (sadd s vals)"
      "reprs' = (reprs @ [goQuote s]) @ map goQuote ss" by auto
    with c t show ?thesis
      by (intro exI [of _ "t # c # us"] exI [of _ "s # ss"]) (auto intro: gStrings.intros)
  qed
qed

lemma inLoop_complete:
  "gStrings K ss \<Longrightarrow> K = map kv us \<Longrightarrow> tk_kind (peek rest) \<noteq> TokComma \<Longrightarrow>
     inLoop vals reprs (us @ rest) = Inr ((fold sadd ss vals, reprs @ map goQuote ss), rest)"
proof (induction arbitrary: us vals reprs rule: gStrings.induct)
  case (1 s)
  then obtain t where "us = [t]" "kv t = (TokString, s)" by (auto simp: map_eq_Cons_conv)
  with 1 show ?case
    by (simp add: inLoop.simps [of vals reprs] expectString_def expect_def kv_def Let_def)
next
  case (2 K ss s v)
  then obtain t c us' where "us = t # c # us'" "kv t = (TokString, s)" "kv c = (TokComma, v)"
    "K = map kv us'" by (auto simp: map_eq_Cons_conv)
  with 2 show ?case
    by (simp add: inLoop.simps [of vals reprs "_ # _"] expectString_def expect_def kv_def Let_def)
qed

lemma inLoop_no_fuel: "inLoop vals reprs ts \<noteq> Inl OutOfFuel"
proof (induction vals reprs ts rule: inLoop.induct)
  case (1 vals reprs ts)
  then show ?case
    by (cases "expectString ts")
      (auto simp: inLoop.simps [of vals reprs ts] Let_def expect_no_fuel split: if_split_asm)
qed

lemma expectString_phrase:
  "expectString (consume ts) = Inr (s, r) \<Longrightarrow> tk_kind (peek ts) = k \<Longrightarrow> k \<noteq> TokEOF \<Longrightarrow>
     \<exists>us. ts = us @ r \<and> map kv us = [(k, tk_val (peek ts)), (TokString, s)]"
  using peek_kind [of ts k]
  by (auto simp: expectString_Inr)

lemma parseComparison_in_sound:
  assumes "parseComparison key ts = Inr (p, r)" and k: "tk_kind (peek ts) = TokIn"
  shows "\<exists>us. ts = us @ r \<and> gPrimary ((TokIdent, key) # map kv us) p"
proof -
  obtain t0 where t0: "ts = t0 # consume ts" "kv t0 = (TokIn, tk_val (peek ts))"
    using peek_kind [OF k] by auto
  obtain t1 ts1 vals reprs ts2 t2 where
    e1: "expect TokLParen [squote, CHR ''('', squote] (consume ts) = Inr (t1, ts1)" and
    l: "inLoop [] [] ts1 = Inr ((vals, reprs), ts2)" and
    e2: "expect TokRParen [squote, CHR '')'', squote] ts2 = Inr (t2, r)" and
    p: "p = InPred key vals (join_with '', '' reprs)"
    using assms by (auto simp: parseComparison_def Let_def bindR_eq_Inr)
  have t1: "consume ts = t1 # ts1" "kv t1 = (TokLParen, tk_val t1)" and
    t2: "ts2 = t2 # r" "kv t2 = (TokRParen, tk_val t2)"
    using e1 e2 by (auto simp: expect_Inr kv_def)
  obtain us ss where us: "ts1 = us @ ts2" "gStrings (map kv us) ss" "vals = fold sadd ss []"
    "reprs = map goQuote ss"
    using inLoop_sound [OF l] by auto
  have "gPrimary ((TokIdent, key) # map kv (t0 # t1 # us @ [t2])) p"
    using inlist [OF us(2)] t0(2) t1(2) t2(2) us p by simp
  moreover have "ts = (t0 # t1 # us @ [t2]) @ r" using t0(1) t1(1) t2(1) us(1) by simp
  ultimately show ?thesis by blast
qed

lemma parseComparison_sound:
  assumes "parseComparison key ts = Inr (p, r)"
  shows "\<exists>us. ts = us @ r \<and> gPrimary ((TokIdent, key) # map kv us) p"
proof -
  consider s where "expectString (consume ts) = Inr (s, r)" "tk_kind (peek ts) = TokEq" "p = EqPred key s"
    | s where "expectString (consume ts) = Inr (s, r)" "tk_kind (peek ts) = TokNe" "p = NePred key s"
    | s where "expectString (consume ts) = Inr (s, r)" "tk_kind (peek ts) = TokLike"
        "p = LikePred key s (globToRegexp s)"
    | "tk_kind (peek ts) = TokIn"
    using assms by (auto simp: parseComparison_def Let_def bindR_eq_Inr split: tokenKind.splits)
  then show ?thesis
  proof cases
    case 1
    then show ?thesis using expectString_phrase [OF 1(1,2)] by (auto intro: eq)
  next
    case 2
    then show ?thesis using expectString_phrase [OF 2(1,2)] by (auto intro: ne)
  next
    case 3
    then show ?thesis using expectString_phrase [OF 3(1,2)] by (auto intro: like)
  next
    case 4
    then show ?thesis using parseComparison_in_sound [OF assms] by blast
  qed
qed

lemma expect_kv: "kv t = (k, v) \<Longrightarrow> expect k d (t # ts) = Inr (t, ts)"
  by (simp add: expect_def kv_def)

lemma expectString_kv: "kv t = (TokString, v) \<Longrightarrow> expectString (t # ts) = Inr (v, ts)"
  by (simp add: expectString_def expect_kv) (simp add: kv_def)

lemma kv_kind: "kv t = (k, v) \<Longrightarrow> tk_kind t = k" "kv t = (k, v) \<Longrightarrow> tk_val t = v"
  by (simp_all add: kv_def)

inductive_cases gPrimary_ident: "gPrimary ((TokIdent, key) # K) p"

lemma parseComparison_complete:
  assumes "gPrimary ((TokIdent, key) # map kv us) p"
  shows "parseComparison key (us @ rest) = Inr (p, rest)"
  using assms
proof (cases rule: gPrimary_ident [consumes 1])
  case (4 K ss v w u)
  then obtain a b ks c where us: "us = a # b # ks @ [c]" "kv a = (TokIn, v)" "kv b = (TokLParen, w)"
    "map kv ks = K" "kv c = (TokRParen, u)"
    by (auto simp: map_eq_Cons_conv map_eq_append_conv)
  have "inLoop [] [] (ks @ c # rest) = Inr ((fold sadd ss [], map goQuote ss), c # rest)"
    using inLoop_complete [OF 4(3), of ks "c # rest" "[]" "[]"] us by (simp add: kv_def)
  with us 4(2) show ?thesis
    by (simp add: parseComparison_def Let_def kv_kind expect_kv)
qed (auto simp: map_eq_Cons_conv parseComparison_def Let_def kv_kind expectString_kv)

lemma parseComparison_no_fuel: "parseComparison key ts \<noteq> Inl OutOfFuel"
  by (auto simp: parseComparison_def Let_def bindR_eq_Inl expect_no_fuel inLoop_no_fuel
      split: tokenKind.splits)

section \<open>The parser accepts only phrases of the grammar\<close>

text \<open>\<open>reads f g\<close>: whenever \<open>f\<close> succeeds on \<open>ts\<close> it has read a phrase of \<open>g\<close>.\<close>

definition reads :: "predicate parsed \<Rightarrow> token list \<Rightarrow> (phrase \<Rightarrow> predicate \<Rightarrow> bool) \<Rightarrow> bool" where
  "reads res ts g \<longleftrightarrow> (\<forall>p r. res = Inr (p, r) \<longrightarrow> (\<exists>us. ts = us @ r \<and> g (map kv us) p))"

lemma readsD: "reads (Inr (p, r)) ts g \<Longrightarrow> \<exists>us. ts = us @ r \<and> g (map kv us) p"
  by (simp add: reads_def)

lemma reads_fail [simp]: "reads (Inl e) ts g"
  by (simp add: reads_def)

lemma reads_bind:
  assumes "reads res ts g" and "\<And>l ts'. res = Inr (l, ts') \<Longrightarrow> reads (f l ts') ts' (h l)"
    and "\<And>K K' l p. g K l \<Longrightarrow> h l K' p \<Longrightarrow> k (K @ K') p"
  shows "reads (bindR res (\<lambda>(l, ts'). f l ts')) ts k"
  unfolding reads_def
proof (intro allI impI)
  fix p r assume "bindR res (\<lambda>(l, ts'). f l ts') = Inr (p, r)"
  then obtain l ts' where l: "res = Inr (l, ts')" "f l ts' = Inr (p, r)" by (auto simp: bindR_eq_Inr)
  obtain us where us: "ts = us @ ts'" "g (map kv us) l" using assms(1) l(1) by (auto simp: reads_def)
  obtain vs where "ts' = vs @ r" "h l (map kv vs) p"
    using assms(2) [OF l(1)] l(2) by (auto simp: reads_def)
  with us assms(3) show "\<exists>us. ts = us @ r \<and> k (map kv us) p"
    by (intro exI [of _ "us @ vs"]) simp
qed

lemma reads_token:
  assumes "tk_kind (peek ts) = k" and "k \<noteq> TokEOF" and "reads res (consume ts) g"
    and "\<And>K p. g K p \<Longrightarrow> h ((k, tk_val (peek ts)) # K) p"
  shows "reads res ts h"
  unfolding reads_def
proof (intro allI impI)
  fix p r assume "res = Inr (p, r)"
  with assms(3) obtain us where "consume ts = us @ r" "g (map kv us) p" by (auto simp: reads_def)
  moreover obtain t where "ts = t # consume ts" "kv t = (k, tk_val (peek ts))"
    using peek_kind [OF assms(1,2)] by blast
  ultimately show "\<exists>us. ts = us @ r \<and> h (map kv us) p"
    using assms(4) by (intro exI [of _ "t # us"]) simp
qed

lemma reads_map:
  "reads res ts g \<Longrightarrow> (\<And>K p. g K p \<Longrightarrow> h K (f p)) \<Longrightarrow>
     reads (bindR res (\<lambda>(p, ts'). Inr (f p, ts'))) ts h"
  by (fastforce simp: reads_def bindR_eq_Inr)

lemma reads_expect:
  assumes "k \<noteq> TokEOF" and "\<And>t. g [(k, tk_val t)] (f t)"
  shows "reads (bindR (expect k d ts) (\<lambda>(t, ts'). Inr (f t, ts'))) ts g"
  unfolding reads_def
proof (intro allI impI)
  fix p r assume "bindR (expect k d ts) (\<lambda>(t, ts'). Inr (f t, ts')) = Inr (p, r)"
  then obtain t where "ts = t # r" "tk_kind t = k" "p = f t"
    using assms(1) by (auto simp: bindR_eq_Inr expect_Inr)
  then show "\<exists>us. ts = us @ r \<and> g (map kv us) p"
    using assms(2) [of t] by (intro exI [of _ "[t]"]) (simp add: kv_def)
qed

lemma parsePrimary_reads:
  assumes "tk_kind (peek ts) = TokLParen \<Longrightarrow> reads (parseOr n (consume ts)) (consume ts) gOr"
  shows "reads (parsePrimary (Suc n) ts) ts gPrimary"
proof -
  let ?k = "tk_kind (peek ts)" and ?v = "tk_val (peek ts)"
  let ?close = "\<lambda>inner ts'. bindR (expect TokRParen [squote, CHR '')'', squote] ts') (\<lambda>(t, ts''). Inr (inner, ts''))"
  consider "?k = TokLParen" | "?k = TokExists" | "?k = TokIdent"
    | "parsePrimary (Suc n) ts = Inl (UnexpectedToken (peek ts))"
    by (cases ?k) auto
  then show ?thesis
  proof cases
    case 1
    have "reads (?close q ts') ts' (\<lambda>K p. \<exists>w. K = [(TokRParen, w)] \<and> p = q)" for q ts'
      by (rule reads_expect) auto
    then have "reads (bindR (parseOr n (consume ts)) (\<lambda>(q, ts'). ?close q ts')) (consume ts)
        (\<lambda>K p. \<exists>K' w. K = K' @ [(TokRParen, w)] \<and> gOr K' p)"
      by (rule reads_bind [OF assms [OF 1]]) auto
    from reads_token [OF 1 _ this, of gPrimary] 1 show ?thesis by (auto intro: paren)
  next
    case 2
    have "reads (bindR (expect TokIdent ''attribute name'' (consume ts))
        (\<lambda>(t, ts'). Inr (ExistsPred (tk_val t), ts'))) (consume ts)
        (\<lambda>K p. \<exists>key. K = [(TokIdent, key)] \<and> p = ExistsPred key)"
      by (rule reads_expect) auto
    from reads_token [OF 2 _ this, of gPrimary] 2 show ?thesis by (auto intro: exists)
  next
    case 3
    have "reads (parseComparison ?v (consume ts)) (consume ts) (\<lambda>K. gPrimary ((TokIdent, ?v) # K))"
      using parseComparison_sound by (auto simp: reads_def)
    from reads_token [OF 3 _ this, of gPrimary] 3 show ?thesis by simp
  qed simp
qed

lemma parse_reads:
  "reads (parseOr n ts) ts gOr"
  "reads (orLoop n l ts) ts (gOrTail l)"
  "reads (parseAnd n ts) ts gAnd"
  "reads (andLoop n l ts) ts (gAndTail l)"
  "reads (parseNot n ts) ts gNot"
  "reads (parsePrimary n ts) ts gPrimary"
proof (induction n ts and n l ts and n ts and n l ts and n ts and n ts
    rule: parseOr_orLoop_parseAnd_andLoop_parseNot_parsePrimary.induct)
  case (2 n ts)
  then show ?case by (auto intro!: reads_bind [where g = gAnd and h = gOrTail] or_expr)
next
  case (4 n l ts)
  show ?case
  proof (cases "tk_kind (peek ts) = TokOr")
    case True
    have "reads (bindR (parseAnd n (consume ts)) (\<lambda>(r, ts'). orLoop n (OrPred l r) ts')) (consume ts)
        (\<lambda>K. gOrTail l ((TokOr, tk_val (peek ts)) # K))"
      using 4 True by (intro reads_bind [where g = gAnd and h = "\<lambda>r. gOrTail (OrPred l r)"])
        (auto intro: or_more)
    from reads_token [OF True _ this, of "gOrTail l"] True show ?thesis by simp
  qed (simp add: reads_def or_end)
next
  case (6 n ts)
  then show ?case by (auto intro!: reads_bind [where g = gNot and h = gAndTail] and_expr)
next
  case (8 n l ts)
  show ?case
  proof (cases "tk_kind (peek ts) = TokAnd")
    case True
    have "reads (bindR (parseNot n (consume ts)) (\<lambda>(r, ts'). andLoop n (AndPred l r) ts')) (consume ts)
        (\<lambda>K. gAndTail l ((TokAnd, tk_val (peek ts)) # K))"
      using 8 True by (intro reads_bind [where g = gNot and h = "\<lambda>r. gAndTail (AndPred l r)"])
        (auto intro: and_more)
    from reads_token [OF True _ this, of "gAndTail l"] True show ?thesis by simp
  qed (simp add: reads_def and_end)
next
  case (10 n ts)
  show ?case
  proof (cases "tk_kind (peek ts) = TokNot")
    case True
    have "reads (bindR (parseNot n (consume ts)) (\<lambda>(p, ts'). Inr (NotPred p, ts'))) (consume ts)
        (\<lambda>K. gNot ((TokNot, tk_val (peek ts)) # K))"
      using 10 True by (intro reads_map [where g = gNot]) (auto intro: not_expr)
    from reads_token [OF True _ this, of gNot] True show ?thesis by simp
  qed (use 10 not_prim in \<open>fastforce simp: reads_def\<close>)
next
  case (12 n ts)
  then show ?case using parsePrimary_reads by blast
qed simp_all

section \<open>The parser accepts every phrase of the grammar\<close>

definition yields :: "predicate parsed \<Rightarrow> predicate \<Rightarrow> token list \<Rightarrow> bool" where
  "yields res p rest \<longleftrightarrow> res = Inl OutOfFuel \<or> res = Inr (p, rest)"

lemma yields_bind:
  "yields res l mid \<Longrightarrow> yields (f l mid) p rest \<Longrightarrow> yields (bindR res (\<lambda>(l, ts). f l ts)) p rest"
  by (auto simp: yields_def)

lemma yields_simps [simp]: "yields (Inl OutOfFuel) p rest" "yields (Inr (p, rest)) p rest"
  by (simp_all add: yields_def)

inductive_cases gOrTailE: "gOrTail l K p"
inductive_cases gAndTailE: "gAndTail l K p"

definition follows :: "tokenKind list \<Rightarrow> token list \<Rightarrow> bool" where
  "follows ks rest \<longleftrightarrow> tk_kind (peek rest) \<notin> set ks"

lemma orTail_follows:
  "gOrTail l (map kv vs) p \<Longrightarrow> follows [TokAnd, TokOr] rest \<Longrightarrow> follows [TokAnd] (vs @ rest)"
  by (erule gOrTailE) (auto simp: map_eq_Cons_conv follows_def kv_kind)

inductive_cases gPrimaryE: "gPrimary K p"

lemma primary_head:
  "gPrimary (map kv us) p \<Longrightarrow> tk_kind (peek (us @ rest)) \<noteq> TokNot"
  by (erule gPrimaryE) (auto simp: map_eq_Cons_conv kv_kind)

lemmas g_intros = gOr_gOrTail_gAnd_gAndTail_gNot_gPrimary.intros

lemma yields_ident:
  assumes "gPrimary ((TokIdent, key) # K) p" and "(TokIdent, key) # K = map kv us"
  shows "yields (parsePrimary n (us @ rest)) p rest"
proof (cases n)
  case (Suc m)
  obtain t vs where "us = t # vs" "kv t = (TokIdent, key)" "K = map kv vs"
    using assms(2) by (auto simp: Cons_eq_map_conv)
  with assms(1) parseComparison_complete [of key vs p rest] Suc show ?thesis by (simp add: kv_kind)
qed simp

lemma peek_append_Nil [simp]: "us = [] \<Longrightarrow> peek (us @ rest) = peek rest"
  by simp

lemma parse_complete:
  "gOr K p \<Longrightarrow> K = map kv us \<Longrightarrow> follows [TokAnd, TokOr] rest \<Longrightarrow> yields (parseOr n (us @ rest)) p rest"
  "gOrTail l K p \<Longrightarrow> K = map kv us \<Longrightarrow> follows [TokAnd, TokOr] rest \<Longrightarrow> yields (orLoop n l (us @ rest)) p rest"
  "gAnd K p \<Longrightarrow> K = map kv us \<Longrightarrow> follows [TokAnd] rest \<Longrightarrow> yields (parseAnd n (us @ rest)) p rest"
  "gAndTail l K p \<Longrightarrow> K = map kv us \<Longrightarrow> follows [TokAnd] rest \<Longrightarrow> yields (andLoop n l (us @ rest)) p rest"
  "gNot K p \<Longrightarrow> K = map kv us \<Longrightarrow> yields (parseNot n (us @ rest)) p rest"
  "gPrimary K p \<Longrightarrow> K = map kv us \<Longrightarrow> yields (parsePrimary n (us @ rest)) p rest"
proof (induction arbitrary: us rest n and us rest n and us rest n and us rest n and us rest n and us rest n
    rule: gOr_gOrTail_gAnd_gAndTail_gNot_gPrimary.inducts)
  case (or_expr K l K' p)
  obtain vs ws where us: "us = vs @ ws" "K = map kv vs" "K' = map kv ws"
    using or_expr.prems(1) [symmetric] by (auto simp: map_eq_append_conv)
  have "follows [TokAnd] (ws @ rest)"
    using orTail_follows [of l ws p rest] or_expr us by simp
  with or_expr us show ?case by (cases n) (auto intro!: yields_bind)
next
  case (or_end l)
  then show ?case by (cases n) (auto simp: follows_def)
next
  case (or_more K r l K' p v)
  obtain t vs ws where us: "us = t # vs @ ws" "kv t = (TokOr, v)" "K = map kv vs" "K' = map kv ws"
    using or_more.prems(1) by (auto simp: Cons_eq_map_conv map_eq_append_conv append_eq_map_conv)
  have "follows [TokAnd] (ws @ rest)"
    using orTail_follows [of "OrPred l r" ws p rest] or_more us by simp
  with or_more us show ?case by (cases n) (auto intro!: yields_bind simp: kv_kind)
next
  case (and_expr K l K' p)
  obtain vs ws where us: "us = vs @ ws" "K = map kv vs" "K' = map kv ws"
    using and_expr.prems(1) [symmetric] by (auto simp: map_eq_append_conv)
  with and_expr show ?case by (cases n) (auto intro!: yields_bind)
next
  case (and_end l)
  then show ?case by (cases n) (auto simp: follows_def)
next
  case (and_more K r l K' p v)
  obtain t vs ws where us: "us = t # vs @ ws" "kv t = (TokAnd, v)" "K = map kv vs" "K' = map kv ws"
    using and_more.prems(1) by (auto simp: Cons_eq_map_conv append_eq_map_conv)
  with and_more show ?case by (cases n) (auto intro!: yields_bind simp: kv_kind)
next
  case (not_expr K p v)
  obtain t vs where "us = t # vs" "kv t = (TokNot, v)" "K = map kv vs"
    using not_expr.prems by (auto simp: Cons_eq_map_conv)
  with not_expr show ?case by (cases n) (auto intro!: yields_bind simp: kv_kind)
next
  case (not_prim K p)
  then show ?case using primary_head [of us p rest] by (cases n) auto
next
  case (paren K p v w)
  obtain a vs c where us: "us = a # vs @ [c]" "kv a = (TokLParen, v)" "K = map kv vs" "kv c = (TokRParen, w)"
    using paren.prems by (auto simp: Cons_eq_map_conv append_eq_map_conv)
  have "follows [TokAnd, TokOr] (c # rest)" using us(4) by (simp add: follows_def kv_kind)
  with paren us show ?case
    by (cases n) (auto intro!: yields_bind simp: kv_kind expect_kv)
next
  case (exists v key)
  obtain t c where "us = [t, c]" "kv t = (TokExists, v)" "kv c = (TokIdent, key)"
    using exists by (auto simp: Cons_eq_map_conv)
  then show ?case by (cases n) (auto simp: kv_kind expect_kv)
next
  case (eq key v s)
  then show ?case by (rule yields_ident [OF g_intros(11)])
next
  case (ne key v s)
  then show ?case by (rule yields_ident [OF g_intros(12)])
next
  case (like key v s)
  then show ?case by (rule yields_ident [OF g_intros(13)])
next
  case (inlist K ss key v w u)
  with inlist.hyps show ?case by (intro yields_ident [OF g_intros(14)])
qed

section \<open>Enough fuel\<close>

lemma parse_shorter:
  "parseAnd n ts = Inr (p, r) \<Longrightarrow> length r < length ts"
  "parseNot n ts = Inr (p, r) \<Longrightarrow> length r < length ts"
  using parse_reads(3,5) [of n ts] g_nonempty(3,5) by (fastforce simp: reads_def)+

lemma consume_shorter:
  "tk_kind (peek ts) = k \<Longrightarrow> k \<noteq> TokEOF \<Longrightarrow> length ts = Suc (length (consume ts))"
  by (cases ts) (auto simp: peek_def consume_def)

lemma no_fuel_bind:
  "res \<noteq> Inl OutOfFuel \<Longrightarrow> (\<And>x ts. res = Inr (x, ts) \<Longrightarrow> f x ts \<noteq> Inl OutOfFuel) \<Longrightarrow>
     bindR res (\<lambda>(x, ts). f x ts) \<noteq> Inl OutOfFuel"
  by (cases res) auto

lemma enough_fuel:
  "5 * length ts + 4 \<le> n \<Longrightarrow> parseOr n ts \<noteq> Inl OutOfFuel"
  "5 * length ts + 1 \<le> n \<Longrightarrow> orLoop n l ts \<noteq> Inl OutOfFuel"
  "5 * length ts + 3 \<le> n \<Longrightarrow> parseAnd n ts \<noteq> Inl OutOfFuel"
  "5 * length ts + 1 \<le> n \<Longrightarrow> andLoop n l ts \<noteq> Inl OutOfFuel"
  "5 * length ts + 2 \<le> n \<Longrightarrow> parseNot n ts \<noteq> Inl OutOfFuel"
  "5 * length ts + 1 \<le> n \<Longrightarrow> parsePrimary n ts \<noteq> Inl OutOfFuel"
proof (induction n ts and n l ts and n ts and n l ts and n ts and n ts
    rule: parseOr_orLoop_parseAnd_andLoop_parseNot_parsePrimary.induct)
  case (2 n ts)
  have "orLoop n l ts' \<noteq> Inl OutOfFuel" if e: "parseAnd n ts = Inr (l, ts')" for l ts'
    using "2.IH"(2) [OF e refl] parse_shorter(1) [OF e] "2.prems" by simp
  then show ?case using "2.IH"(1) "2.prems" by (simp add: no_fuel_bind)
next
  case (4 n l ts)
  show ?case
  proof (cases "tk_kind (peek ts) = TokOr")
    case True
    note len = consume_shorter [OF True]
    have "orLoop n (OrPred l q) ts' \<noteq> Inl OutOfFuel" if e: "parseAnd n (consume ts) = Inr (q, ts')" for q ts'
      using "4.IH"(2) [OF True e refl] parse_shorter(1) [OF e] "4.prems" len by simp
    then show ?thesis using "4.IH"(1) [OF True] "4.prems" True len by (simp add: no_fuel_bind)
  qed simp
next
  case (6 n ts)
  have "andLoop n l ts' \<noteq> Inl OutOfFuel" if e: "parseNot n ts = Inr (l, ts')" for l ts'
    using "6.IH"(2) [OF e refl] parse_shorter(2) [OF e] "6.prems" by simp
  then show ?case using "6.IH"(1) "6.prems" by (simp add: no_fuel_bind)
next
  case (8 n l ts)
  show ?case
  proof (cases "tk_kind (peek ts) = TokAnd")
    case True
    note len = consume_shorter [OF True]
    have "andLoop n (AndPred l q) ts' \<noteq> Inl OutOfFuel" if e: "parseNot n (consume ts) = Inr (q, ts')" for q ts'
      using "8.IH"(2) [OF True e refl] parse_shorter(2) [OF e] "8.prems" len by simp
    then show ?thesis using "8.IH"(1) [OF True] "8.prems" True len by (simp add: no_fuel_bind)
  qed simp
next
  case (10 n ts)
  then show ?case using consume_shorter [of ts TokNot] by (auto simp: bindR_eq_Inl)
next
  case (12 n ts)
  show ?case
  proof (cases "tk_kind (peek ts) = TokLParen")
    case True
    then show ?thesis using 12 consume_shorter [OF True] by (auto simp: bindR_eq_Inl expect_no_fuel)
  next
    case False
    then show ?thesis
      by (auto simp: bindR_eq_Inl expect_no_fuel parseComparison_no_fuel split: tokenKind.split)
  qed
qed simp_all

lemma parseOr_iff:
  assumes "5 * length ts + 4 \<le> n" and "follows [TokAnd, TokOr] r" and "ts = us @ r"
  shows "parseOr n ts = Inr (p, r) \<longleftrightarrow> gOr (map kv us) p"
proof
  assume "parseOr n ts = Inr (p, r)"
  with parse_reads(1) [of n ts] assms(3) show "gOr (map kv us) p" by (auto simp: reads_def)
next
  assume "gOr (map kv us) p"
  from parse_complete(1) [OF this refl assms(2), of n] enough_fuel(1) [OF assms(1)] assms(3)
  show "parseOr n ts = Inr (p, r)" by (auto simp: yields_def)
qed

lemma gStrings_no_eof: "gStrings K ss \<Longrightarrow> TokEOF \<notin> fst ` set K"
  by (induction rule: gStrings.induct) auto

lemma g_no_eof:
  "gOr K p \<Longrightarrow> TokEOF \<notin> fst ` set K" "gOrTail l K p \<Longrightarrow> TokEOF \<notin> fst ` set K"
  "gAnd K p \<Longrightarrow> TokEOF \<notin> fst ` set K" "gAndTail l K p \<Longrightarrow> TokEOF \<notin> fst ` set K"
  "gNot K p \<Longrightarrow> TokEOF \<notin> fst ` set K" "gPrimary K p \<Longrightarrow> TokEOF \<notin> fst ` set K"
  by (induction rule: gOr_gOrTail_gAnd_gAndTail_gNot_gPrimary.inducts)
    (auto dest: gStrings_no_eof)

lemma eof_split:
  assumes "bs @ [e] = us @ r" and "pdone r" and "\<forall>t \<in> set bs. tk_kind t \<noteq> TokEOF"
    and "\<forall>t \<in> set us. tk_kind t \<noteq> TokEOF" and "tk_kind e = TokEOF"
  shows "r = [e] \<and> us = bs"
proof (cases r rule: rev_cases)
  case Nil
  with assms(1,4,5) show ?thesis by (metis append_Nil2 in_set_conv_decomp)
next
  case (snoc r' z)
  with assms(1) have z: "z = e" "bs = us @ r'" by simp_all
  moreover have "r' = []"
  proof (rule ccontr)
    assume "r' \<noteq> []"
    then obtain t r'' where "r' = t # r''" by (auto simp: neq_Nil_conv)
    with snoc z(2) assms(2,3) show False by (simp add: pdone_def)
  qed
  ultimately show ?thesis using snoc by simp
qed

text \<open>The parser decides the grammar on the tokens before EOF.\<close>

lemma parseTokens_iff:
  assumes "well_placed lo hi ts"
  shows "parseTokens ts = Inr p \<longleftrightarrow> gOr (map kv (butlast ts)) p"
proof -
  let ?e = "mk_token TokEOF [] hi" and ?n = "parseFuel ts"
  have "ts \<noteq> []" "last ts = ?e" and bs: "\<forall>t \<in> set (butlast ts). tk_kind t \<noteq> TokEOF"
    using assms by (simp_all add: well_placed_def)
  then have ts: "ts = butlast ts @ [?e]" using append_butlast_last_id [of ts] by simp
  have fuel: "5 * length ts + 4 \<le> ?n" by (simp add: parseFuel_def)
  have iff: "parseOr ?n ts = Inr (p, [?e]) \<longleftrightarrow> gOr (map kv (butlast ts)) p"
    using parseOr_iff [OF fuel _ ts] by (simp add: follows_def)
  have "parseTokens ts = Inr p \<longleftrightarrow> (\<exists>r. parseOr ?n ts = Inr (p, r) \<and> pdone r)"
    by (auto simp: parseTokens_def bindR_eq_Inr split: if_splits)
  also have "\<dots> \<longleftrightarrow> parseOr ?n ts = Inr (p, [?e])"
  proof
    assume "\<exists>r. parseOr ?n ts = Inr (p, r) \<and> pdone r"
    then obtain r us where r: "parseOr ?n ts = Inr (p, r)" "pdone r" "ts = us @ r" "gOr (map kv us) p"
      using parse_reads(1) [of ?n ts] by (auto simp: reads_def)
    have "\<forall>t \<in> set us. tk_kind t \<noteq> TokEOF"
      using g_no_eof(1) [OF r(4)] by (force simp: kv_def)
    then have "r = [?e]" using eof_split [of "butlast ts" ?e us r] ts r(2,3) bs by simp
    with r(1) show "parseOr ?n ts = Inr (p, [?e])" by simp
  qed (auto simp: pdone_def)
  finally show ?thesis using iff by simp
qed

lemma parseTokens_no_fuel: "parseTokens ts \<noteq> Inl OutOfFuel"
  using enough_fuel(1) [of ts "parseFuel ts"]
  by (auto simp: parseTokens_def bindR_eq_Inl parseFuel_def split: if_splits)

section \<open>Printing and parsing back\<close>

definition ident :: "string \<Rightarrow> bool" where
  "ident w \<longleftrightarrow> isWord w \<and> wordTok w = (TokIdent, w)"

text \<open>What every parsed predicate satisfies.\<close>

fun wf_pred :: "predicate \<Rightarrow> bool" where
  "wf_pred (EqPred key v) = ident key"
| "wf_pred (NePred key v) = ident key"
| "wf_pred (LikePred key pattern rx) = (ident key \<and> rx = globToRegexp pattern)"
| "wf_pred (InPred key vals repr) =
    (ident key \<and> (\<exists>ss. ss \<noteq> [] \<and> vals = fold sadd ss [] \<and> repr = join_with '', '' (map goQuote ss)))"
| "wf_pred (ExistsPred key) = ident key"
| "wf_pred (AndPred l r) = (wf_pred l \<and> wf_pred r)"
| "wf_pred (OrPred l r) = (wf_pred l \<and> wf_pred r)"
| "wf_pred (NotPred p) = wf_pred p"

text \<open>Its string literals have only printable characters.\<close>

fun printable :: "predicate \<Rightarrow> bool" where
  "printable (EqPred key v) = list_all isPrint v"
| "printable (NePred key v) = list_all isPrint v"
| "printable (LikePred key pattern rx) = list_all isPrint pattern"
| "printable (InPred key vals repr) = list_all (list_all isPrint) vals"
| "printable (ExistsPred key) = True"
| "printable (AndPred l r) = (printable l \<and> printable r)"
| "printable (OrPred l r) = (printable l \<and> printable r)"
| "printable (NotPred p) = printable p"

lemma set_fold_sadd: "set (fold sadd ss acc) = set ss \<union> set acc"
  by (induction ss arbitrary: acc) auto

lemma g_wf:
  "gOr K p \<Longrightarrow> \<forall>w. (TokIdent, w) \<in> set K \<longrightarrow> ident w \<Longrightarrow> wf_pred p"
  "gOrTail l K p \<Longrightarrow> \<forall>w. (TokIdent, w) \<in> set K \<longrightarrow> ident w \<Longrightarrow> wf_pred l \<Longrightarrow> wf_pred p"
  "gAnd K p \<Longrightarrow> \<forall>w. (TokIdent, w) \<in> set K \<longrightarrow> ident w \<Longrightarrow> wf_pred p"
  "gAndTail l K p \<Longrightarrow> \<forall>w. (TokIdent, w) \<in> set K \<longrightarrow> ident w \<Longrightarrow> wf_pred l \<Longrightarrow> wf_pred p"
  "gNot K p \<Longrightarrow> \<forall>w. (TokIdent, w) \<in> set K \<longrightarrow> ident w \<Longrightarrow> wf_pred p"
  "gPrimary K p \<Longrightarrow> \<forall>w. (TokIdent, w) \<in> set K \<longrightarrow> ident w \<Longrightarrow> wf_pred p"
  by (induction rule: gOr_gOrTail_gAnd_gAndTail_gNot_gPrimary.inducts)
    (auto dest: gStrings_nonempty)

lemma emitWord_ident:
  assumes "wordStart c" and "readWord (c # s) = (w, r)" and "wordTok w = (TokIdent, v)"
  shows "ident v"
proof -
  have "wordChar c" using assms(1) by (auto simp: wordChar_def wordStart_def)
  then have "isWord w"
    using assms(1,2) by (auto simp: isWord_def readWord_def list_all_iff dest: set_takeWhileD)
  moreover have "v = w" "wordTok w = (TokIdent, w)"
    using assms(3) by (auto simp: kv_def emitWord_def wordTok_def Let_def split: if_splits)
  ultimately show ?thesis by (simp add: ident_def)
qed

lemma nextToken_ident:
  "nextToken pos c s = Inr (t, p, r) \<Longrightarrow> kv t = (TokIdent, v) \<Longrightarrow> ident v"
  using emitWord_ident [of c s] unfolding nextToken_def
  by (simp split: if_split_asm option.split_asm prod.split_asm) force+

lemma tokenize_ident:
  "tokenize pos s = Inr ts \<Longrightarrow> t \<in> set ts \<Longrightarrow> kv t = (TokIdent, v) \<Longrightarrow> ident v"
proof (induction pos s arbitrary: ts rule: tokenize.induct)
  case (1 pos s)
  obtain start s' where sk: "skipWhitespace pos s = (start, s')" by fastforce
  show ?case
  proof (cases s')
    case Nil
    with sk 1 show ?thesis by (auto simp: tokenize.simps [of pos s])
  next
    case (Cons ch rest)
    with sk "1.prems"(1) obtain u p r ts' where nt: "nextToken start ch rest = Inr (u, p, r)"
      and ts': "tokenize p r = Inr ts'" "ts = u # ts'"
      by (auto simp: tokenize.simps [of pos s] bindR_eq_Inr)
    show ?thesis
      using "1.IH" [OF sk [symmetric] Cons nt refl refl ts'(1)] nextToken_ident [OF nt] ts'(2) "1.prems"(2,3)
      by auto
  qed
qed

lemma Parse_wf:
  assumes "Parse s = Inr p"
  shows "wf_pred p"
proof -
  obtain ts where ts: "lex s = Inr ts" "parseTokens ts = Inr p"
    using assms by (auto simp: Parse_def split: sum.splits)
  have "gOr (map kv (butlast ts)) p"
    using ts parseTokens_iff tokenize_placed unfolding lex_def by blast
  moreover have "\<forall>w. (TokIdent, w) \<in> set (map kv (butlast ts)) \<longrightarrow> ident w"
    using tokenize_ident ts(1) unfolding lex_def by (fastforce dest: in_set_butlastD)
  ultimately show ?thesis by (rule g_wf(1))
qed

text \<open>\<open>prints w K\<close>: before a word boundary, the text \<open>w\<close> lexes to the phrase \<open>K\<close>.\<close>

definition prints :: "string \<Rightarrow> phrase \<Rightarrow> bool" where
  "prints w K \<longleftrightarrow> (\<forall>s K'. boundary s \<longrightarrow> lexes s K' \<longrightarrow> lexes (w @ s) (K @ K'))"

lemma printsD: "prints u K \<Longrightarrow> boundary s \<Longrightarrow> lexes s M \<Longrightarrow> lexes (u @ s) (K @ M)"
  by (simp add: prints_def)

lemma prints_word: "isWord w \<Longrightarrow> prints w [wordTok w]"
  by (simp add: prints_def lexes_word)

lemma prints_ident: "ident key \<Longrightarrow> prints key [(TokIdent, key)]"
  using prints_word [of key] by (simp add: ident_def)

lemma prints_quote: "list_all isPrint v \<Longrightarrow> prints (goQuote v) [(TokString, v)]"
  by (simp add: prints_def lexes_quote)

text \<open>Two texts side by side: separated by a blank, or when the second starts with a boundary.\<close>

lemma prints_blank: "prints u K \<Longrightarrow> prints v L \<Longrightarrow> prints (u @ '' '' @ v) (K @ L)"
  unfolding prints_def by (simp add: lexes_blank)

lemma prints_paren: "prints u K \<Longrightarrow> prints (''('' @ u @ '')'') ((TokLParen, ''('') # K @ [(TokRParen, '')'')])"
  unfolding prints_def by (simp add: lexes_punct)

lemma prints_sep: "prints u K \<Longrightarrow> prints v L \<Longrightarrow> prints (u @ '', '' @ v) (K @ (TokComma, '','') # L)"
  unfolding prints_def
  by (simp add: lexes_punct lexes_blank boundary_def wordChar_def isLetter_def isDigit_def)

lemma prints_op: "prints ''='' [(TokEq, ''='')]" "prints ''!='' [(TokNe, ''!='')]"
  unfolding prints_def by (simp_all add: lexes_punct)

lemmas prints_keyword = prints_word [OF reserved_words(1), unfolded reserved_words]
  prints_word [OF reserved_words(2), unfolded reserved_words]
  prints_word [OF reserved_words(3), unfolded reserved_words]
  prints_word [OF reserved_words(4), unfolded reserved_words]
  prints_word [OF reserved_words(5), unfolded reserved_words]
  prints_word [OF reserved_words(6), unfolded reserved_words]

lemma prints_infix:
  "prints u K \<Longrightarrow> prints w [t] \<Longrightarrow> prints v L \<Longrightarrow> prints (u @ '' '' @ w @ '' '' @ v) (K @ t # L)"
  using prints_blank [of u K "w @ '' '' @ v" "t # L"] prints_blank [of w "[t]" v L] by simp

lemma prints_strings:
  "ss \<noteq> [] \<Longrightarrow> list_all (list_all isPrint) ss \<Longrightarrow>
     \<exists>K. gStrings K ss \<and> prints (join_with '', '' (map goQuote ss)) K"
proof (induction ss rule: induct_list012)
  case (2 x)
  then show ?case using prints_quote [of x]
    by (intro exI [of _ "[(TokString, x)]"]) (simp add: gStrings.intros)
next
  case (3 x y zs)
  then obtain K where K: "gStrings K (y # zs)" "prints (join_with '', '' (map goQuote (y # zs))) K"
    by auto
  with 3 prints_sep [OF prints_quote [of x] K(2)] show ?case
    by (intro exI [of _ "(TokString, x) # (TokComma, '','') # K"]) (simp add: gStrings.intros)
qed simp

definition printed :: "predicate \<Rightarrow> bool" where
  "printed p \<longleftrightarrow> (\<exists>K. gNot K p \<and> prints (pstring p) K)"

lemma printed_primary: "gPrimary K p \<Longrightarrow> prints (pstring p) K \<Longrightarrow> printed p"
  unfolding printed_def using not_prim by blast

lemma printed_and:
  assumes "printed l" and "printed r" shows "printed (AndPred l r)"
proof -
  obtain K L where K: "gNot K l" "prints (pstring l) K" and L: "gNot L r" "prints (pstring r) L"
    using assms by (auto simp: printed_def)
  have "gAnd (K @ (TokAnd, ''AND'') # L @ []) (AndPred l r)"
    by (rule and_expr [OF K(1) and_more [OF L(1) and_end]])
  from paren [OF or_expr [OF this or_end]] prints_paren [OF prints_infix [OF K(2) prints_keyword(1) L(2)]]
  show ?thesis by (intro printed_primary) simp_all
qed

lemma printed_or:
  assumes "printed l" and "printed r" shows "printed (OrPred l r)"
proof -
  obtain K L where K: "gNot K l" "prints (pstring l) K" and L: "gNot L r" "prints (pstring r) L"
    using assms by (auto simp: printed_def)
  have "gAnd K l" "gAnd L r" using and_expr [OF K(1) and_end] and_expr [OF L(1) and_end] by simp_all
  then have "gOr (K @ (TokOr, ''OR'') # L @ []) (OrPred l r)"
    by (rule or_expr [OF _ or_more [OF _ or_end]])
  from paren [OF this] prints_paren [OF prints_infix [OF K(2) prints_keyword(2) L(2)]]
  show ?thesis by (intro printed_primary) simp_all
qed

lemma printed_in:
  assumes "ident key" and "ss \<noteq> []" and "list_all (list_all isPrint) ss"
  shows "printed (InPred key (fold sadd ss []) (join_with '', '' (map goQuote ss)))"
proof -
  obtain K where K: "gStrings K ss" "prints (join_with '', '' (map goQuote ss)) K"
    using prints_strings [OF assms(2,3)] by blast
  from prints_infix [OF prints_ident [OF assms(1)] prints_keyword(5) prints_paren [OF K(2)]]
    inlist [OF K(1), of key "''IN''" "''(''" "'')''"]
  show ?thesis by (intro printed_primary) simp_all
qed

lemma wf_printed: "wf_pred p \<Longrightarrow> printable p \<Longrightarrow> printed p"
proof (induction p)
  case (EqPred key v)
  then show ?case
    using printed_primary [OF eq] prints_infix [OF prints_ident prints_op(1) prints_quote, of key v] by simp
next
  case (NePred key v)
  then show ?case
    using printed_primary [OF ne] prints_infix [OF prints_ident prints_op(2) prints_quote, of key v] by simp
next
  case (LikePred key v rx)
  then show ?case
    using printed_primary [OF like] prints_infix [OF prints_ident prints_keyword(4) prints_quote, of key v] by simp
next
  case (InPred key vals repr)
  then obtain ss where "ss \<noteq> []" "vals = fold sadd ss []" "repr = join_with '', '' (map goQuote ss)" "ident key"
    by auto
  moreover from this InPred(2) have "list_all (list_all isPrint) ss"
    by (simp add: list_all_iff set_fold_sadd)
  ultimately show ?case using printed_in by simp
next
  case (ExistsPred key)
  then show ?case
    using printed_primary [OF exists] prints_blank [OF prints_keyword(6) prints_ident, of key] by simp
next
  case (NotPred p)
  then obtain K where "gNot K p" "prints (pstring p) K" by (auto simp: printed_def)
  then show ?case using not_expr [of K p "''NOT''"] prints_blank [OF prints_keyword(3)]
    by (fastforce simp: printed_def)
qed (auto simp: printed_and printed_or)

lemma Parse_printed:
  assumes "printed p"
  shows "Parse (pstring p) = Inr p"
proof -
  obtain K where K: "gNot K p" "prints (pstring p) K" using assms by (auto simp: printed_def)
  obtain ts where ts: "tokenize 0 (pstring p) = Inr ts" "map kv ts = K @ [(TokEOF, [])]"
    using printsD [OF K(2) _ lexes_empty] by (auto simp: lexes_def)
  have "gOr ((K @ []) @ []) p" by (rule or_expr [OF and_expr [OF K(1) and_end] or_end])
  moreover have "map kv (butlast ts) = K" using ts(2) by (metis butlast_snoc map_butlast)
  ultimately have "parseTokens ts = Inr p"
    using parseTokens_iff [OF tokenize_placed [OF ts(1)]] by simp
  then show ?thesis using ts(1) by (simp add: Parse_def lex_def)
qed

section \<open>Properties\<close>

text \<open>C7: \<open>Parse\<close> accepts exactly the inputs whose tokens form a phrase of the documented grammar, and
  returns the predicate the grammar gives that phrase: AND binds tighter than OR, both associate to
  the left, NOT applies to the shortest phrase that follows, and nothing may be left over.\<close>

theorem Parse_iff_grammar:
  "Parse s = Inr p \<longleftrightarrow> (\<exists>ts. lex s = Inr ts \<and> gOr (map kv (butlast ts)) p)"
proof (cases "lex s")
  case (Inr ts)
  then have "well_placed 0 (length s) ts" using tokenize_placed [of 0 s ts] by (simp add: lex_def)
  from parseTokens_iff [OF this] Inr show ?thesis by (simp add: Parse_def)
qed (simp add: Parse_def)

text \<open>C28: the mutually recursive parser always returns: the fuel \<open>Parse\<close> supplies, five calls per
  token, never runs out, on any input.\<close>

theorem Parse_terminates: "Parse s \<noteq> Inl OutOfFuel"
  by (simp add: Parse_def parseTokens_no_fuel split: sum.split)



end
