(* ===== verification/CEF_Sets.thy ===== *)
theory CEF_Sets
  imports CEF_Parser
begin

text \<open>
  The two filter sets of \<open>cloudevent/cefilter\<close>: \<open>FilterSet\<close> (\<open>accessor.go\<close>), a list, and
  \<open>IndexedFilterSet\<close> (\<open>index.go\<close>), which files each filter under the event types it can match.
  Calls are atomic (the indexed set holds its lock for the whole call). A match returns what it
  collected together with the calls it made to \<open>OnLimitExceeded\<close>. Map iteration order does not
  matter: every loop over a map here treats each key alone.
\<close>

record filterEntry =
  fe_Name :: string
  fe_Hint :: string
  fe_Metadata :: "(string, string) gomap"

type_synonym limitCall = "attrs \<times> nat"

section \<open>FilterSet\<close>

record filterSet =
  fs_MaxMatches :: int
  fs_OnLimit :: bool
  fs_filters :: "(filterEntry \<times> predicate) list"

definition fsAdd :: "filterSet \<Rightarrow> filterEntry \<Rightarrow> string \<Rightarrow> (string \<times> parseError) + filterSet" where
  "fsAdd fs entry expr =
    (case Parse expr of
       Inl err \<Rightarrow> Inl (fe_Name entry, err)
     | Inr pred \<Rightarrow> Inr (fs\<lparr>fs_filters := fs_filters fs @ [(entry, pred)]\<rparr>))"

definition limitReached :: "int \<Rightarrow> 'a list \<Rightarrow> bool" where
  "limitReached maxMatches xs \<longleftrightarrow> maxMatches > 0 \<and> int (length xs) \<ge> maxMatches"

definition onLimit :: "bool \<Rightarrow> attrs \<Rightarrow> 'a list \<Rightarrow> limitCall list" where
  "onLimit cb a xs = (if cb then [(a, length xs)] else [])"

fun fsMatchLoop :: "int \<Rightarrow> bool \<Rightarrow> attrs \<Rightarrow> (filterEntry \<times> predicate) list \<Rightarrow> filterEntry list \<Rightarrow>
    filterEntry list \<times> limitCall list" where
  "fsMatchLoop mx cb a [] matched = (matched, [])"
| "fsMatchLoop mx cb a ((entry, pred) # fs) matched =
    (if pmatch pred a then
       let matched' = matched @ [entry] in
       if limitReached mx matched' then (matched', onLimit cb a matched')
       else fsMatchLoop mx cb a fs matched'
     else fsMatchLoop mx cb a fs matched)"

definition fsMatch :: "filterSet \<Rightarrow> attrs \<Rightarrow> filterEntry list \<times> limitCall list" where
  "fsMatch fs a = fsMatchLoop (fs_MaxMatches fs) (fs_OnLimit fs) a (fs_filters fs) []"

definition fsMatchAny :: "filterSet \<Rightarrow> attrs \<Rightarrow> bool" where
  "fsMatchAny fs a = list_ex (\<lambda>(entry, pred). pmatch pred a) (fs_filters fs)"

fun fsEndpointsLoop :: "int \<Rightarrow> bool \<Rightarrow> attrs \<Rightarrow> (filterEntry \<times> predicate) list \<Rightarrow> string list \<Rightarrow>
    string list \<Rightarrow> string list \<times> limitCall list" where
  "fsEndpointsLoop mx cb a [] seen endpoints = (endpoints, [])"
| "fsEndpointsLoop mx cb a ((entry, pred) # fs) seen endpoints =
    (if pmatch pred a then
       let hint = fe_Hint entry in
       if hint = '''' then fsEndpointsLoop mx cb a fs seen endpoints
       else if hint \<in> set seen then fsEndpointsLoop mx cb a fs seen endpoints
       else
         let endpoints' = endpoints @ [hint] in
         if limitReached mx endpoints' then (endpoints', onLimit cb a endpoints')
         else fsEndpointsLoop mx cb a fs (sadd hint seen) endpoints'
     else fsEndpointsLoop mx cb a fs seen endpoints)"

definition fsMatchEndpoints :: "filterSet \<Rightarrow> attrs \<Rightarrow> string list \<times> limitCall list" where
  "fsMatchEndpoints fs a = fsEndpointsLoop (fs_MaxMatches fs) (fs_OnLimit fs) a (fs_filters fs) [] []"

definition fsRemove :: "filterSet \<Rightarrow> string \<Rightarrow> filterSet" where
  "fsRemove fs name = fs\<lparr>fs_filters := filter (\<lambda>(entry, pred). fe_Name entry \<noteq> name) (fs_filters fs)\<rparr>"

section \<open>Type constraints\<close>

record typeConstraint =
  tc_exact :: "string list"
  tc_globs :: "regexp list"
  tc_unconstrained :: bool

abbreviation unconstrained :: typeConstraint where
  "unconstrained \<equiv> \<lparr>tc_exact = [], tc_globs = [], tc_unconstrained = True\<rparr>"

definition intersectConstraints :: "typeConstraint \<Rightarrow> typeConstraint \<Rightarrow> typeConstraint" where
  "intersectConstraints a b =
    \<lparr>tc_exact = remdups (
        filter (\<lambda>v. v \<in> set (tc_exact b)) (tc_exact a) @
        filter (\<lambda>v. list_ex (\<lambda>rx. rx_match rx v) (tc_globs b)) (tc_exact a) @
        filter (\<lambda>v. list_ex (\<lambda>rx. rx_match rx v) (tc_globs a)) (tc_exact b)),
     tc_globs = tc_globs a @ tc_globs b,
     tc_unconstrained = False\<rparr>"

definition unionConstraints :: "typeConstraint \<Rightarrow> typeConstraint \<Rightarrow> typeConstraint" where
  "unionConstraints a b =
    \<lparr>tc_exact = remdups (tc_exact a @ tc_exact b), tc_globs = tc_globs a @ tc_globs b,
     tc_unconstrained = False\<rparr>"

fun extractTypeConstraint :: "predicate \<Rightarrow> typeConstraint" where
  "extractTypeConstraint (EqPred key v) =
    (if key = ''type'' then \<lparr>tc_exact = [v], tc_globs = [], tc_unconstrained = False\<rparr>
     else unconstrained)"
| "extractTypeConstraint (NePred key v) = unconstrained"
| "extractTypeConstraint (LikePred key pattern rx) =
    (if key = ''type'' then \<lparr>tc_exact = [], tc_globs = [rx], tc_unconstrained = False\<rparr>
     else unconstrained)"
| "extractTypeConstraint (InPred key vals repr) =
    (if key = ''type'' then \<lparr>tc_exact = remdups vals, tc_globs = [], tc_unconstrained = False\<rparr>
     else unconstrained)"
| "extractTypeConstraint (ExistsPred key) = unconstrained"
| "extractTypeConstraint (AndPred l r) =
    (let lc = extractTypeConstraint l; rc = extractTypeConstraint r in
     if tc_unconstrained lc then rc
     else if tc_unconstrained rc then lc
     else intersectConstraints lc rc)"
| "extractTypeConstraint (OrPred l r) =
    (let lc = extractTypeConstraint l; rc = extractTypeConstraint r in
     if tc_unconstrained lc \<or> tc_unconstrained rc then unconstrained
     else unionConstraints lc rc)"
| "extractTypeConstraint (NotPred p) = unconstrained"

section \<open>IndexedFilterSet\<close>

text \<open>Entries are pointers: \<open>ie_id\<close> is the identity of the allocation, which only \<open>Stats\<close> looks at.\<close>

record indexedEntry =
  ie_id :: nat
  ie_entry :: filterEntry
  ie_pred :: predicate

record indexedFilterSet =
  ix_MaxMatches :: int
  ix_OnLimit :: bool
  ix_names :: "string list"
  ix_exact :: "(string, indexedEntry list) gomap"
  ix_globs :: "(regexp \<times> indexedEntry) list"
  ix_wild :: "indexedEntry list"
  ix_next :: nat

abbreviation ie_Name :: "indexedEntry \<Rightarrow> string" where
  "ie_Name e \<equiv> fe_Name (ie_entry e)"

definition bucket :: "indexedFilterSet \<Rightarrow> string \<Rightarrow> indexedEntry list" where
  "bucket ix t = (case mget (ix_exact ix) t of None \<Rightarrow> [] | Some es \<Rightarrow> es)"

definition removeLocked :: "indexedFilterSet \<Rightarrow> string \<Rightarrow> indexedFilterSet" where
  "removeLocked ix name =
    ix\<lparr>ix_names := sdel name (ix_names ix),
       ix_exact := filter (\<lambda>(k, es). es \<noteq> [])
         (map (\<lambda>(k, es). (k, filter (\<lambda>e. ie_Name e \<noteq> name) es)) (ix_exact ix)),
       ix_globs := filter (\<lambda>(rx, e). ie_Name e \<noteq> name) (ix_globs ix),
       ix_wild := filter (\<lambda>e. ie_Name e \<noteq> name) (ix_wild ix)\<rparr>"

definition ixRemove :: "indexedFilterSet \<Rightarrow> string \<Rightarrow> indexedFilterSet" where
  "ixRemove ix name = removeLocked ix name"

definition addExact :: "indexedEntry \<Rightarrow> string list \<Rightarrow> (string, indexedEntry list) gomap \<Rightarrow>
    (string, indexedEntry list) gomap" where
  "addExact ie vs m =
    fold (\<lambda>v m. mput v ((case mget m v of None \<Rightarrow> [] | Some es \<Rightarrow> es) @ [ie]) m) vs m"

definition ixInsert :: "indexedFilterSet \<Rightarrow> indexedEntry \<Rightarrow> typeConstraint \<Rightarrow> indexedFilterSet" where
  "ixInsert ix ie tc =
    (if tc_unconstrained tc then ix\<lparr>ix_wild := ix_wild ix @ [ie]\<rparr>
     else
       ix\<lparr>ix_exact := addExact ie (tc_exact tc) (ix_exact ix),
          ix_globs := ix_globs ix @ map (\<lambda>rx. (rx, ie)) (tc_globs tc),
          ix_wild := (if tc_exact tc = [] \<and> tc_globs tc = [] then ix_wild ix @ [ie] else ix_wild ix)\<rparr>)"

definition ixAdd :: "indexedFilterSet \<Rightarrow> filterEntry \<Rightarrow> string \<Rightarrow> (string \<times> parseError) + indexedFilterSet" where
  "ixAdd ix entry expr =
    (case Parse expr of
       Inl err \<Rightarrow> Inl (fe_Name entry, err)
     | Inr pred \<Rightarrow>
         (let ie = \<lparr>ie_id = ix_next ix, ie_entry = entry, ie_pred = pred\<rparr>;
              tc = extractTypeConstraint pred;
              ix1 = (if fe_Name entry \<in> set (ix_names ix) then removeLocked ix (fe_Name entry) else ix);
              ix2 = ix1\<lparr>ix_names := sadd (fe_Name entry) (ix_names ix1), ix_next := ix_next ix + 1\<rparr>
          in Inr (ixInsert ix2 ie tc)))"

definition typeOf :: "attrs \<Rightarrow> string" where
  "typeOf a = (case mget a ''type'' of None \<Rightarrow> [] | Some t \<Rightarrow> t)"

definition ixMatchAny :: "indexedFilterSet \<Rightarrow> attrs \<Rightarrow> bool" where
  "ixMatchAny ix a =
    (let t = typeOf a in
     list_ex (\<lambda>e. pmatch (ie_pred e) a) (bucket ix t) \<or>
     list_ex (\<lambda>(rx, e). rx_match rx t \<and> pmatch (ie_pred e) a) (ix_globs ix) \<or>
     list_ex (\<lambda>e. pmatch (ie_pred e) a) (ix_wild ix))"

text \<open>The variables the closure \<open>add\<close> of \<open>Match\<close> writes, and of \<open>MatchEndpoints\<close>.\<close>

record 'x collector =
  co_names :: "string list"
  co_hints :: "string list"
  co_out :: "'x list"
  co_done :: bool
  co_calls :: "limitCall list"

definition collect0 :: "'x collector" where
  "collect0 = \<lparr>co_names = [], co_hints = [], co_out = [], co_done = False, co_calls = []\<rparr>"

definition collect :: "int \<Rightarrow> bool \<Rightarrow> attrs \<Rightarrow> 'x \<Rightarrow> 'x collector \<Rightarrow> 'x collector" where
  "collect mx cb a x st =
    (let out = co_out st @ [x] in
     if limitReached mx out
     then st\<lparr>co_out := out, co_done := True, co_calls := co_calls st @ onLimit cb a out\<rparr>
     else st\<lparr>co_out := out\<rparr>)"

definition matchAdd :: "indexedFilterSet \<Rightarrow> attrs \<Rightarrow> indexedEntry \<Rightarrow> filterEntry collector \<Rightarrow> filterEntry collector" where
  "matchAdd ix a e st =
    (if co_done st then st
     else if ie_Name e \<in> set (co_names st) then st
     else
       let st' = st\<lparr>co_names := sadd (ie_Name e) (co_names st)\<rparr> in
       if pmatch (ie_pred e) a then collect (ix_MaxMatches ix) (ix_OnLimit ix) a (ie_entry e) st' else st')"

definition endpointsAdd :: "indexedFilterSet \<Rightarrow> attrs \<Rightarrow> indexedEntry \<Rightarrow> string collector \<Rightarrow> string collector" where
  "endpointsAdd ix a e st =
    (if co_done st then st
     else if ie_Name e \<in> set (co_names st) then st
     else
       let st' = st\<lparr>co_names := sadd (ie_Name e) (co_names st)\<rparr>; hint = fe_Hint (ie_entry e) in
       if hint = '''' then st'
       else if hint \<in> set (co_hints st') then st'
       else if pmatch (ie_pred e) a then
         collect (ix_MaxMatches ix) (ix_OnLimit ix) a hint (st'\<lparr>co_hints := sadd hint (co_hints st')\<rparr>)
       else st')"

text \<open>A loop that stops when \<open>done\<close> is set.\<close>

fun loopUntil :: "('e \<Rightarrow> 'x collector \<Rightarrow> 'x collector) \<Rightarrow> 'e list \<Rightarrow> 'x collector \<Rightarrow> 'x collector" where
  "loopUntil f [] st = st"
| "loopUntil f (e # es) st = (if co_done st then st else loopUntil f es (f e st))"

definition threeLoops :: "indexedFilterSet \<Rightarrow> attrs \<Rightarrow> (indexedEntry \<Rightarrow> 'x collector \<Rightarrow> 'x collector) \<Rightarrow> 'x collector" where
  "threeLoops ix a add =
    (let t = typeOf a;
         st1 = loopUntil add (bucket ix t) collect0;
         st2 = loopUntil (\<lambda>(rx, e) st. if rx_match rx t then add e st else st) (ix_globs ix) st1
     in loopUntil add (ix_wild ix) st2)"

definition ixMatch :: "indexedFilterSet \<Rightarrow> attrs \<Rightarrow> filterEntry list \<times> limitCall list" where
  "ixMatch ix a = (let st = threeLoops ix a (matchAdd ix a) in (co_out st, co_calls st))"

definition ixMatchEndpoints :: "indexedFilterSet \<Rightarrow> attrs \<Rightarrow> string list \<times> limitCall list" where
  "ixMatchEndpoints ix a = (let st = threeLoops ix a (endpointsAdd ix a) in (co_out st, co_calls st))"

record indexStats =
  st_Total :: nat
  st_ExactTypeBuckets :: nat
  st_GlobEntries :: nat
  st_Unconstrained :: nat

definition ixStats :: "indexedFilterSet \<Rightarrow> indexStats" where
  "ixStats ix =
    (let seen = remdups (map ie_id (concat (map snd (ix_exact ix))) @ map (\<lambda>(rx, e). ie_id e) (ix_globs ix)) in
     \<lparr>st_Total = length seen + length (ix_wild ix), st_ExactTypeBuckets = length (ix_exact ix),
      st_GlobEntries = length (ix_globs ix), st_Unconstrained = length (ix_wild ix)\<rparr>)"

section \<open>What the loops collect\<close>

definition capped :: "int \<Rightarrow> 'a list \<Rightarrow> 'a list" where
  "capped mx xs = (if mx > 0 then take (nat mx) xs else xs)"

definition cappedCalls :: "int \<Rightarrow> bool \<Rightarrow> attrs \<Rightarrow> 'a list \<Rightarrow> limitCall list" where
  "cappedCalls mx cb a xs = (if mx > 0 \<and> int (length xs) \<ge> mx \<and> cb then [(a, nat mx)] else [])"

definition room :: "int \<Rightarrow> 'a list \<Rightarrow> bool" where
  "room mx xs \<longleftrightarrow> mx > 0 \<longrightarrow> int (length xs) < mx"

lemma capped_room: "room mx xs \<Longrightarrow> capped mx xs = xs \<and> cappedCalls mx cb a xs = []"
  by (auto simp: room_def capped_def cappedCalls_def)

lemma room_snoc:
  "room mx xs \<Longrightarrow> \<not> limitReached mx (xs @ [x]) \<Longrightarrow> room mx (xs @ [x])"
  by (auto simp: room_def limitReached_def)

lemma capped_full:
  "room mx xs \<Longrightarrow> limitReached mx (xs @ [x]) \<Longrightarrow>
     capped mx ((xs @ [x]) @ ys) = xs @ [x] \<and> cappedCalls mx cb a ((xs @ [x]) @ ys) = onLimit cb a (xs @ [x])"
proof -
  assume "room mx xs" "limitReached mx (xs @ [x])"
  then have "mx > 0" "nat mx = Suc (length xs)" by (auto simp: room_def limitReached_def)
  then show ?thesis by (auto simp: capped_def cappedCalls_def onLimit_def)
qed

lemma capped_limit:
  "mx > 0 \<Longrightarrow> int (length (capped mx xs)) \<le> mx \<and>
     cappedCalls mx True a ys = (if int (length (capped mx ys)) = mx then [(a, length (capped mx ys))] else [])"
  by (auto simp: capped_def cappedCalls_def)

fun nubFrom :: "'a set \<Rightarrow> 'a list \<Rightarrow> 'a list" where
  "nubFrom S [] = []"
| "nubFrom S (x # xs) = (if x \<in> S then nubFrom S xs else x # nubFrom (insert x S) xs)"

lemma set_nubFrom: "set (nubFrom S xs) = set xs - S"
  by (induction S xs rule: nubFrom.induct) auto

lemma distinct_nubFrom: "distinct (nubFrom S xs)"
  by (induction S xs rule: nubFrom.induct) (auto simp: set_nubFrom)

abbreviation hits :: "attrs \<Rightarrow> (filterEntry \<times> predicate) list \<Rightarrow> filterEntry list" where
  "hits a fs \<equiv> map fst (filter (\<lambda>(e, p). pmatch p a) fs)"

abbreviation hintsOf :: "filterEntry list \<Rightarrow> string list" where
  "hintsOf es \<equiv> filter (\<lambda>h. h \<noteq> []) (map fe_Hint es)"

lemma fsMatchLoop_spec:
  "room mx acc \<Longrightarrow> fsMatchLoop mx cb a fs acc =
     (capped mx (acc @ hits a fs), cappedCalls mx cb a (acc @ hits a fs))"
proof (induction mx cb a fs acc rule: fsMatchLoop.induct)
  case (2 mx cb a e p fs acc)
  show ?case
  proof (cases "pmatch p a \<and> limitReached mx (acc @ [e])")
    case True
    then show ?thesis using capped_full [OF "2.prems", of e] by (simp add: Let_def)
  next
    case False
    then show ?thesis using 2 room_snoc [OF "2.prems", of e] by (auto simp: Let_def)
  qed
qed (simp add: capped_room)

lemma fsEndpointsLoop_spec:
  "room mx acc \<Longrightarrow> fsEndpointsLoop mx cb a fs seen acc =
     (let out = acc @ nubFrom (set seen) (hintsOf (hits a fs)) in (capped mx out, cappedCalls mx cb a out))"
proof (induction mx cb a fs seen acc rule: fsEndpointsLoop.induct)
  case (2 mx cb a e p fs seen acc)
  let ?h = "fe_Hint e"
  show ?case
  proof (cases "pmatch p a \<and> ?h \<noteq> [] \<and> ?h \<notin> set seen \<and> limitReached mx (acc @ [?h])")
    case True
    then show ?thesis using capped_full [OF "2.prems", of ?h] by (simp add: Let_def)
  next
    case False
    then show ?thesis using 2 room_snoc [OF "2.prems", of ?h] by (auto simp: Let_def)
  qed
qed (simp add: capped_room)

section \<open>The loops of the indexed set\<close>

lemma loopUntil_done: "co_done st \<Longrightarrow> loopUntil f es st = st"
  by (cases es) auto

lemma loopUntil_append: "loopUntil f (xs @ ys) st = loopUntil f ys (loopUntil f xs st)"
  by (induction xs arbitrary: st) (auto simp: loopUntil_done)

lemma loopUntil_filter:
  "loopUntil (\<lambda>(r, e) st. if P r then f e st else st) xs st = loopUntil f (map snd (filter (P \<circ> fst) xs)) st"
  by (induction xs arbitrary: st) (auto simp: loopUntil_done)

definition candidates :: "indexedFilterSet \<Rightarrow> attrs \<Rightarrow> indexedEntry list" where
  "candidates ix a =
    bucket ix (typeOf a) @ map snd (filter ((\<lambda>rx. rx_match rx (typeOf a)) \<circ> fst) (ix_globs ix)) @ ix_wild ix"

lemma threeLoops_eq: "threeLoops ix a add = loopUntil add (candidates ix a) collect0"
  by (simp add: threeLoops_def candidates_def loopUntil_append loopUntil_filter [where P = "\<lambda>rx. rx_match rx _"] Let_def)

fun dedupN :: "string set \<Rightarrow> indexedEntry list \<Rightarrow> indexedEntry list" where
  "dedupN S [] = []"
| "dedupN S (e # es) = (if ie_Name e \<in> S then dedupN S es else e # dedupN (insert (ie_Name e) S) es)"

lemma dedupN_subset: "set (dedupN S es) \<subseteq> set es"
  by (induction S es rule: dedupN.induct) auto

lemma dedupN_names: "ie_Name ` set (dedupN S es) = ie_Name ` set es - S"
  by (induction S es rule: dedupN.induct) auto

lemma dedupN_distinct: "distinct (map ie_Name (dedupN S es))"
  by (induction S es rule: dedupN.induct) (use dedupN_names in \<open>auto simp flip: image_set\<close>)

lemma dedupN_set:
  assumes "inj_on ie_Name (set es)"
  shows "set (dedupN {} es) = set es"
proof (rule antisym)
  show "set es \<subseteq> set (dedupN {} es)"
  proof
    fix e assume e: "e \<in> set es"
    then have "ie_Name e \<in> ie_Name ` set (dedupN {} es)" unfolding dedupN_names by simp
    then obtain d where d: "d \<in> set (dedupN {} es)" "ie_Name d = ie_Name e" by auto
    then have "d = e" using assms e dedupN_subset [of "{}" es] by (auto dest: inj_onD)
    with d show "e \<in> set (dedupN {} es)" by simp
  qed
qed (rule dedupN_subset)

abbreviation ihits :: "attrs \<Rightarrow> indexedEntry list \<Rightarrow> filterEntry list" where
  "ihits a es \<equiv> map ie_entry (filter (\<lambda>e. pmatch (ie_pred e) a) es)"

lemma matchAdd_cases:
  assumes "\<not> co_done st"
  shows "ie_Name e \<in> set (co_names st) \<Longrightarrow> matchAdd ix a e st = st"
    and "ie_Name e \<notin> set (co_names st) \<Longrightarrow> \<not> pmatch (ie_pred e) a \<Longrightarrow>
      matchAdd ix a e st = st\<lparr>co_names := sadd (ie_Name e) (co_names st)\<rparr>"
    and "ie_Name e \<notin> set (co_names st) \<Longrightarrow> pmatch (ie_pred e) a \<Longrightarrow>
      matchAdd ix a e st = collect (ix_MaxMatches ix) (ix_OnLimit ix) a (ie_entry e)
        (st\<lparr>co_names := sadd (ie_Name e) (co_names st)\<rparr>)"
  using assms by (simp_all add: matchAdd_def Let_def)

lemma matchAdd_loop:
  "\<not> co_done st \<Longrightarrow> room (ix_MaxMatches ix) (co_out st) \<Longrightarrow> co_calls st = [] \<Longrightarrow>
   out = co_out st @ ihits a (dedupN (set (co_names st)) es) \<Longrightarrow>
   co_out (loopUntil (matchAdd ix a) es st) = capped (ix_MaxMatches ix) out \<and>
   co_calls (loopUntil (matchAdd ix a) es st) = cappedCalls (ix_MaxMatches ix) (ix_OnLimit ix) a out"
proof (induction es arbitrary: st)
  case Nil
  then show ?case by (simp add: capped_room)
next
  case (Cons e es)
  note IH = Cons.IH [of "matchAdd ix a e st"]
  note step = matchAdd_cases [OF Cons.prems(1), where e = e and ix = ix and a = a]
  consider (seen) "ie_Name e \<in> set (co_names st)"
    | (miss) "ie_Name e \<notin> set (co_names st)" "\<not> pmatch (ie_pred e) a"
    | (hit) "ie_Name e \<notin> set (co_names st)" "pmatch (ie_pred e) a"
        "\<not> limitReached (ix_MaxMatches ix) (co_out st @ [ie_entry e])"
    | (full) "ie_Name e \<notin> set (co_names st)" "pmatch (ie_pred e) a"
        "limitReached (ix_MaxMatches ix) (co_out st @ [ie_entry e])" by blast
  then show ?case
  proof cases
    case seen
    then show ?thesis using IH Cons.prems step(1) by simp
  next
    case miss
    then show ?thesis using IH Cons.prems step(2) by simp
  next
    case hit
    then show ?thesis using IH Cons.prems step(3) room_snoc [OF Cons.prems(2) hit(3)]
      by (simp add: collect_def Let_def)
  next
    case full
    then show ?thesis using Cons.prems step(3) capped_full [OF Cons.prems(2) full(3)]
      by (simp add: collect_def loopUntil_done Let_def)
  qed
qed

lemma endpointsAdd_cases:
  fixes e defines "h \<equiv> fe_Hint (ie_entry e)"
  assumes "\<not> co_done st"
  shows "ie_Name e \<in> set (co_names st) \<Longrightarrow> endpointsAdd ix a e st = st"
    and "ie_Name e \<notin> set (co_names st) \<Longrightarrow> h = [] \<or> h \<in> set (co_hints st) \<or> \<not> pmatch (ie_pred e) a \<Longrightarrow>
      endpointsAdd ix a e st = st\<lparr>co_names := sadd (ie_Name e) (co_names st)\<rparr>"
    and "ie_Name e \<notin> set (co_names st) \<Longrightarrow> h \<noteq> [] \<Longrightarrow> h \<notin> set (co_hints st) \<Longrightarrow> pmatch (ie_pred e) a \<Longrightarrow>
      endpointsAdd ix a e st = collect (ix_MaxMatches ix) (ix_OnLimit ix) a h
        (st\<lparr>co_names := sadd (ie_Name e) (co_names st), co_hints := sadd h (co_hints st)\<rparr>)"
  using assms by (auto simp: endpointsAdd_def Let_def)

lemma endpointsAdd_loop:
  "\<not> co_done st \<Longrightarrow> room (ix_MaxMatches ix) (co_out st) \<Longrightarrow> co_calls st = [] \<Longrightarrow>
   out = co_out st @ nubFrom (set (co_hints st)) (hintsOf (ihits a (dedupN (set (co_names st)) es))) \<Longrightarrow>
   co_out (loopUntil (endpointsAdd ix a) es st) = capped (ix_MaxMatches ix) out \<and>
   co_calls (loopUntil (endpointsAdd ix a) es st) = cappedCalls (ix_MaxMatches ix) (ix_OnLimit ix) a out"
proof (induction es arbitrary: st)
  case Nil
  then show ?case by (simp add: capped_room)
next
  case (Cons e es)
  let ?h = "fe_Hint (ie_entry e)"
  note IH = Cons.IH [of "endpointsAdd ix a e st"]
  note step = endpointsAdd_cases [OF Cons.prems(1), where e = e and ix = ix and a = a]
  consider (seen) "ie_Name e \<in> set (co_names st)"
    | (miss) "ie_Name e \<notin> set (co_names st)" "?h = [] \<or> ?h \<in> set (co_hints st) \<or> \<not> pmatch (ie_pred e) a"
    | (hit) "ie_Name e \<notin> set (co_names st)" "?h \<noteq> []" "?h \<notin> set (co_hints st)" "pmatch (ie_pred e) a"
        "\<not> limitReached (ix_MaxMatches ix) (co_out st @ [?h])"
    | (full) "ie_Name e \<notin> set (co_names st)" "?h \<noteq> []" "?h \<notin> set (co_hints st)" "pmatch (ie_pred e) a"
        "limitReached (ix_MaxMatches ix) (co_out st @ [?h])" by blast
  then show ?case
  proof cases
    case seen
    then show ?thesis using IH Cons.prems step(1) by simp
  next
    case miss
    then have "nubFrom S (hintsOf (ihits a (e # es))) = nubFrom S (hintsOf (ihits a es))"
      if "set (co_hints st) \<subseteq> S" for S es using that by auto
    then show ?thesis using IH Cons.prems miss(1) step(2) [OF miss] by simp
  next
    case hit
    then show ?thesis using IH Cons.prems step(3) room_snoc [OF Cons.prems(2) hit(5)]
      by (simp add: collect_def Let_def)
  next
    case full
    then show ?thesis using Cons.prems step(3) capped_full [OF Cons.prems(2) full(5)]
      by (simp add: collect_def loopUntil_done Let_def)
  qed
qed

lemma collect0_simps [simp]:
  "co_names collect0 = []" "co_hints collect0 = []" "co_out collect0 = []" "\<not> co_done collect0"
  "co_calls collect0 = []"
  by (simp_all add: collect0_def)

lemma room_Nil [simp]: "room mx []"
  by (simp add: room_def)

lemma ixMatch_eq:
  "ixMatch ix a = (let out = ihits a (dedupN {} (candidates ix a)) in
     (capped (ix_MaxMatches ix) out, cappedCalls (ix_MaxMatches ix) (ix_OnLimit ix) a out))"
  using matchAdd_loop [of collect0 ix _ a "candidates ix a", OF _ _ _ refl]
  by (simp add: ixMatch_def threeLoops_eq Let_def)

lemma ixMatchEndpoints_eq:
  "ixMatchEndpoints ix a = (let out = nubFrom {} (hintsOf (ihits a (dedupN {} (candidates ix a)))) in
     (capped (ix_MaxMatches ix) out, cappedCalls (ix_MaxMatches ix) (ix_OnLimit ix) a out))"
  using endpointsAdd_loop [of collect0 ix _ a "candidates ix a", OF _ _ _ refl]
  by (simp add: ixMatchEndpoints_def threeLoops_eq Let_def)

lemma fsMatch_eq:
  "fsMatch fs a = (let out = hits a (fs_filters fs) in
     (capped (fs_MaxMatches fs) out, cappedCalls (fs_MaxMatches fs) (fs_OnLimit fs) a out))"
  by (simp add: fsMatch_def fsMatchLoop_spec Let_def)

lemma fsMatchEndpoints_eq:
  "fsMatchEndpoints fs a = (let out = nubFrom {} (hintsOf (hits a (fs_filters fs))) in
     (capped (fs_MaxMatches fs) out, cappedCalls (fs_MaxMatches fs) (fs_OnLimit fs) a out))"
  by (simp add: fsMatchEndpoints_def fsEndpointsLoop_spec Let_def)

section \<open>Soundness of the type constraint\<close>

definition tc_allows :: "typeConstraint \<Rightarrow> string \<Rightarrow> bool" where
  "tc_allows tc t \<longleftrightarrow> t \<in> set (tc_exact tc) \<or> (\<exists>rx \<in> set (tc_globs tc). rx_match rx t)"

lemma tc_allows_union:
  "tc_allows (unionConstraints a b) t \<longleftrightarrow> tc_allows a t \<or> tc_allows b t"
  by (auto simp: tc_allows_def unionConstraints_def)

lemma tc_allows_intersect:
  "tc_allows a t \<Longrightarrow> tc_allows b t \<Longrightarrow> tc_allows (intersectConstraints a b) t"
  by (auto simp: tc_allows_def intersectConstraints_def list_ex_iff)

text \<open>A filter that matches an event allows the event's type: it is filed where it will be looked for.\<close>

lemma extractTypeConstraint_sound:
  "pmatch p a \<Longrightarrow> \<not> tc_unconstrained (extractTypeConstraint p) \<Longrightarrow> tc_allows (extractTypeConstraint p) (typeOf a)"
proof (induction p)
  case (AndPred l r)
  then show ?case by (auto simp: Let_def tc_allows_intersect split: if_splits)
next
  case (OrPred l r)
  then show ?case by (auto simp: Let_def tc_allows_union split: if_splits)
qed (auto simp: tc_allows_def typeOf_def split: if_splits option.splits)

lemma distinct_tc_exact: "distinct (tc_exact (extractTypeConstraint p))"
  by (induction p) (auto simp: Let_def intersectConstraints_def unionConstraints_def)

section \<open>Invariant of the index\<close>

definition wildcard :: "indexedEntry \<Rightarrow> bool" where
  "wildcard e \<longleftrightarrow> (let tc = extractTypeConstraint (ie_pred e) in
     tc_unconstrained tc \<or> (tc_exact tc = [] \<and> tc_globs tc = []))"

definition in_bucket :: "indexedEntry \<Rightarrow> string \<Rightarrow> bool" where
  "in_bucket e t \<longleftrightarrow> \<not> wildcard e \<and> t \<in> set (tc_exact (extractTypeConstraint (ie_pred e)))"

definition in_globs :: "indexedEntry \<Rightarrow> regexp \<Rightarrow> bool" where
  "in_globs e rx \<longleftrightarrow> \<not> wildcard e \<and> rx \<in> set (tc_globs (extractTypeConstraint (ie_pred e)))"

text \<open>
  \<open>indexes ix E\<close>: the index holds exactly the entries \<open>E\<close>, each in every place its type constraint
  calls for and in no other.
\<close>

definition indexes :: "indexedFilterSet \<Rightarrow> indexedEntry set \<Rightarrow> bool" where
  "indexes ix E \<longleftrightarrow>
    wf_map (ix_exact ix) \<and> (\<forall>(k, es) \<in> set (ix_exact ix). es \<noteq> []) \<and>
    (\<forall>t. set (bucket ix t) = {e \<in> E. in_bucket e t}) \<and>
    set (ix_globs ix) = {(rx, e). e \<in> E \<and> in_globs e rx} \<and>
    set (ix_wild ix) = {e \<in> E. wildcard e} \<and> distinct (ix_wild ix) \<and>
    set (ix_names ix) = ie_Name ` E \<and> distinct (ix_names ix) \<and>
    inj_on ie_Name E \<and> inj_on ie_id E \<and> finite E \<and> (\<forall>e \<in> E. ie_id e < ix_next ix)"

lemma candidates_sound: "indexes ix E \<Longrightarrow> set (candidates ix a) \<subseteq> E"
  by (auto simp: indexes_def candidates_def)

lemma candidates_complete:
  assumes "indexes ix E" and "e \<in> E" and "pmatch (ie_pred e) a"
  shows "e \<in> set (candidates ix a)"
proof (cases "wildcard e")
  case True
  with assms(1,2) show ?thesis by (auto simp: indexes_def candidates_def)
next
  case False
  then have "tc_allows (extractTypeConstraint (ie_pred e)) (typeOf a)"
    using extractTypeConstraint_sound [OF assms(3)] by (simp add: wildcard_def Let_def)
  then consider "in_bucket e (typeOf a)" | rx where "in_globs e rx" "rx_match rx (typeOf a)"
    using False by (auto simp: tc_allows_def in_bucket_def in_globs_def)
  then show ?thesis
  proof cases
    case 1
    then have "e \<in> set (bucket ix (typeOf a))" using assms(1,2) by (simp add: indexes_def)
    then show ?thesis by (simp add: candidates_def)
  next
    case 2
    then have "(rx, e) \<in> set (ix_globs ix)" using assms(1,2) by (simp add: indexes_def)
    with 2 show ?thesis by (force simp: candidates_def)
  qed
qed

lemma set_candidates_hits:
  assumes "indexes ix E"
  shows "set (ihits a (dedupN {} (candidates ix a))) = {ie_entry e | e. e \<in> E \<and> pmatch (ie_pred e) a}"
proof -
  have "inj_on ie_Name E" using assms by (simp add: indexes_def)
  then have "inj_on ie_Name (set (candidates ix a))"
    by (rule inj_on_subset [OF _ candidates_sound [OF assms]])
  then have "set (dedupN {} (candidates ix a)) = set (candidates ix a)" by (rule dedupN_set)
  then show ?thesis using candidates_sound [OF assms] candidates_complete [OF assms] by auto
qed

lemma ixMatchAny_iff:
  assumes "indexes ix E"
  shows "ixMatchAny ix a \<longleftrightarrow> (\<exists>e \<in> E. pmatch (ie_pred e) a)"
proof -
  have "ixMatchAny ix a \<longleftrightarrow> (\<exists>e \<in> set (candidates ix a). pmatch (ie_pred e) a)"
    by (force simp: ixMatchAny_def candidates_def Let_def list_ex_iff)
  then show ?thesis using candidates_sound [OF assms] candidates_complete [OF assms] by blast
qed

section \<open>Every operation keeps the index\<close>

text \<open>The loop of \<open>removeLocked\<close> over the map, seen through lookups.\<close>

lemma mget_filter_map:
  "wf_map m \<Longrightarrow> mget (filter (\<lambda>(k, es). es \<noteq> []) (map (\<lambda>(k, es). (k, f es)) m)) t =
     (case mget m t of None \<Rightarrow> None | Some es \<Rightarrow> if f es = [] then None else Some (f es))"
proof (induction m)
  case (Cons x m)
  obtain k es where x: "x = (k, es)" by (cases x)
  have "mget m k = None" using Cons.prems x by (simp add: map_of_eq_None_iff)
  with Cons x show ?case by auto
qed simp

lemma wf_filter_map:
  "wf_map m \<Longrightarrow> wf_map (filter (\<lambda>(k, es). es \<noteq> []) (map (\<lambda>(k, es). (k, f es)) m))"
proof -
  assume "wf_map m"
  then have "wf_map (map (\<lambda>(k, es). (k, f es)) m)" by (simp add: comp_def split_beta)
  then show ?thesis by (rule distinct_map_filter)
qed

lemma bucket_removeLocked:
  "wf_map (ix_exact ix) \<Longrightarrow> bucket (removeLocked ix n) t = filter (\<lambda>e. ie_Name e \<noteq> n) (bucket ix t)"
  by (simp add: bucket_def removeLocked_def mget_filter_map split: option.split)

lemma indexes_removeLocked:
  assumes "indexes ix E"
  shows "indexes (removeLocked ix n) {e \<in> E. ie_Name e \<noteq> n}"
proof -
  have wf: "wf_map (ix_exact ix)" using assms by (simp add: indexes_def)
  have "set (bucket (removeLocked ix n) t) = {e \<in> {e \<in> E. ie_Name e \<noteq> n}. in_bucket e t}" for t
    using assms by (auto simp: indexes_def bucket_removeLocked [OF wf])
  moreover have "wf_map (ix_exact (removeLocked ix n))"
    using wf_filter_map [OF wf] by (simp add: removeLocked_def)
  moreover have "set (ix_names (removeLocked ix n)) = ie_Name ` {e \<in> E. ie_Name e \<noteq> n}"
    using assms by (auto simp: indexes_def removeLocked_def)
  moreover have "inj_on ie_Name {e \<in> E. ie_Name e \<noteq> n}" "inj_on ie_id {e \<in> E. ie_Name e \<noteq> n}"
    using assms by (auto simp: indexes_def intro: inj_on_subset)
  ultimately show ?thesis
    using assms by (auto simp: indexes_def removeLocked_def distinct_removeAll)
qed

lemma mget_addExact:
  "distinct vs \<Longrightarrow> wf_map m \<Longrightarrow> wf_map (addExact ie vs m) \<and>
     mget (addExact ie vs m) t =
       (if t \<in> set vs then Some ((case mget m t of None \<Rightarrow> [] | Some es \<Rightarrow> es) @ [ie]) else mget m t)"
  unfolding addExact_def
  by (induction vs arbitrary: m) (auto simp: gomap)

lemma addExact_nonempty:
  "\<forall>(k, es) \<in> set m. es \<noteq> [] \<Longrightarrow> \<forall>(k, es) \<in> set (addExact ie vs m). es \<noteq> []"
proof (induction vs arbitrary: m)
  case (Cons v vs)
  have "\<forall>(k, es) \<in> set (mput v (xs @ [ie]) m). es \<noteq> []" for xs
    using Cons.prems by (induction m) auto
  from Cons.IH [OF this] show ?case by (simp add: addExact_def)
qed (simp add: addExact_def)

lemma indexes_ixInsert:
  assumes ix: "indexes ix E" and new: "ie_Name ie \<notin> ie_Name ` E" and id: "ie_id ie = ix_next ix"
    and tc: "tc = extractTypeConstraint (ie_pred ie)"
  shows "indexes (ixInsert (ix\<lparr>ix_names := sadd (ie_Name ie) (ix_names ix), ix_next := ix_next ix + 1\<rparr>) ie tc)
    (insert ie E)"
proof -
  let ?ix = "ixInsert (ix\<lparr>ix_names := sadd (ie_Name ie) (ix_names ix), ix_next := ix_next ix + 1\<rparr>) ie tc"
  have fresh: "ie \<notin> E" using new by auto
  have m: "wf_map (ix_exact ?ix) \<and> (\<forall>(k, es) \<in> set (ix_exact ?ix). es \<noteq> [])"
    using ix tc mget_addExact [of "tc_exact tc" "ix_exact ix" ie] distinct_tc_exact [of "ie_pred ie"]
      addExact_nonempty [of "ix_exact ix" ie "tc_exact tc"]
    by (auto simp: ixInsert_def indexes_def)
  have "bucket ?ix t = bucket ix t @ (if in_bucket ie t then [ie] else [])" for t
    using ix tc mget_addExact [of "tc_exact tc" "ix_exact ix" ie t] distinct_tc_exact [of "ie_pred ie"]
    by (auto simp: ixInsert_def bucket_def in_bucket_def wildcard_def Let_def indexes_def)
  then have b: "set (bucket ?ix t) = {e \<in> insert ie E. in_bucket e t}" for t
    using ix fresh by (auto simp: indexes_def)
  have "ix_globs ?ix = ix_globs ix @ (if wildcard ie then [] else map (\<lambda>rx. (rx, ie)) (tc_globs tc))"
    using tc by (auto simp: ixInsert_def wildcard_def Let_def)
  then have g: "set (ix_globs ?ix) = {(rx, e). e \<in> insert ie E \<and> in_globs e rx}"
    using ix fresh tc by (auto simp: indexes_def in_globs_def)
  have "ix_wild ?ix = ix_wild ix @ (if wildcard ie then [ie] else [])"
    using tc by (auto simp: ixInsert_def wildcard_def Let_def)
  then have w: "set (ix_wild ?ix) = {e \<in> insert ie E. wildcard e}" "distinct (ix_wild ?ix)"
    using ix fresh by (auto simp: indexes_def)
  have n: "ix_names ?ix = sadd (ie_Name ie) (ix_names ix)" "ix_next ?ix = ix_next ix + 1"
    by (simp_all add: ixInsert_def)
  have i: "inj_on ie_Name (insert ie E)" "inj_on ie_id (insert ie E)"
    using ix new id fresh by (auto simp: indexes_def)
  show ?thesis unfolding indexes_def using m b g w n i ix id by (auto simp: indexes_def)
qed

definition mkEntry :: "indexedFilterSet \<Rightarrow> filterEntry \<Rightarrow> predicate \<Rightarrow> indexedEntry" where
  "mkEntry ix entry p = \<lparr>ie_id = ix_next ix, ie_entry = entry, ie_pred = p\<rparr>"

lemma indexes_ixAdd:
  assumes ix: "indexes ix E" and p: "Parse expr = Inr p"
  shows "\<exists>ix'. ixAdd ix entry expr = Inr ix' \<and>
    indexes ix' (insert (mkEntry ix entry p) {e \<in> E. ie_Name e \<noteq> fe_Name entry}) \<and>
    ix_MaxMatches ix' = ix_MaxMatches ix \<and> ix_OnLimit ix' = ix_OnLimit ix"
proof -
  let ?n = "fe_Name entry" and ?ie = "mkEntry ix entry p"
  let ?E = "{e \<in> E. ie_Name e \<noteq> ?n}"
  define ix1 where "ix1 = (if ?n \<in> set (ix_names ix) then removeLocked ix ?n else ix)"
  have same: "ix_next ix1 = ix_next ix" "ix_MaxMatches ix1 = ix_MaxMatches ix" "ix_OnLimit ix1 = ix_OnLimit ix"
    by (simp_all add: ix1_def removeLocked_def)
  have "indexes ix1 ?E"
  proof (cases "?n \<in> set (ix_names ix)")
    case True
    then show ?thesis using indexes_removeLocked [OF ix, of ?n] by (simp add: ix1_def)
  next
    case False
    moreover have "set (ix_names ix) = ie_Name ` E" using ix by (simp add: indexes_def)
    ultimately have "?E = E" by force
    with False ix show ?thesis by (simp add: ix1_def)
  qed
  then have "indexes (ixInsert (ix1\<lparr>ix_names := sadd (ie_Name ?ie) (ix_names ix1), ix_next := ix_next ix1 + 1\<rparr>)
      ?ie (extractTypeConstraint p)) (insert ?ie ?E)"
    by (rule indexes_ixInsert) (auto simp: mkEntry_def same)
  moreover have "ixAdd ix entry expr = Inr (ixInsert (ix1\<lparr>ix_names := sadd ?n (ix_names ix1),
      ix_next := ix_next ix + 1\<rparr>) ?ie (extractTypeConstraint p))"
    by (simp add: ixAdd_def p Let_def ix1_def mkEntry_def)
  ultimately show ?thesis using same by (auto simp: mkEntry_def ixInsert_def)
qed

section \<open>The contract of \<open>IFilterSet\<close>\<close>

text \<open>The rules a set holds, as pairs of entry and compiled filter.\<close>

type_synonym rules = "(filterEntry \<times> predicate) set"

definition named :: "rules \<Rightarrow> string set" where
  "named R = fe_Name ` fst ` R"

definition without :: "string \<Rightarrow> rules \<Rightarrow> rules" where
  "without n R = {(e, p) \<in> R. fe_Name e \<noteq> n}"

definition matching :: "rules \<Rightarrow> attrs \<Rightarrow> filterEntry set" where
  "matching R a = {e. \<exists>p. (e, p) \<in> R \<and> pmatch p a}"

datatype filterOp = FAdd filterEntry string | FRemove string

text \<open>A history of calls on a set; an \<open>Add\<close> that returns an error leaves it as it was.\<close>

fun runF :: "('s \<Rightarrow> filterEntry \<Rightarrow> string \<Rightarrow> 'e + 's) \<Rightarrow> ('s \<Rightarrow> string \<Rightarrow> 's) \<Rightarrow> 's \<Rightarrow> filterOp list \<Rightarrow> 's" where
  "runF add remove s [] = s"
| "runF add remove s (FAdd e x # ops) =
    runF add remove (case add s e x of Inl _ \<Rightarrow> s | Inr s' \<Rightarrow> s') ops"
| "runF add remove s (FRemove n # ops) = runF add remove (remove s n) ops"

text \<open>What a history means: a rule replaces the rule of the same name.\<close>

fun specF :: "rules \<Rightarrow> filterOp list \<Rightarrow> rules" where
  "specF R [] = R"
| "specF R (FAdd e x # ops) =
    specF (case Parse x of Inl _ \<Rightarrow> R | Inr p \<Rightarrow> insert (e, p) (without (fe_Name e) R)) ops"
| "specF R (FRemove n # ops) = specF (without n R) ops"

text \<open>No \<open>Add\<close> of the history reuses a name that is registered at that moment.\<close>

fun freshF :: "rules \<Rightarrow> filterOp list \<Rightarrow> bool" where
  "freshF R [] = True"
| "freshF R (FAdd e x # ops) =
    (fe_Name e \<notin> named R \<and> freshF (case Parse x of Inl _ \<Rightarrow> R | Inr p \<Rightarrow> insert (e, p) R) ops)"
| "freshF R (FRemove n # ops) = freshF (without n R) ops"

lemma without_absent: "n \<notin> named R \<Longrightarrow> without n R = R"
  by (force simp: named_def without_def)

locale filter_set =
  fixes inv :: "'s \<Rightarrow> bool" and rules :: "'s \<Rightarrow> rules" and empty :: 's
    and add :: "'s \<Rightarrow> filterEntry \<Rightarrow> string \<Rightarrow> (string \<times> parseError) + 's"
    and remove :: "'s \<Rightarrow> string \<Rightarrow> 's"
    and matchAny :: "'s \<Rightarrow> attrs \<Rightarrow> bool"
    and matchAll :: "'s \<Rightarrow> attrs \<Rightarrow> filterEntry list"
    and endpoints :: "'s \<Rightarrow> attrs \<Rightarrow> string list"
  assumes inv_empty: "inv empty" and rules_empty: "rules empty = {}"
    and add_bad: "Parse x = Inl err \<Longrightarrow> add s e x = Inl (fe_Name e, err)"
    and add_good: "inv s \<Longrightarrow> Parse x = Inr p \<Longrightarrow> fe_Name e \<notin> named (rules s) \<Longrightarrow>
      \<exists>s'. add s e x = Inr s' \<and> inv s' \<and> rules s' = insert (e, p) (rules s)"
    and remove_ok: "inv s \<Longrightarrow> inv (remove s n) \<and> rules (remove s n) = without n (rules s)"
    and matchAny_iff: "inv s \<Longrightarrow> matchAny s a \<longleftrightarrow> matching (rules s) a \<noteq> {}"
    and matchAll_set: "inv s \<Longrightarrow> set (matchAll s a) = matching (rules s) a"
    and endpoints_set: "inv s \<Longrightarrow> set (endpoints s a) = fe_Hint ` matching (rules s) a - {[]}"
    and endpoints_distinct: "inv s \<Longrightarrow> distinct (endpoints s a)"
begin

lemma run_fresh:
  "inv s \<Longrightarrow> freshF (rules s) ops \<Longrightarrow>
     inv (runF add remove s ops) \<and> rules (runF add remove s ops) = specF (rules s) ops"
proof (induction ops arbitrary: s)
  case (Cons op ops)
  show ?case
  proof (cases op)
    case (FAdd e x)
    show ?thesis
    proof (cases "Parse x")
      case (Inl err)
      then show ?thesis using Cons FAdd by (simp add: add_bad [OF Inl])
    next
      case (Inr p)
      then obtain s' where "add s e x = Inr s'" "inv s'" "rules s' = insert (e, p) (rules s)"
        using add_good [OF Cons.prems(1) Inr, of e] Cons.prems(2) FAdd by auto
      then show ?thesis using Cons FAdd Inr by (simp add: without_absent)
    qed
  next
    case (FRemove n)
    then show ?thesis using Cons remove_ok [OF Cons.prems(1), of n] by simp
  qed
qed simp

lemma run_matches:
  assumes "freshF {} ops"
  defines "s \<equiv> runF add remove empty ops"
  shows "matchAny s a \<longleftrightarrow> matching (specF {} ops) a \<noteq> {}"
    and "set (matchAll s a) = matching (specF {} ops) a"
    and "set (endpoints s a) = fe_Hint ` matching (specF {} ops) a - {[]}"
  using run_fresh [OF inv_empty] assms
  by (simp_all add: rules_empty matchAny_iff matchAll_set endpoints_set)

lemma endpoint_matched:
  "inv s \<Longrightarrow> h \<in> set (endpoints s a) \<longleftrightarrow> h \<noteq> [] \<and> (\<exists>e \<in> set (matchAll s a). fe_Hint e = h)"
  by (auto simp: endpoints_set matchAll_set)

end

section \<open>Both sets meet the contract\<close>

definition fsEmpty :: filterSet where
  "fsEmpty = \<lparr>fs_MaxMatches = 0, fs_OnLimit = False, fs_filters = []\<rparr>"

definition ixEmpty :: indexedFilterSet where
  "ixEmpty = \<lparr>ix_MaxMatches = 0, ix_OnLimit = False, ix_names = [], ix_exact = [], ix_globs = [],
     ix_wild = [], ix_next = 0\<rparr>"

definition fsRules :: "filterSet \<Rightarrow> rules" where
  "fsRules fs = set (fs_filters fs)"

definition stored :: "indexedFilterSet \<Rightarrow> indexedEntry set" where
  "stored ix = (\<Union>t. set (bucket ix t)) \<union> snd ` set (ix_globs ix) \<union> set (ix_wild ix)"

definition ixRules :: "indexedFilterSet \<Rightarrow> rules" where
  "ixRules ix = (\<lambda>e. (ie_entry e, ie_pred e)) ` stored ix"

definition ixInv :: "indexedFilterSet \<Rightarrow> bool" where
  "ixInv ix \<longleftrightarrow> indexes ix (stored ix)"

lemma stored_eq: "indexes ix E \<Longrightarrow> stored ix = E"
proof
  assume ix: "indexes ix E"
  show "stored ix \<subseteq> E" using ix by (auto simp: indexes_def stored_def)
  show "E \<subseteq> stored ix"
  proof
    fix e assume e: "e \<in> E"
    consider "wildcard e" | t where "in_bucket e t" | rx where "in_globs e rx"
      by (fastforce simp: wildcard_def in_bucket_def in_globs_def Let_def neq_Nil_conv)
    then have "e \<in> set (ix_wild ix) \<or> (\<exists>t. e \<in> set (bucket ix t)) \<or> (\<exists>rx. (rx, e) \<in> set (ix_globs ix))"
      using ix e by cases (auto simp: indexes_def)
    then show "e \<in> stored ix" by (force simp: stored_def)
  qed
qed

lemma ixInvI: "indexes ix E \<Longrightarrow> ixInv ix \<and> ixRules ix = (\<lambda>e. (ie_entry e, ie_pred e)) ` E"
  by (simp add: ixInv_def ixRules_def stored_eq)

lemma ixEmpty_inv: "ixInv ixEmpty" "ixRules ixEmpty = {}"
proof -
  have "indexes ixEmpty {}" by (simp add: indexes_def ixEmpty_def bucket_def)
  then show "ixInv ixEmpty" "ixRules ixEmpty = {}" using ixInvI by auto
qed

lemma ixRules_add:
  assumes "ixInv ix" and "Parse x = Inr p"
  shows "\<exists>ix'. ixAdd ix e x = Inr ix' \<and> ixInv ix' \<and>
    ixRules ix' = insert (e, p) (without (fe_Name e) (ixRules ix)) \<and>
    ix_MaxMatches ix' = ix_MaxMatches ix \<and> ix_OnLimit ix' = ix_OnLimit ix"
proof -
  from indexes_ixAdd [OF assms(1) [unfolded ixInv_def] assms(2), of e] obtain ix' where
    "ixAdd ix e x = Inr ix'" and i: "indexes ix' (insert (mkEntry ix e p) {d \<in> stored ix. ie_Name d \<noteq> fe_Name e})"
    and "ix_MaxMatches ix' = ix_MaxMatches ix" "ix_OnLimit ix' = ix_OnLimit ix" by blast
  moreover have "ixRules ix' = insert (e, p) (without (fe_Name e) (ixRules ix))"
    using ixInvI [OF i] by (auto simp: mkEntry_def without_def ixRules_def)
  ultimately show ?thesis using ixInvI [OF i] by auto
qed

lemma ixRules_remove:
  "ixInv ix \<Longrightarrow> ixInv (ixRemove ix n) \<and> ixRules (ixRemove ix n) = without n (ixRules ix)"
  using ixInvI [OF indexes_removeLocked [of ix "stored ix" n]]
  by (auto simp: ixInv_def ixRemove_def without_def ixRules_def)

lemma ixMatch_rules:
  assumes "ixInv ix"
  shows "set (ihits a (dedupN {} (candidates ix a))) = matching (ixRules ix) a"
    and "ixMatchAny ix a \<longleftrightarrow> matching (ixRules ix) a \<noteq> {}"
  using set_candidates_hits [OF assms [unfolded ixInv_def]] ixMatchAny_iff [OF assms [unfolded ixInv_def]]
  by (auto simp: matching_def ixRules_def)

lemma fs_hits: "set (hits a (fs_filters fs)) = matching (fsRules fs) a"
  by (force simp: matching_def fsRules_def)

lemma set_hintsOf: "set (nubFrom {} (hintsOf es)) = fe_Hint ` set es - {[]}"
  by (auto simp: set_nubFrom)

interpretation plain: filter_set "\<lambda>fs. fs_MaxMatches fs \<le> 0" fsRules fsEmpty fsAdd fsRemove fsMatchAny
  "\<lambda>fs a. fst (fsMatch fs a)" "\<lambda>fs a. fst (fsMatchEndpoints fs a)"
proof (unfold_locales, goal_cases)
  case (4 s x p e)
  then show ?case by (auto simp: fsAdd_def fsRules_def)
next
  case (6 s a)
  then show ?case by (auto simp: fsMatchAny_def list_ex_iff matching_def fsRules_def)
next
  case (7 s a)
  then show ?case using fs_hits [of a s] by (simp add: fsMatch_eq capped_def Let_def)
next
  case (8 s a)
  then show ?case using set_hintsOf [of "hits a (fs_filters s)"] fs_hits [of a s]
    by (simp add: fsMatchEndpoints_eq capped_def Let_def)
next
  case (9 s a)
  then show ?case by (simp add: fsMatchEndpoints_eq capped_def Let_def distinct_nubFrom)
qed (auto simp: fsEmpty_def fsRules_def fsAdd_def fsRemove_def without_def)

interpretation indexed: filter_set "\<lambda>ix. ixInv ix \<and> ix_MaxMatches ix \<le> 0" ixRules ixEmpty ixAdd ixRemove
  ixMatchAny "\<lambda>ix a. fst (ixMatch ix a)" "\<lambda>ix a. fst (ixMatchEndpoints ix a)"
proof (unfold_locales, goal_cases)
  case (4 s x p e)
  then show ?case using ixRules_add [of s x p e] by (auto simp: without_absent)
next
  case (5 s n)
  then show ?case using ixRules_remove [of s n] by (simp add: ixRemove_def removeLocked_def)
next
  case (7 s a)
  then show ?case using ixMatch_rules(1) [of s a] by (simp add: ixMatch_eq capped_def Let_def)
next
  case (8 s a)
  then show ?case
    using set_hintsOf [of "ihits a (dedupN {} (candidates s a))"] ixMatch_rules(1) [of s a]
    by (simp add: ixMatchEndpoints_eq capped_def Let_def)
next
  case (9 s a)
  then show ?case by (simp add: ixMatchEndpoints_eq capped_def Let_def distinct_nubFrom)
qed (simp_all add: ixEmpty_inv ixMatch_rules ixAdd_def, simp_all add: ixEmpty_def)

section \<open>Histories with reused names\<close>

lemma ix_run:
  "ixInv ix \<Longrightarrow> ixInv (runF ixAdd ixRemove ix ops) \<and>
     ixRules (runF ixAdd ixRemove ix ops) = specF (ixRules ix) ops \<and>
     ix_MaxMatches (runF ixAdd ixRemove ix ops) = ix_MaxMatches ix"
proof (induction ops arbitrary: ix)
  case (Cons op ops)
  show ?case
  proof (cases op)
    case (FAdd e x)
    show ?thesis
    proof (cases "Parse x")
      case (Inl err)
      then show ?thesis using Cons FAdd by (simp add: indexed.add_bad [OF Inl])
    next
      case (Inr p)
      from ixRules_add [OF Cons.prems Inr, of e] Cons FAdd Inr show ?thesis by auto
    qed
  next
    case (FRemove n)
    then show ?thesis
      using Cons ixRules_remove [OF Cons.prems, of n] by (simp add: ixRemove_def removeLocked_def)
  qed
qed simp

lemma distinct_match_names:
  "distinct (map fe_Name (ihits a (dedupN {} es)))"
proof -
  have "distinct (map ie_Name (filter (\<lambda>e. pmatch (ie_pred e) a) (dedupN {} es)))"
    by (rule distinct_map_filter [OF dedupN_distinct])
  then show ?thesis by (simp add: comp_def)
qed

section \<open>Stats\<close>

lemma set_buckets:
  assumes "wf_map (ix_exact ix)"
  shows "set (concat (map snd (ix_exact ix))) = (\<Union>t. set (bucket ix t))"
proof -
  have "e \<in> set (bucket ix t) \<longleftrightarrow> (\<exists>es. (t, es) \<in> set (ix_exact ix) \<and> e \<in> set es)" for e t
    using assms by (cases "mget (ix_exact ix) t") (auto simp: bucket_def map_of_eq_None_iff image_iff dest: eq_key_imp_eq_value)
  then show ?thesis by (auto; force)
qed

lemma stats_total:
  assumes ix: "indexes ix E"
  shows "st_Total (ixStats ix) = card E"
proof -
  let ?seen = "map ie_id (concat (map snd (ix_exact ix))) @ map (\<lambda>(rx, e). ie_id e) (ix_globs ix)"
  let ?W = "{e \<in> E. wildcard e}" and ?N = "{e \<in> E. \<not> wildcard e}"
  have fin: "finite E" and inj: "inj_on ie_id E" and wf: "wf_map (ix_exact ix)"
    and wild: "set (ix_wild ix) = ?W" "distinct (ix_wild ix)" using ix by (auto simp: indexes_def)
  have "stored ix = E" by (rule stored_eq [OF ix])
  moreover have "(\<Union>t. set (bucket ix t)) \<union> snd ` set (ix_globs ix) \<subseteq> ?N"
    using ix by (auto simp: indexes_def in_bucket_def in_globs_def)
  ultimately have "?N = (\<Union>t. set (bucket ix t)) \<union> snd ` set (ix_globs ix)"
    using wild(1) by (auto simp: stored_def)
  then have "set ?seen = ie_id ` ?N"
    using set_buckets [OF wf] by (auto simp: image_Un image_image split_beta)
  then have "length (remdups ?seen) = card ?N"
    using card_image [OF inj_on_subset [OF inj, of ?N]] by (simp add: length_remdups_card_conv)
  moreover have "length (ix_wild ix) = card ?W" using wild distinct_card by metis
  moreover have "card E = card ?N + card ?W"
  proof -
    have "E = ?N \<union> ?W" "?N \<inter> ?W = {}" by auto
    then show ?thesis using card_Un_disjoint [of ?N ?W] fin by simp
  qed
  ultimately show ?thesis by (simp add: ixStats_def Let_def)
qed

section \<open>Properties\<close>

abbreviation ixRun :: "filterOp list \<Rightarrow> indexedFilterSet" where
  "ixRun ops \<equiv> runF ixAdd ixRemove ixEmpty ops"

abbreviation fsRun :: "filterOp list \<Rightarrow> filterSet" where
  "fsRun ops \<equiv> runF fsAdd fsRemove fsEmpty ops"

lemma ixRun_inv:
  "ixInv (ixRun ops)" "ix_MaxMatches (ixRun ops) = 0" "ixRules (ixRun ops) = specF {} ops"
proof -
  have "ix_MaxMatches ixEmpty = 0" by (simp add: ixEmpty_def)
  with ix_run [OF ixEmpty_inv(1), of ops]
  show "ixInv (ixRun ops)" "ix_MaxMatches (ixRun ops) = 0" "ixRules (ixRun ops) = specF {} ops"
    by (simp_all add: ixEmpty_inv(2))
qed

text \<open>C2: the indexed set implements the plain meaning of its calls. After any sequence of \<open>Add\<close>
  (reusing names or not, with valid or invalid expressions) and \<open>Remove\<close>, and for every event,
  \<open>MatchAny\<close>, \<open>Match\<close> and \<open>MatchEndpoints\<close> answer as if every registered rule were evaluated: no
  matching rule is missed by the type index, none is returned twice, a replaced or removed rule never
  matches, and each non-empty endpoint of a matching rule appears once.\<close>

theorem indexed_set_refines_rules:
  "(ixMatchAny (ixRun ops) a \<longleftrightarrow> matching (specF {} ops) a \<noteq> {}) \<and>
   set (fst (ixMatch (ixRun ops) a)) = matching (specF {} ops) a \<and>
   distinct (map fe_Name (fst (ixMatch (ixRun ops) a))) \<and>
   set (fst (ixMatchEndpoints (ixRun ops) a)) = fe_Hint ` matching (specF {} ops) a - {[]} \<and>
   distinct (fst (ixMatchEndpoints (ixRun ops) a))"
proof -
  have inv: "ixInv (ixRun ops) \<and> ix_MaxMatches (ixRun ops) \<le> 0" by (simp add: ixRun_inv)
  have "distinct (map fe_Name (fst (ixMatch (ixRun ops) a)))"
    using distinct_match_names [of a "candidates (ixRun ops) a"]
    by (simp add: ixMatch_eq capped_def Let_def ixRun_inv(2))
  then show ?thesis
    unfolding indexed.matchAny_iff [OF inv] indexed.matchAll_set [OF inv] indexed.endpoints_set [OF inv]
      ixRun_inv(3)
    using indexed.endpoints_distinct [OF inv] by blast
qed

text \<open>C29: on histories in which no \<open>Add\<close> reuses a registered name, the indexed set and the plain
  \<open>FilterSet\<close> agree on \<open>MatchAny\<close>, on the entries matched and on the endpoints.\<close>

theorem filter_sets_agree:
  assumes "freshF {} ops"
  shows "ixMatchAny (ixRun ops) a = fsMatchAny (fsRun ops) a \<and>
    set (fst (ixMatch (ixRun ops) a)) = set (fst (fsMatch (fsRun ops) a)) \<and>
    set (fst (ixMatchEndpoints (ixRun ops) a)) = set (fst (fsMatchEndpoints (fsRun ops) a))"
  using indexed.run_matches [OF assms] plain.run_matches [OF assms] by simp

lemma Parse_exists: "ident key \<Longrightarrow> Parse (''EXISTS '' @ key) = Inr (ExistsPred key)"
  using Parse_printed [OF wf_printed, of "ExistsPred key"] by simp

lemma ident_ab: "ident ''a''" "ident ''b''"
  by (simp_all add: ident_def isWord_def wordStart_def wordChar_def isLetter_def wordTok_def
      emitWord_def ascii_upper_def)

definition entryEx :: "string \<Rightarrow> filterEntry" where
  "entryEx h = \<lparr>fe_Name = ''n'', fe_Hint = h, fe_Metadata = []\<rparr>"

theorem filter_sets_agree_witness:
  "freshF {} [FAdd (entryEx ''u'') ''EXISTS a'', FRemove ''n'', FAdd (entryEx ''w'') ''EXISTS b''] \<and>
   ixMatchAny (ixRun [FAdd (entryEx ''u'') ''EXISTS a'', FRemove ''n'', FAdd (entryEx ''w'') ''EXISTS b'']) [(''b'', '''')] =
   fsMatchAny (fsRun [FAdd (entryEx ''u'') ''EXISTS a'', FRemove ''n'', FAdd (entryEx ''w'') ''EXISTS b'']) [(''b'', '''')]"
proof -
  have "freshF {} [FAdd (entryEx ''u'') ''EXISTS a'', FRemove ''n'', FAdd (entryEx ''w'') ''EXISTS b'']"
    using Parse_exists [OF ident_ab(1)] Parse_exists [OF ident_ab(2)]
    by (auto simp: named_def without_def entryEx_def)
  with filter_sets_agree [OF this] show ?thesis by simp
qed

text \<open>C30: a positive \<open>MaxMatches\<close> bounds the answers of both sets and both calls; \<open>OnLimitExceeded\<close> is
  called at most once per call, exactly when it is set and the answer is full, and it is told the
  number of answers collected.\<close>

theorem match_limits:
  assumes "ix_MaxMatches ix = mx" and "fs_MaxMatches fs = mx" and "mx > 0"
    and "ix_OnLimit ix" and "fs_OnLimit fs"
    and "r \<in> {map_prod length id (ixMatch ix a), map_prod length id (ixMatchEndpoints ix a),
        map_prod length id (fsMatch fs a), map_prod length id (fsMatchEndpoints fs a)}"
  shows "int (fst r) \<le> mx \<and> snd r = (if int (fst r) = mx then [(a, fst r)] else [])"
proof -
  note limit = capped_limit [OF assms(3)]
  from assms(6) consider "r = map_prod length id (ixMatch ix a)" | "r = map_prod length id (ixMatchEndpoints ix a)"
    | "r = map_prod length id (fsMatch fs a)" | "r = map_prod length id (fsMatchEndpoints fs a)" by blast
  then show ?thesis
    using assms(1,2,4,5)
    by cases (simp_all add: ixMatch_eq ixMatchEndpoints_eq fsMatch_eq fsMatchEndpoints_eq Let_def limit)
qed

theorem match_limits_witness:
  "fsMatch \<lparr>fs_MaxMatches = 1, fs_OnLimit = True, fs_filters = [(entryEx ''u'', ExistsPred ''a''), (entryEx ''w'', ExistsPred ''a'')]\<rparr>
     [(''a'', '''')] = ([entryEx ''u''], [([(''a'', '''')], 1)])"
proof -
  let ?fs = "\<lparr>fs_MaxMatches = 1, fs_OnLimit = True,
    fs_filters = [(entryEx ''u'', ExistsPred ''a''), (entryEx ''w'', ExistsPred ''a'')]\<rparr>"
  have "fst (fsMatch ?fs [(''a'', '''')]) = [entryEx ''u'']"
    by (simp add: fsMatch_def limitReached_def Let_def)
  then show ?thesis
    using match_limits [of "ixEmpty\<lparr>ix_MaxMatches := 1, ix_OnLimit := True\<rparr>" 1 ?fs
        "map_prod length id (fsMatch ?fs [(''a'', '''')])" "[(''a'', '''')]"]
    by (simp add: prod_eq_iff)
qed

text \<open>\<open>Add\<close> treats a registered name differently in the two sets. The indexed set replaces the old
  rule; \<open>FilterSet\<close> keeps both, so an updated rule leaves its previous version matching, although the
  contract says a name identifies a filter within a set.\<close>

theorem add_of_registered_name:
  assumes "Parse x = Inr p" and "Parse y = Inr q" and "fe_Name d = fe_Name e"
  shows "ixRules (ixRun [FAdd d x, FAdd e y]) = {(e, q)} \<and>
    fsRules (fsRun [FAdd d x, FAdd e y]) = {(d, p), (e, q)}"
proof
  show "ixRules (ixRun [FAdd d x, FAdd e y]) = {(e, q)}"
    unfolding ixRun_inv(3) using assms by (auto simp: without_def)
  show "fsRules (fsRun [FAdd d x, FAdd e y]) = {(d, p), (e, q)}"
    using assms by (simp add: fsAdd_def fsRules_def fsEmpty_def)
qed

theorem add_of_registered_name_witness:
  "fsRules (fsRun [FAdd (entryEx ''u'') ''EXISTS a'', FAdd (entryEx ''w'') ''EXISTS b'']) =
    {(entryEx ''u'', ExistsPred ''a''), (entryEx ''w'', ExistsPred ''b'')} \<and>
   ixRules (ixRun [FAdd (entryEx ''u'') ''EXISTS a'', FAdd (entryEx ''w'') ''EXISTS b'']) =
    {(entryEx ''w'', ExistsPred ''b'')}"
  using add_of_registered_name [OF Parse_exists [OF ident_ab(1)] Parse_exists [OF ident_ab(2)],
      of "entryEx ''u''" "entryEx ''w''"]
  by (simp add: entryEx_def)

text \<open>the total \<open>Stats\<close> reports is the number of registered rules, after any history: a rule filed
  in several buckets or under several globs counts once.\<close>

theorem stats_counts_rules:
  "st_Total (ixStats (ixRun ops)) = card (specF {} ops)"
proof -
  have ix: "indexes (ixRun ops) (stored (ixRun ops))" and R: "ixRules (ixRun ops) = specF {} ops"
    using ixRun_inv(1,3) by (simp_all add: ixInv_def)
  have "inj_on ie_Name (stored (ixRun ops))" using ix by (simp add: indexes_def)
  then have "inj_on (\<lambda>e. (ie_entry e, ie_pred e)) (stored (ixRun ops))" by (auto simp: inj_on_def)
  from card_image [OF this] stats_total [OF ix] R show ?thesis by (simp add: ixRules_def)
qed

end
