(* ===== verification/Filter_CDC.thy ===== *)
theory Filter_CDC
  imports Prelude
begin

text \<open>
  The change data capture of the filter collection
  (\<open>cloudevent/cefilter/mongostore/cdc.go\<close>, \<open>doc.go\<close>): a snapshot or a resumed change stream is
  turned into \<open>FilterChange\<close> events for a caller that keeps a local filter set. MongoDB answers are
  inputs (the record \<open>session\<close>); what MongoDB documents about them is the predicate \<open>faithful\<close>.
  Positions in the oplog are resume tokens \<open>'tok\<close> and operation times \<open>'ts\<close>.
\<close>

section \<open>Documents and changes\<close>

record FilterDocument =
  fd_Name :: string
  fd_Hint :: string
  fd_Metadata :: "(string, string) gomap"
  fd_Expr :: string
  fd_CreatedAt :: int
  fd_UpdatedAt :: int
  fd_DeletedAt :: "int option"

datatype ChangeOp = ChangeOpUpsert | ChangeOpDelete | ChangeOpReady

record FilterChange =
  fc_Op :: ChangeOp
  fc_Name :: string
  fc_Doc :: "FilterDocument option"

text \<open>A raw change event as \<open>decodeEvent\<close> reads it: \<open>fullDocument\<close> is missing or not a document, a
  document that does not unmarshal, or a document.\<close>

datatype fullDocument = NoDocument | BadDocument | GoodDocument FilterDocument

record rawEvent =
  re_operationType :: string
  re_fullDocument :: fullDocument
  re_documentKey :: string

datatype cdcError = ErrContext | ErrServer "int list" | ErrPlain string | Wrapped string cdcError

definition decodeEvent :: "rawEvent \<Rightarrow> cdcError + FilterChange option" where
  "decodeEvent raw =
    (let op = re_operationType raw in
     if op = ''insert'' \<or> op = ''update'' \<or> op = ''replace'' then
       (case re_fullDocument raw of
          NoDocument \<Rightarrow> Inl (ErrPlain (''fullDocument missing or not a document for op '' @ op))
        | BadDocument \<Rightarrow> Inl (ErrPlain ''unmarshal fullDocument'')
        | GoodDocument doc \<Rightarrow>
            if fd_DeletedAt doc \<noteq> None
            then Inr (Some \<lparr>fc_Op = ChangeOpDelete, fc_Name = fd_Name doc, fc_Doc = None\<rparr>)
            else Inr (Some \<lparr>fc_Op = ChangeOpUpsert, fc_Name = fd_Name doc, fc_Doc = Some doc\<rparr>))
     else if op = ''delete'' then
       (if re_documentKey raw = [] then Inl (ErrPlain ''documentKey._id empty in delete event'')
        else Inr (Some \<lparr>fc_Op = ChangeOpDelete, fc_Name = re_documentKey raw, fc_Doc = None\<rparr>))
     else Inr None)"

section \<open>State\<close>

record ('tok, 'ts) FilterCDC =
  cd_running :: bool
  cd_resumeToken :: "'tok option"
  cd_resumeTime :: "'ts option"
  cd_live :: "string list"

definition newCDC :: "('tok, 'ts) FilterCDC" where
  "newCDC = \<lparr>cd_running = False, cd_resumeToken = None, cd_resumeTime = None, cd_live = []\<rparr>"

definition track :: "('tok, 'ts) FilterCDC \<Rightarrow> FilterChange \<Rightarrow> ('tok, 'ts) FilterCDC" where
  "track c change =
    (case fc_Op change of
       ChangeOpUpsert \<Rightarrow> c\<lparr>cd_live := sadd (fc_Name change) (cd_live c)\<rparr>
     | ChangeOpDelete \<Rightarrow> c\<lparr>cd_live := sdel (fc_Name change) (cd_live c)\<rparr>
     | ChangeOpReady \<Rightarrow> c)"

definition forgetPosition :: "('tok, 'ts) FilterCDC \<Rightarrow> ('tok, 'ts) FilterCDC" where
  "forgetPosition c = c\<lparr>cd_resumeToken := None, cd_resumeTime := None\<rparr>"

definition rememberPosition :: "('tok, 'ts) FilterCDC \<Rightarrow> 'tok option \<Rightarrow> ('tok, 'ts) FilterCDC" where
  "rememberPosition c token = (case token of None \<Rightarrow> c | Some t \<Rightarrow> c\<lparr>cd_resumeToken := Some t\<rparr>)"

definition staleNames :: "string list \<Rightarrow> string list \<Rightarrow> string list" where
  "staleNames live active = filter (\<lambda>name. name \<notin> set active) live"

definition resumeLostCodes :: "int list" where
  "resumeLostCodes = [136, 260, 280, 286]"

fun isResumeLost :: "cdcError \<Rightarrow> bool" where
  "isResumeLost (ErrServer codes) = (\<exists>code \<in> set resumeLostCodes. code \<in> set codes)"
| "isResumeLost (Wrapped _ e) = isResumeLost e"
| "isResumeLost _ = False"

section \<open>One session\<close>

text \<open>
  What the outside gives one \<open>runOnce\<close>: the operation time, the active documents, the opened stream with
  its first token, the events with the token after each, the error that ended the stream, and for each send whether the
  channel took it before the context was cancelled.
\<close>

record ('tok, 'ts) session =
  se_optime :: "cdcError + 'ts"
  se_docs :: "cdcError + FilterDocument list"
  se_watch :: "cdcError + 'tok option"
  se_events :: "(rawEvent \<times> 'tok option) list"
  se_streamErr :: "cdcError option"
  se_cancelled :: bool
  se_sends :: "bool list"

text \<open>\<open>chanSend\<close>: the next send succeeds or returns the context's error. What was sent is appended to
  the log, which is what the caller receives.\<close>

record ('tok, 'ts) cdcRun =
  cr_cdc :: "('tok, 'ts) FilterCDC"
  cr_sends :: "bool list"
  cr_sent :: "FilterChange list"

definition chanSend :: "('tok, 'ts) cdcRun \<Rightarrow> FilterChange \<Rightarrow> cdcError option \<times> ('tok, 'ts) cdcRun" where
  "chanSend r change =
    (case cr_sends r of
       True # rest \<Rightarrow> (None, r\<lparr>cr_sends := rest, cr_sent := cr_sent r @ [change]\<rparr>)
     | _ \<Rightarrow> (Some ErrContext, r\<lparr>cr_sends := tl (cr_sends r)\<rparr>))"

abbreviation trackRun :: "('tok, 'ts) cdcRun \<Rightarrow> FilterChange \<Rightarrow> ('tok, 'ts) cdcRun" where
  "trackRun r change \<equiv> r\<lparr>cr_cdc := track (cr_cdc r) change\<rparr>"

text \<open>The two loops of \<open>snapshot\<close> send one change after another and record each.\<close>

fun sendAll :: "('tok, 'ts) cdcRun \<Rightarrow> FilterChange list \<Rightarrow> cdcError option \<times> ('tok, 'ts) cdcRun" where
  "sendAll r [] = (None, r)"
| "sendAll r (change # cs) =
    (case chanSend r change of
       (Some err, r') \<Rightarrow> (Some err, r')
     | (None, r') \<Rightarrow> sendAll (trackRun r' change) cs)"

definition upsertOf :: "FilterDocument \<Rightarrow> FilterChange" where
  "upsertOf d = \<lparr>fc_Op = ChangeOpUpsert, fc_Name = fd_Name d, fc_Doc = Some d\<rparr>"

definition deleteOf :: "string \<Rightarrow> FilterChange" where
  "deleteOf name = \<lparr>fc_Op = ChangeOpDelete, fc_Name = name, fc_Doc = None\<rparr>"

definition snapshot ::
    "('tok, 'ts) session \<Rightarrow> ('tok, 'ts) cdcRun \<Rightarrow> cdcError option \<times> ('tok, 'ts) cdcRun" where
  "snapshot inp r =
    (case se_docs inp of
       Inl err \<Rightarrow> (Some (Wrapped ''cefilter cdc: full sync'' err), r)
     | Inr docs \<Rightarrow>
         (case sendAll r (map upsertOf docs) of
            (Some err, r') \<Rightarrow> (Some err, r')
          | (None, r') \<Rightarrow>
              sendAll r' (map deleteOf (staleNames (cd_live (cr_cdc r')) (map fd_Name docs)))))"

text \<open>The loop over \<open>cs.Next\<close>; \<open>Some\<close> is an error return out of the loop.\<close>

fun tailStream ::
    "('tok, 'ts) cdcRun \<Rightarrow> (rawEvent \<times> 'tok option) list \<Rightarrow> cdcError option \<times> ('tok, 'ts) cdcRun" where
  "tailStream r [] = (None, r)"
| "tailStream r ((raw, token) # es) =
    (case decodeEvent raw of
       Inr (Some change) \<Rightarrow>
         (case chanSend r change of
            (Some err, r') \<Rightarrow> (Some err, r')
          | (None, r') \<Rightarrow>
              tailStream (r'\<lparr>cr_cdc := rememberPosition (track (cr_cdc r') change) token\<rparr>) es)
     | _ \<Rightarrow> tailStream (r\<lparr>cr_cdc := rememberPosition (cr_cdc r) token\<rparr>) es)"

definition readyChange :: FilterChange where
  "readyChange = \<lparr>fc_Op = ChangeOpReady, fc_Name = [], fc_Doc = None\<rparr>"

text \<open>From the opened stream on.\<close>

definition follow :: "('tok, 'ts) session \<Rightarrow> ('tok, 'ts) cdcRun \<Rightarrow> cdcError \<times> ('tok, 'ts) cdcRun" where
  "follow inp r =
    (case se_watch inp of
       Inl err \<Rightarrow> (Wrapped ''cefilter cdc: watch'' err, r)
     | Inr token \<Rightarrow>
         (case chanSend (r\<lparr>cr_cdc := rememberPosition (cr_cdc r) token\<rparr>) readyChange of
            (Some err, r') \<Rightarrow> (err, r')
          | (None, r') \<Rightarrow>
              (case tailStream r' (se_events inp) of
                 (Some err, r2) \<Rightarrow> (err, r2)
               | (None, r2) \<Rightarrow>
                   (case se_streamErr inp of
                      Some err \<Rightarrow> (Wrapped ''cefilter cdc: stream'' err, r2)
                    | None \<Rightarrow>
                        if se_cancelled inp then (ErrContext, r2)
                        else (ErrPlain ''cefilter cdc: change stream invalidated (collection dropped or renamed)'',
                              r2\<lparr>cr_cdc := forgetPosition (cr_cdc r2)\<rparr>)))))"

definition runOnce :: "('tok, 'ts) session \<Rightarrow> ('tok, 'ts) cdcRun \<Rightarrow> cdcError \<times> ('tok, 'ts) cdcRun" where
  "runOnce inp r =
    (if cd_resumeToken (cr_cdc r) \<noteq> None \<or> cd_resumeTime (cr_cdc r) \<noteq> None then follow inp r
     else
       (case se_optime inp of
          Inl err \<Rightarrow> (Wrapped ''cefilter cdc: get optime'' err, r)
        | Inr startTime \<Rightarrow>
            (case snapshot inp r of
               (Some err, r') \<Rightarrow> (err, r')
             | (None, r') \<Rightarrow> follow inp (r'\<lparr>cr_cdc := (cr_cdc r')\<lparr>cd_resumeTime := Some startTime\<rparr>\<rparr>))))"

text \<open>\<open>Run\<close>: the second session is used when the first loses its position and the context is alive
  (\<open>alive\<close>). The result is the error returned, the new state and the changes sent.\<close>

definition Run ::
    "('tok, 'ts) session \<Rightarrow> ('tok, 'ts) session \<Rightarrow> bool \<Rightarrow> ('tok, 'ts) FilterCDC \<Rightarrow>
     cdcError \<times> ('tok, 'ts) FilterCDC \<times> FilterChange list" where
  "Run inp1 inp2 alive c =
    (if cd_running c then (ErrPlain ''cefilter cdc: Run is already running on this FilterCDC'', c, [])
     else
       (case runOnce inp1 \<lparr>cr_cdc = c\<lparr>cd_running := True\<rparr>, cr_sends = se_sends inp1, cr_sent = []\<rparr> of
          (err, r) \<Rightarrow>
            (case (if isResumeLost err \<and> alive
                   then runOnce inp2 (r\<lparr>cr_cdc := forgetPosition (cr_cdc r), cr_sends := se_sends inp2\<rparr>)
                   else (err, r)) of
               (err', r') \<Rightarrow> (err', (cr_cdc r')\<lparr>cd_running := False\<rparr>, cr_sent r'))))"

section \<open>The caller's copy\<close>

text \<open>The local set of a caller that applies every change it receives, and what it holds.\<close>

definition applyChange :: "(string \<rightharpoonup> FilterDocument) \<Rightarrow> FilterChange \<Rightarrow> (string \<rightharpoonup> FilterDocument)" where
  "applyChange A change =
    (case fc_Op change of
       ChangeOpUpsert \<Rightarrow> A(fc_Name change := fc_Doc change)
     | ChangeOpDelete \<Rightarrow> A(fc_Name change := None)
     | ChangeOpReady \<Rightarrow> A)"

abbreviation replay :: "(string \<rightharpoonup> FilterDocument) \<Rightarrow> FilterChange list \<Rightarrow> (string \<rightharpoonup> FilterDocument)" where
  "replay \<equiv> foldl applyChange"

text \<open>Every change the code builds carries a document exactly when it is an upsert.\<close>

definition wfChange :: "FilterChange \<Rightarrow> bool" where
  "wfChange change \<longleftrightarrow> (fc_Op change = ChangeOpUpsert \<longleftrightarrow> fc_Doc change \<noteq> None)"

lemma wfChange_simps [simp]: "wfChange (upsertOf d)" "wfChange (deleteOf n)" "wfChange readyChange"
  by (simp_all add: wfChange_def upsertOf_def deleteOf_def readyChange_def)

lemma applyChange_simps [simp]:
  "applyChange A (upsertOf d) = A(fd_Name d \<mapsto> d)"
  "applyChange A (deleteOf n) = A(n := None)"
  "applyChange A readyChange = A"
  by (simp_all add: applyChange_def upsertOf_def deleteOf_def readyChange_def)

text \<open>
  \<open>mirror A0 r\<close>: the names the CDC believes live are those of the copy that started as \<open>A0\<close> and
  received what \<open>r\<close> has sent.
\<close>

abbreviation copyOf :: "(string \<rightharpoonup> FilterDocument) \<Rightarrow> ('tok, 'ts) cdcRun \<Rightarrow> (string \<rightharpoonup> FilterDocument)" where
  "copyOf A0 r \<equiv> replay A0 (cr_sent r)"

abbreviation mirror :: "(string \<rightharpoonup> FilterDocument) \<Rightarrow> ('tok, 'ts) cdcRun \<Rightarrow> bool" where
  "mirror A0 r \<equiv> set (cd_live (cr_cdc r)) = dom (copyOf A0 r)"

lemma track_live:
  "wfChange change \<Longrightarrow> set (cd_live c) = dom A \<Longrightarrow> set (cd_live (track c change)) = dom (applyChange A change)"
  by (cases "fc_Op change") (auto simp: track_def applyChange_def wfChange_def)

lemma position_simps [simp]:
  "cd_live (forgetPosition c) = cd_live c" "cd_live (rememberPosition c t) = cd_live c"
  "cd_resumeToken (forgetPosition c) = None" "cd_resumeTime (forgetPosition c) = None"
  "cd_resumeTime (rememberPosition c t) = cd_resumeTime c"
  "cd_resumeToken (rememberPosition c t) = (if t = None then cd_resumeToken c else t)"
  "cd_resumeToken (track c change) = cd_resumeToken c"
  "cd_resumeTime (track c change) = cd_resumeTime c"
  by (auto simp: forgetPosition_def rememberPosition_def track_def split: option.splits ChangeOp.splits)

lemma decoded_wf: "decodeEvent raw = Inr (Some change) \<Longrightarrow> wfChange change"
  by (auto simp: decodeEvent_def Let_def wfChange_def split: if_splits fullDocument.splits)

text \<open>A send either fails, changing nothing the copy sees, or appends the change.\<close>

lemma chanSend_cases:
  assumes "chanSend r change = (e, r')"
  obtains "e = Some ErrContext" "cr_sent r' = cr_sent r" "cr_cdc r' = cr_cdc r"
        | "e = None" "cr_sent r' = cr_sent r @ [change]" "cr_cdc r' = cr_cdc r"
  using assms by (auto simp: chanSend_def split: list.splits bool.splits)

lemma sendAll_mirror:
  "sendAll r cs = (e, r') \<Longrightarrow> \<forall>change \<in> set cs. wfChange change \<Longrightarrow> mirror A0 r \<Longrightarrow> mirror A0 r'"
proof (induction r cs rule: sendAll.induct)
  case (2 r change cs)
  obtain e1 r1 where s: "chanSend r change = (e1, r1)" by (cases "chanSend r change")
  from s show ?case
    by (cases rule: chanSend_cases) (use 2 s in \<open>auto simp: track_live\<close>)
qed simp

text \<open>A completed sequence of sends delivers all of them and leaves the position alone.\<close>

lemma sendAll_done:
  "sendAll r cs = (None, r') \<Longrightarrow> cr_sent r' = cr_sent r @ cs"
proof (induction r cs rule: sendAll.induct)
  case (2 r change cs)
  obtain e1 r1 where s: "chanSend r change = (e1, r1)" by (cases "chanSend r change")
  from s show ?case
    by (cases rule: chanSend_cases) (use 2 s in auto)
qed simp

lemma sendAll_position:
  "sendAll r cs = (e, r') \<Longrightarrow>
   cd_resumeToken (cr_cdc r') = cd_resumeToken (cr_cdc r) \<and> cd_resumeTime (cr_cdc r') = cd_resumeTime (cr_cdc r)"
proof (induction r cs rule: sendAll.induct)
  case (2 r change cs)
  obtain e1 r1 where s: "chanSend r change = (e1, r1)" by (cases "chanSend r change")
  from s show ?case
    by (cases rule: chanSend_cases) (use 2 s in auto)
qed simp

section \<open>The database\<close>

text \<open>
  The history of the collection is the list of its writes: the name (the \<open>_id\<close>) and the stored document,
  or \<open>None\<close> for a hard delete. \<open>stored H k\<close> is the collection after the first \<open>k\<close> writes.
\<close>

type_synonym history = "(string \<times> FilterDocument option) list"

definition stored :: "history \<Rightarrow> nat \<Rightarrow> string \<rightharpoonup> FilterDocument" where
  "stored H k = foldl (\<lambda>m (n, d). m(n := d)) Map.empty (take k H)"

definition active :: "history \<Rightarrow> nat \<Rightarrow> string \<rightharpoonup> FilterDocument" where
  "active H k n = (case stored H k n of Some d \<Rightarrow> if fd_DeletedAt d = None then Some d else None | None \<Rightarrow> None)"

definition wfHistory :: "history \<Rightarrow> bool" where
  "wfHistory H \<longleftrightarrow> (\<forall>(n, d) \<in> set H. n \<noteq> [] \<and> (case d of None \<Rightarrow> True | Some doc \<Rightarrow> fd_Name doc = n))"

text \<open>No write to \<open>n\<close> from position \<open>p\<close> on.\<close>

definition quiet :: "history \<Rightarrow> nat \<Rightarrow> string \<Rightarrow> bool" where
  "quiet H p n \<longleftrightarrow> n \<notin> fst ` set (drop p H)"

lemma stored_Suc: "k < length H \<Longrightarrow> stored H (Suc k) = (stored H k)(fst (H ! k) := snd (H ! k))"
  by (simp add: stored_def take_Suc_conv_app_nth split: prod.splits)

lemma stored_step: "k < length H \<Longrightarrow> n \<noteq> fst (H ! k) \<Longrightarrow> stored H (Suc k) n = stored H k n"
  by (simp add: stored_Suc)

lemma quiet_nth: "quiet H p n \<Longrightarrow> p \<le> k \<Longrightarrow> k < length H \<Longrightarrow> fst (H ! k) \<noteq> n"
proof -
  assume q: "quiet H p n" and k: "p \<le> k" "k < length H"
  have "H ! k = drop p H ! (k - p)" using k by simp
  moreover have "drop p H ! (k - p) \<in> set (drop p H)" using k by (intro nth_mem) simp
  ultimately show ?thesis using q by (auto simp: quiet_def)
qed

lemma quiet_stored:
  "quiet H p n \<Longrightarrow> p \<le> k \<Longrightarrow> k \<le> length H \<Longrightarrow> stored H k n = stored H (length H) n"
proof (induction "length H - k" arbitrary: k)
  case (Suc x)
  then have "stored H (Suc k) n = stored H (length H) n" by simp
  moreover have "k < length H" using Suc.hyps(2) by simp
  then have "stored H (Suc k) n = stored H k n"
    using Suc.prems quiet_nth [of H p n k] by (intro stored_step) auto
  ultimately show ?case by simp
qed simp

lemma quiet_active:
  "quiet H p n \<Longrightarrow> p \<le> k \<Longrightarrow> k \<le> length H \<Longrightarrow> active H k n = active H (length H) n"
  using quiet_stored [of H p n k] by (simp add: active_def)

lemma quiet_Suc: "p < length H \<Longrightarrow> quiet H p n \<longleftrightarrow> fst (H ! p) \<noteq> n \<and> quiet H (Suc p) n"
  by (auto simp: quiet_def Cons_nth_drop_Suc [symmetric])

lemma stored_name: "wfHistory H \<Longrightarrow> stored H k n = Some d \<Longrightarrow> fd_Name d = n"
proof -
  assume H: "wfHistory H" and d: "stored H k n = Some d"
  have "\<forall>(n, d) \<in> set xs. \<forall>doc. d = Some doc \<longrightarrow> fd_Name doc = n \<Longrightarrow>
        \<forall>n d. m n = Some d \<longrightarrow> fd_Name d = n \<Longrightarrow>
        foldl (\<lambda>m (n, d). m(n := d)) m xs n = Some d \<Longrightarrow> fd_Name d = n"
    for xs :: history and m
  proof (induction xs arbitrary: m)
    case (Cons x xs)
    obtain a b where x: "x = (a, b)" by (cases x)
    have "\<forall>n d. (m(a := b)) n = Some d \<longrightarrow> fd_Name d = n" using Cons.prems(1,2) x by auto
    then show ?case using Cons.IH [of "m(a := b)"] Cons.prems x by auto
  qed simp
  note fold = this [of "take k H" Map.empty]
  have "\<forall>(n, d) \<in> set (take k H). \<forall>doc. d = Some doc \<longrightarrow> fd_Name doc = n"
    using H by (fastforce simp: wfHistory_def dest!: in_set_takeD)
  then show ?thesis using fold d by (simp add: stored_def)
qed

text \<open>
  \<open>synced H p A\<close>: the copy is exact for every name without a write from \<open>p\<close> on; the other names are
  settled by the events still to come.
\<close>

definition synced :: "history \<Rightarrow> nat \<Rightarrow> (string \<rightharpoonup> FilterDocument) \<Rightarrow> bool" where
  "synced H p A \<longleftrightarrow> p \<le> length H \<and> (\<forall>n. quiet H p n \<longrightarrow> A n = active H (length H) n)"

lemma synced_end: "synced H (length H) A \<Longrightarrow> A = active H (length H)"
  by (auto simp: synced_def quiet_def)

lemma synced_write: "synced H p A \<Longrightarrow> synced (H @ [(n, d)]) p A"
  by (auto simp: synced_def quiet_def active_def stored_def)

lemma synced_earlier: "synced H p A \<Longrightarrow> q \<le> p \<Longrightarrow> synced H q A"
proof -
  assume s: "synced H p A" and q: "q \<le> p"
  have "set (drop p H) \<subseteq> set (drop q H)" using q by (rule set_drop_subset_set_drop)
  then have "quiet H q n \<Longrightarrow> quiet H p n" for n by (auto simp: quiet_def)
  then show ?thesis using s q by (auto simp: synced_def)
qed

text \<open>
  What MongoDB documents. A change event reports the write at its position; for an insert, update or
  replace the document is looked up later (\<open>UpdateLookup\<close>), so it is the stored one at some later moment and
  missing when it has been deleted by then.
\<close>

definition eventFor :: "history \<Rightarrow> nat \<Rightarrow> rawEvent \<Rightarrow> bool" where
  "eventFor H i raw \<longleftrightarrow>
    (case snd (H ! i) of
       None \<Rightarrow> re_operationType raw = ''delete'' \<and> re_documentKey raw = fst (H ! i)
     | Some _ \<Rightarrow>
         re_operationType raw \<in> {''insert'', ''update'', ''replace''} \<and>
         (\<exists>j. i < j \<and> j \<le> length H \<and>
              re_fullDocument raw =
                (case stored H j (fst (H ! i)) of None \<Rightarrow> NoDocument | Some d \<Rightarrow> GoodDocument d)))"

text \<open>A stream opened at \<open>p\<close> reports the writes from \<open>p\<close> on, none left out; the token after an event
  stands for the position after it, and the first token for \<open>p\<close>.\<close>

fun streamFrom :: "history \<Rightarrow> ('tok \<Rightarrow> nat) \<Rightarrow> nat \<Rightarrow> (rawEvent \<times> 'tok option) list \<Rightarrow> bool" where
  "streamFrom H tokPos p [] = True"
| "streamFrom H tokPos p ((raw, token) # es) =
    (p < length H \<and> eventFor H p raw \<and> (case token of None \<Rightarrow> True | Some t \<Rightarrow> tokPos t = Suc p) \<and>
     streamFrom H tokPos (Suc p) es)"

definition streamAt :: "history \<Rightarrow> ('tok \<Rightarrow> nat) \<Rightarrow> nat \<Rightarrow> ('tok, 'ts) session \<Rightarrow> bool" where
  "streamAt H tokPos p inp \<longleftrightarrow>
    (case se_watch inp of Inr (Some t) \<Rightarrow> tokPos t = p | _ \<Rightarrow> True) \<and> streamFrom H tokPos p (se_events inp)"

text \<open>The scan of the active documents is not atomic: each name is seen as it is at some moment after
  the pinned position.\<close>

definition byName :: "FilterDocument list \<Rightarrow> string \<rightharpoonup> FilterDocument" where
  "byName docs = map_of (map (\<lambda>d. (fd_Name d, d)) docs)"

definition scanFrom :: "history \<Rightarrow> nat \<Rightarrow> FilterDocument list \<Rightarrow> bool" where
  "scanFrom H p docs \<longleftrightarrow>
    distinct (map fd_Name docs) \<and>
    (\<forall>n. \<exists>j. p \<le> j \<and> j \<le> length H \<and> byName docs n = active H j n)"

definition position :: "('tok \<Rightarrow> nat) \<Rightarrow> ('ts \<Rightarrow> nat) \<Rightarrow> ('tok, 'ts) FilterCDC \<Rightarrow> nat option" where
  "position tokPos tsPos c =
    (case cd_resumeToken c of Some t \<Rightarrow> Some (tokPos t) | None \<Rightarrow> map_option tsPos (cd_resumeTime c))"

definition faithful ::
    "history \<Rightarrow> ('tok \<Rightarrow> nat) \<Rightarrow> ('ts \<Rightarrow> nat) \<Rightarrow> nat option \<Rightarrow> ('tok, 'ts) session \<Rightarrow> bool" where
  "faithful H tokPos tsPos pos inp \<longleftrightarrow>
    (case pos of
       Some p \<Rightarrow> streamAt H tokPos p inp
     | None \<Rightarrow>
         (case se_optime inp of
            Inl _ \<Rightarrow> True
          | Inr t \<Rightarrow>
              tsPos t \<le> length H \<and> streamAt H tokPos (tsPos t) inp \<and>
              (case se_docs inp of Inl _ \<Rightarrow> True | Inr docs \<Rightarrow> scanFrom H (tsPos t) docs)))"

section \<open>Convergence\<close>

lemma eventFor_synced:
  assumes H: "wfHistory H" and p: "p < length H" and ev: "eventFor H p raw" and s: "synced H p A"
  shows "case decodeEvent raw of
           Inr (Some change) \<Rightarrow> synced H (Suc p) (applyChange A change)
         | _ \<Rightarrow> synced H (Suc p) A"
proof -
  define n where "n = fst (H ! p)"
  have mem: "H ! p \<in> set H" using p by simp
  have n: "n \<noteq> []" using H mem by (cases "H ! p") (auto simp: wfHistory_def n_def)
  have others: "A m = active H (length H) m" if "quiet H (Suc p) m" "m \<noteq> n" for m
    using s that p by (auto simp: synced_def n_def quiet_Suc)
  show ?thesis
  proof (cases "snd (H ! p)")
    case None
    have "stored H (Suc p) n = None" using p None by (simp add: stored_Suc n_def)
    then have "quiet H (Suc p) n \<Longrightarrow> active H (length H) n = None"
      using quiet_stored [of H "Suc p" n "Suc p"] p by (simp add: active_def)
    then have "synced H (Suc p) (applyChange A (deleteOf n))" using others p by (auto simp: synced_def)
    moreover have "decodeEvent raw = Inr (Some (deleteOf n))"
      using ev None n by (simp add: eventFor_def decodeEvent_def n_def deleteOf_def)
    ultimately show ?thesis by simp
  next
    case (Some d)
    define found where "found = re_fullDocument raw"
    obtain j where j: "p < j" "j \<le> length H"
      and found: "found = (case stored H j n of None \<Rightarrow> NoDocument | Some d \<Rightarrow> GoodDocument d)"
      using ev Some by (auto simp: eventFor_def n_def found_def)
    have op: "re_operationType raw \<in> {''insert'', ''update'', ''replace''}"
      using ev Some by (simp add: eventFor_def)
    have quiet: "stored H j n = Some d \<and> stored H (length H) n = Some d" if "quiet H (Suc p) n"
      using quiet_stored [OF that, of "Suc p"] quiet_stored [OF that, of j] j p Some
      by (simp add: stored_Suc n_def)
    show ?thesis
    proof (cases "stored H j n")
      case None
      then have "\<not> quiet H (Suc p) n" using quiet by auto
      then have "synced H (Suc p) A" using others p by (auto simp: synced_def)
      moreover have "\<exists>e. decodeEvent raw = Inl e"
        using op found None by (auto simp: decodeEvent_def found_def)
      ultimately show ?thesis by auto
    next
      case (Some d')
      have nm: "fd_Name d' = n" using stored_name [OF H Some] .
      have at_n: "quiet H (Suc p) n \<Longrightarrow>
          active H (length H) n = (if fd_DeletedAt d' = None then Some d' else None)"
        using quiet Some by (simp add: active_def)
      have dec: "decodeEvent raw = Inr (Some (if fd_DeletedAt d' = None then upsertOf d' else deleteOf n))"
        using op found Some nm by (auto simp: decodeEvent_def found_def upsertOf_def deleteOf_def)
      show ?thesis using dec at_n others p nm by (auto simp: synced_def)
    qed
  qed
qed

text \<open>
  \<open>settled\<close>: the names match, and the copy is exact up to the saved position. \<open>caught\<close> says the same
  during a session that has delivered everything before \<open>p\<close>.
\<close>

definition settled ::
    "history \<Rightarrow> ('tok \<Rightarrow> nat) \<Rightarrow> ('ts \<Rightarrow> nat) \<Rightarrow> ('tok, 'ts) FilterCDC \<Rightarrow> (string \<rightharpoonup> FilterDocument) \<Rightarrow> bool" where
  "settled H tokPos tsPos c A \<longleftrightarrow>
    set (cd_live c) = dom A \<and> (\<forall>q. position tokPos tsPos c = Some q \<longrightarrow> synced H q A)"

definition caught ::
    "history \<Rightarrow> ('tok \<Rightarrow> nat) \<Rightarrow> ('ts \<Rightarrow> nat) \<Rightarrow> nat \<Rightarrow> ('tok, 'ts) FilterCDC \<Rightarrow>
     (string \<rightharpoonup> FilterDocument) \<Rightarrow> bool" where
  "caught H tokPos tsPos p c A \<longleftrightarrow>
    set (cd_live c) = dom A \<and> synced H p A \<and> (\<forall>q. position tokPos tsPos c = Some q \<longrightarrow> q \<le> p)"

lemma caught_settled: "caught H tokPos tsPos p c A \<Longrightarrow> settled H tokPos tsPos c A"
  by (auto simp: caught_def settled_def intro: synced_earlier)

lemma settled_forget: "settled H tokPos tsPos c A \<Longrightarrow> settled H tokPos tsPos (forgetPosition c) A"
  by (simp add: settled_def position_def)

lemma position_remember:
  "position tokPos tsPos (rememberPosition c token) =
    (case token of Some t \<Rightarrow> Some (tokPos t) | None \<Rightarrow> position tokPos tsPos c)"
  by (simp add: position_def split: option.splits)

lemma position_track [simp]: "position tokPos tsPos (track c change) = position tokPos tsPos c"
  by (simp add: position_def split: option.split)

lemma position_running [simp]:
  "position tokPos tsPos (c\<lparr>cd_running := b\<rparr>) = position tokPos tsPos c"
  "settled H tokPos tsPos (c\<lparr>cd_running := b\<rparr>) A = settled H tokPos tsPos c A"
  by (simp_all add: position_def settled_def split: option.split)

text \<open>An event moves the caught-up point past its write, whatever it decodes to.\<close>

lemma caught_event:
  assumes "wfHistory H" "p < length H" "eventFor H p raw"
    and tok: "case token of None \<Rightarrow> True | Some t \<Rightarrow> tokPos t = Suc p"
    and c: "caught H tokPos tsPos p c A"
  shows "case decodeEvent raw of
           Inr (Some change) \<Rightarrow>
             caught H tokPos tsPos (Suc p) (rememberPosition (track c change) token) (applyChange A change)
         | _ \<Rightarrow> caught H tokPos tsPos (Suc p) (rememberPosition c token) A"
proof -
  have s: "synced H p A" and live: "set (cd_live c) = dom A"
    and pos: "\<And>q. position tokPos tsPos c = Some q \<Longrightarrow> q \<le> p"
    using c by (auto simp: caught_def)
  have pos': "position tokPos tsPos (rememberPosition c' token) = Some q \<Longrightarrow> q \<le> Suc p"
    if "position tokPos tsPos c' = position tokPos tsPos c" for c' q
    using that tok pos [of q] by (auto simp: position_remember split: option.splits)
  note ev = eventFor_synced [OF assms(1-3) s]
  show ?thesis
  proof (cases "\<exists>change. decodeEvent raw = Inr (Some change)")
    case True
    then obtain change where dec: "decodeEvent raw = Inr (Some change)" ..
    then show ?thesis
      using ev track_live [OF decoded_wf [OF dec] live] pos' [OF position_track] by (auto simp: caught_def)
  next
    case False
    then show ?thesis
      using ev live pos' by (auto simp: caught_def split: sum.splits option.splits)
  qed
qed

lemma tailStream_caught:
  "tailStream r es = (e, r') \<Longrightarrow> wfHistory H \<Longrightarrow> streamFrom H tokPos p es \<Longrightarrow>
   caught H tokPos tsPos p (cr_cdc r) (copyOf A0 r) \<Longrightarrow>
   (case e of None \<Rightarrow> caught H tokPos tsPos (p + length es) (cr_cdc r') (copyOf A0 r')
    | Some _ \<Rightarrow> settled H tokPos tsPos (cr_cdc r') (copyOf A0 r'))"
proof (induction es arbitrary: r p)
  case (Cons x es)
  obtain raw token where x: "x = (raw, token)" by (cases x)
  note prems = Cons.prems [unfolded x]
  have step: "p < length H" "eventFor H p raw" "case token of None \<Rightarrow> True | Some t \<Rightarrow> tokPos t = Suc p"
    and rest: "streamFrom H tokPos (Suc p) es"
    using prems(3) by simp_all
  note ev = caught_event [OF prems(2) step prems(4)]
  show ?case
  proof (cases "\<exists>change. decodeEvent raw = Inr (Some change)")
    case True
    then obtain change where dec: "decodeEvent raw = Inr (Some change)" ..
    obtain e1 r1 where snd: "chanSend r change = (e1, r1)" by (cases "chanSend r change")
    from snd show ?thesis
    proof (cases rule: chanSend_cases)
      case 1
      then show ?thesis using prems(1,4) dec snd caught_settled by auto
    next
      case 2
      define r2 where "r2 = r1\<lparr>cr_cdc := rememberPosition (track (cr_cdc r1) change) token\<rparr>"
      have "tailStream r2 es = (e, r')" "caught H tokPos tsPos (Suc p) (cr_cdc r2) (copyOf A0 r2)"
        using prems(1) dec snd 2 ev by (simp_all add: r2_def)
      then show ?thesis using Cons.IH [OF _ prems(2) rest, of r2] x by (simp split: option.splits)
    qed
  next
    case False
    define r2 where "r2 = r\<lparr>cr_cdc := rememberPosition (cr_cdc r) token\<rparr>"
    have "tailStream r2 es = (e, r')" "caught H tokPos tsPos (Suc p) (cr_cdc r2) (copyOf A0 r2)"
      using False prems(1) ev by (auto simp: r2_def split: sum.splits option.splits)
    then show ?thesis using Cons.IH [OF _ prems(2) rest, of r2] x by (simp split: option.splits)
  qed
qed simp

text \<open>The snapshot brings the copy to the pinned position.\<close>

lemma replay_upserts: "distinct (map fd_Name docs) \<Longrightarrow> replay A (map upsertOf docs) = A ++ byName docs"
proof (induction docs arbitrary: A)
  case (Cons d docs)
  then have "byName docs (fd_Name d) = None" by (auto simp: byName_def map_of_eq_None_iff)
  then show ?case using Cons by (auto simp: byName_def map_add_def fun_eq_iff split: option.splits)
qed (simp add: byName_def)

lemma replay_deletes: "replay A (map deleteOf ns) = (\<lambda>n. if n \<in> set ns then None else A n)"
  by (induction ns arbitrary: A) (auto simp: fun_eq_iff)

lemma dom_byName: "dom (byName docs) = fd_Name ` set docs"
  by (auto simp: byName_def dom_map_of_conv_image_fst image_image)

lemma snapshot_copy:
  assumes "snapshot inp r = (e, r')" and m: "mirror A0 r"
  shows "mirror A0 r'"
    and "position tokPos tsPos (cr_cdc r') = position tokPos tsPos (cr_cdc r)"
    and "e = None \<Longrightarrow> \<exists>docs. se_docs inp = Inr docs \<and>
           (distinct (map fd_Name docs) \<longrightarrow> copyOf A0 r' = byName docs)"
proof -
  have "mirror A0 r' \<and> position tokPos tsPos (cr_cdc r') = position tokPos tsPos (cr_cdc r) \<and>
        (e = None \<longrightarrow> (\<exists>docs. se_docs inp = Inr docs \<and>
           (distinct (map fd_Name docs) \<longrightarrow> copyOf A0 r' = byName docs)))"
  proof (cases "se_docs inp")
    case (Inl a)
    then show ?thesis using assms by (auto simp: snapshot_def)
  next
    case (Inr docs)
    obtain e1 r1 where s1: "sendAll r (map upsertOf docs) = (e1, r1)" by (cases "sendAll r (map upsertOf docs)")
    have m1: "mirror A0 r1" using sendAll_mirror [OF s1 _ m] by simp
    note p1 = sendAll_position [OF s1]
    show ?thesis
    proof (cases e1)
      case (Some a)
      then show ?thesis using assms(1) Inr s1 m1 p1 by (auto simp: snapshot_def position_def split: option.splits)
    next
      case None
      define stale where "stale = staleNames (cd_live (cr_cdc r1)) (map fd_Name docs)"
      have s2: "sendAll r1 (map deleteOf stale) = (e, r')"
        using assms(1) Inr s1 None by (simp add: snapshot_def stale_def)
      have m2: "mirror A0 r'" using sendAll_mirror [OF s2 _ m1] by simp
      note p2 = sendAll_position [OF s2]
      have "copyOf A0 r' = byName docs" if "e = None" and d: "distinct (map fd_Name docs)"
      proof -
        have s2': "sendAll r1 (map deleteOf stale) = (None, r')" and s1': "sendAll r (map upsertOf docs) = (None, r1)"
          using s2 s1 that None by auto
        have c1: "copyOf A0 r1 = copyOf A0 r ++ byName docs"
          using sendAll_done [OF s1'] replay_upserts [OF d] by simp
        have "set stale = dom (copyOf A0 r1) - dom (byName docs)"
          using m1 by (auto simp: stale_def staleNames_def dom_byName)
        then show ?thesis
          using sendAll_done [OF s2'] by (auto simp: replay_deletes c1 fun_eq_iff map_add_def split: option.splits)
      qed
      then show ?thesis using m2 p1 p2 Inr by (auto simp: position_def split: option.splits)
    qed
  qed
  then show "mirror A0 r'"
    and "position tokPos tsPos (cr_cdc r') = position tokPos tsPos (cr_cdc r)"
    and "e = None \<Longrightarrow> \<exists>docs. se_docs inp = Inr docs \<and>
           (distinct (map fd_Name docs) \<longrightarrow> copyOf A0 r' = byName docs)"
    by blast+
qed

lemma scan_synced: "scanFrom H p docs \<Longrightarrow> p \<le> length H \<Longrightarrow> synced H p (byName docs)"
  unfolding synced_def scanFrom_def using quiet_active by metis

lemma caught_remember:
  "caught H tokPos tsPos p c A \<Longrightarrow> (case token of None \<Rightarrow> True | Some t \<Rightarrow> tokPos t = p) \<Longrightarrow>
   caught H tokPos tsPos p (rememberPosition c token) A"
  by (auto simp: caught_def position_remember split: option.splits)

lemma follow_settled:
  assumes f: "follow inp r = (e, r')" and H: "wfHistory H" and at: "streamAt H tokPos p inp"
    and c: "caught H tokPos tsPos p (cr_cdc r) (copyOf A0 r)"
  shows "settled H tokPos tsPos (cr_cdc r') (copyOf A0 r')"
proof (cases "se_watch inp")
  case (Inl a)
  then show ?thesis using f caught_settled [OF c] by (auto simp: follow_def)
next
  case (Inr token)
  define r1 where "r1 = r\<lparr>cr_cdc := rememberPosition (cr_cdc r) token\<rparr>"
  have "case token of None \<Rightarrow> True | Some t \<Rightarrow> tokPos t = p"
    using at Inr by (auto simp: streamAt_def split: option.splits)
  then have c1: "caught H tokPos tsPos p (cr_cdc r1) (copyOf A0 r1)"
    using caught_remember [OF c] by (simp add: r1_def)
  obtain e2 r2 where snd: "chanSend r1 readyChange = (e2, r2)" by (cases "chanSend r1 readyChange")
  from snd show ?thesis
  proof (cases rule: chanSend_cases)
    case 1
    then show ?thesis using f Inr snd caught_settled [OF c1] by (auto simp: follow_def r1_def)
  next
    case 2
    obtain e3 r3 where t: "tailStream r2 (se_events inp) = (e3, r3)" by (cases "tailStream r2 (se_events inp)")
    have "caught H tokPos tsPos p (cr_cdc r2) (copyOf A0 r2)" using c1 2 by simp
    from tailStream_caught [OF t H _ this] at have "settled H tokPos tsPos (cr_cdc r3) (copyOf A0 r3)"
      by (auto simp: streamAt_def caught_settled split: option.splits)
    then show ?thesis
      using f Inr snd 2 t settled_forget
      by (auto simp: follow_def r1_def split: option.splits if_splits)
  qed
qed

text \<open>After a completed snapshot the pinned time is a position the copy has reached.\<close>

lemma snapshot_caught:
  assumes s: "snapshot inp r = (None, r1)" and m: "mirror A0 r"
    and pos: "position tokPos tsPos (cr_cdc r) = None"
    and at: "faithful H tokPos tsPos None inp" and t: "se_optime inp = Inr t"
  shows "caught H tokPos tsPos (tsPos t) ((cr_cdc r1)\<lparr>cd_resumeTime := Some t\<rparr>) (copyOf A0 r1)"
    and "streamAt H tokPos (tsPos t) inp"
proof -
  note snap = snapshot_copy [OF s m]
  obtain docs where docs: "se_docs inp = Inr docs"
    and copy: "distinct (map fd_Name docs) \<longrightarrow> copyOf A0 r1 = byName docs"
    using snap(3) by blast
  have scan: "scanFrom H (tsPos t) docs" "tsPos t \<le> length H" and "streamAt H tokPos (tsPos t) inp"
    using at t docs by (auto simp: faithful_def)
  have "cd_resumeToken (cr_cdc r1) = None"
    using snap(2) [of tokPos tsPos] pos by (auto simp: position_def split: option.splits)
  then show "caught H tokPos tsPos (tsPos t) ((cr_cdc r1)\<lparr>cd_resumeTime := Some t\<rparr>) (copyOf A0 r1)"
    using scan_synced [OF scan] scan(1) copy snap(1) by (auto simp: caught_def position_def scanFrom_def)
  show "streamAt H tokPos (tsPos t) inp" by fact
qed

lemma runOnce_settled:
  assumes f: "runOnce inp r = (e, r')" and H: "wfHistory H"
    and at: "faithful H tokPos tsPos (position tokPos tsPos (cr_cdc r)) inp"
    and c: "settled H tokPos tsPos (cr_cdc r) (copyOf A0 r)"
  shows "settled H tokPos tsPos (cr_cdc r') (copyOf A0 r')"
proof (cases "position tokPos tsPos (cr_cdc r)")
  case (Some p)
  then have "caught H tokPos tsPos p (cr_cdc r) (copyOf A0 r)" "follow inp r = (e, r')"
    using c f by (auto simp: caught_def settled_def runOnce_def position_def split: option.splits if_splits)
  then show ?thesis using follow_settled at Some H by (auto simp: faithful_def)
next
  case None
  then have none: "cd_resumeToken (cr_cdc r) = None" "cd_resumeTime (cr_cdc r) = None"
    by (auto simp: position_def split: option.splits)
  show ?thesis
  proof (cases "se_optime inp")
    case (Inl a)
    then show ?thesis using f c none by (auto simp: runOnce_def)
  next
    case (Inr t)
    have m: "mirror A0 r" using c by (simp add: settled_def)
    obtain e1 r1 where s: "snapshot inp r = (e1, r1)" by (cases "snapshot inp r")
    note snap = snapshot_copy [OF s m]
    show ?thesis
    proof (cases e1)
      case (Some a)
      then show ?thesis using f none Inr s snap None by (auto simp: runOnce_def settled_def)
    next
      case None
      define r2 where "r2 = r1\<lparr>cr_cdc := (cr_cdc r1)\<lparr>cd_resumeTime := Some t\<rparr>\<rparr>"
      note reached = snapshot_caught [OF s [unfolded None] m \<open>position tokPos tsPos (cr_cdc r) = None\<close> _ Inr]
      have "caught H tokPos tsPos (tsPos t) (cr_cdc r2) (copyOf A0 r2)" "streamAt H tokPos (tsPos t) inp"
        using reached [of H] at \<open>position tokPos tsPos (cr_cdc r) = None\<close> by (simp_all add: r2_def)
      moreover have "follow inp r2 = (e, r')" using f none Inr s None by (simp add: runOnce_def r2_def)
      ultimately show ?thesis using follow_settled H by blast
    qed
  qed
qed

lemma Run_settled:
  assumes f: "Run inp1 inp2 alive c = (e, c', sent)" and H: "wfHistory H"
    and at1: "faithful H tokPos tsPos (position tokPos tsPos c) inp1"
    and at2: "faithful H tokPos tsPos None inp2"
    and c: "settled H tokPos tsPos c A"
  shows "settled H tokPos tsPos c' (replay A sent)"
proof (cases "cd_running c")
  case True
  then show ?thesis using f c by (auto simp: Run_def)
next
  case False
  define r0 where "r0 = \<lparr>cr_cdc = c\<lparr>cd_running := True\<rparr>, cr_sends = se_sends inp1, cr_sent = []\<rparr>"
  obtain e1 r1 where 1: "runOnce inp1 r0 = (e1, r1)" by (cases "runOnce inp1 r0")
  have s1: "settled H tokPos tsPos (cr_cdc r1) (copyOf A r1)"
    by (rule runOnce_settled [OF 1 H]) (use at1 c in \<open>simp_all add: r0_def\<close>)
  define r2 where "r2 = r1\<lparr>cr_cdc := forgetPosition (cr_cdc r1), cr_sends := se_sends inp2\<rparr>"
  obtain e3 r3 where 3: "runOnce inp2 r2 = (e3, r3)" by (cases "runOnce inp2 r2")
  have s3: "settled H tokPos tsPos (cr_cdc r3) (copyOf A r3)"
    by (rule runOnce_settled [OF 3 H])
      (use at2 settled_forget [OF s1] in \<open>simp_all add: r2_def position_def\<close>)
  show ?thesis
    using f False s1 s3 1 3 by (auto simp: Run_def r0_def [symmetric] r2_def [symmetric] split: if_splits)
qed

text \<open>A session whose sends are all taken: the channel is drained and the context stays alive.\<close>

definition sendsOk :: "nat \<Rightarrow> ('tok, 'ts) cdcRun \<Rightarrow> bool" where
  "sendsOk k r \<longleftrightarrow> list_all id (cr_sends r) \<and> k \<le> length (cr_sends r)"

lemma chanSend_ok:
  assumes "sendsOk (Suc k) r"
  obtains r' where "chanSend r change = (None, r')" "sendsOk k r'"
  using assms by (cases "cr_sends r") (auto simp: sendsOk_def chanSend_def)

lemma sendsOk_cdc [simp]: "sendsOk k (r\<lparr>cr_cdc := c\<rparr>) = sendsOk k r"
  by (simp add: sendsOk_def)

lemma sendAll_ok: "sendsOk (length cs + k) r \<Longrightarrow> \<exists>r'. sendAll r cs = (None, r') \<and> sendsOk k r'"
proof (induction cs arbitrary: r)
  case (Cons change cs)
  then obtain r1 where "chanSend r change = (None, r1)" "sendsOk (length cs + k) r1"
    using chanSend_ok [of "length cs + k" r change] by auto
  then show ?case using Cons.IH [of "trackRun r1 change"] by simp
qed simp

lemma tailStream_ok: "sendsOk (length es) r \<Longrightarrow> \<exists>r'. tailStream r es = (None, r')"
proof (induction es arbitrary: r)
  case (Cons x es)
  obtain raw token where x: "x = (raw, token)" by (cases x)
  show ?case
  proof (cases "\<exists>change. decodeEvent raw = Inr (Some change)")
    case True
    then obtain change where dec: "decodeEvent raw = Inr (Some change)" ..
    obtain r1 where 1: "chanSend r change = (None, r1)" "sendsOk (length es) r1"
      using chanSend_ok [of "length es" r change] Cons.prems by auto
    then show ?thesis using Cons.IH [of "r1\<lparr>cr_cdc := c\<rparr>" for c] x dec by simp
  next
    case False
    have "sendsOk (length es) r" using Cons.prems by (simp add: sendsOk_def)
    then show ?thesis
      using Cons.IH [of "r\<lparr>cr_cdc := c\<rparr>" for c] x False by (auto split: sum.splits option.splits)
  qed
qed simp

lemma follow_catches_up:
  assumes H: "wfHistory H" and at: "streamAt H tokPos p inp"
    and c: "caught H tokPos tsPos p (cr_cdc r) (copyOf A0 r)"
    and w: "se_watch inp = Inr token" and ok: "sendsOk (Suc (length (se_events inp))) r"
    and all: "p + length (se_events inp) = length H"
    and err: "\<forall>e. se_streamErr inp = Some e \<longrightarrow> \<not> isResumeLost e"
    and f: "follow inp r = (e, r')"
  shows "copyOf A0 r' = active H (length H) \<and> \<not> isResumeLost e"
proof -
  define r1 where "r1 = r\<lparr>cr_cdc := rememberPosition (cr_cdc r) token\<rparr>"
  have "case token of None \<Rightarrow> True | Some t \<Rightarrow> tokPos t = p"
    using at w by (auto simp: streamAt_def split: option.splits)
  then have c1: "caught H tokPos tsPos p (cr_cdc r1) (copyOf A0 r1)"
    using caught_remember [OF c] by (simp add: r1_def)
  have "sendsOk (Suc (length (se_events inp))) r1" using ok by (simp add: r1_def)
  then obtain r2 where 2: "chanSend r1 readyChange = (None, r2)" "sendsOk (length (se_events inp)) r2"
    by (rule chanSend_ok)
  have c2: "caught H tokPos tsPos p (cr_cdc r2) (copyOf A0 r2)"
    using 2(1) by (cases rule: chanSend_cases) (use c1 in simp_all)
  obtain r3 where 3: "tailStream r2 (se_events inp) = (None, r3)" using tailStream_ok [OF 2(2)] by blast
  have "caught H tokPos tsPos (length H) (cr_cdc r3) (copyOf A0 r3)"
    using tailStream_caught [OF 3 H _ c2] at all by (simp add: streamAt_def)
  then have "copyOf A0 r3 = active H (length H)" by (simp add: caught_def synced_end)
  then show ?thesis
    using f w 2(1) 3 err by (auto simp: follow_def r1_def split: option.splits if_splits)
qed

text \<open>
  A complete session: nothing the code asks for fails, every send is taken, and the stream reports
  the writes up to the end of the history before it ends without losing the position.
\<close>

definition complete ::
    "history \<Rightarrow> ('tok \<Rightarrow> nat) \<Rightarrow> ('ts \<Rightarrow> nat) \<Rightarrow> ('tok, 'ts) FilterCDC \<Rightarrow> ('tok, 'ts) session \<Rightarrow> bool" where
  "complete H tokPos tsPos c inp \<longleftrightarrow>
    \<not> Sum_Type.isl (se_watch inp) \<and> list_all id (se_sends inp) \<and>
    (case se_streamErr inp of None \<Rightarrow> True | Some e \<Rightarrow> \<not> isResumeLost e) \<and>
    (case position tokPos tsPos c of
       Some p \<Rightarrow>
         p + length (se_events inp) = length H \<and> length (se_sends inp) > length (se_events inp)
     | None \<Rightarrow>
         (case (se_optime inp, se_docs inp) of
            (Inr t, Inr docs) \<Rightarrow>
              tsPos t + length (se_events inp) = length H \<and>
              length (se_sends inp) > length docs + length (cd_live c) + length (se_events inp)
          | _ \<Rightarrow> False))"

lemma sendAll_upserts_stale:
  "sendAll r (map upsertOf docs) = (None, r') \<Longrightarrow> fd_Name ` set docs \<subseteq> N \<Longrightarrow>
   filter (\<lambda>n. n \<notin> N) (cd_live (cr_cdc r')) = filter (\<lambda>n. n \<notin> N) (cd_live (cr_cdc r))"
proof (induction docs arbitrary: r)
  case (Cons d docs)
  obtain e1 r1 where s: "chanSend r (upsertOf d) = (e1, r1)" by (cases "chanSend r (upsertOf d)")
  from s show ?case
    by (cases rule: chanSend_cases)
      (use Cons s in \<open>auto simp: track_def upsertOf_def List.insert_def\<close>)
qed simp

lemma snapshot_ok:
  assumes docs: "se_docs inp = Inr docs" and ok: "sendsOk (length docs + (length (cd_live (cr_cdc r)) + k)) r"
  shows "\<exists>r'. snapshot inp r = (None, r') \<and> sendsOk k r'"
proof -
  obtain r1 where 1: "sendAll r (map upsertOf docs) = (None, r1)"
      "sendsOk (length (cd_live (cr_cdc r)) + k) r1"
    using sendAll_ok [of "map upsertOf docs" "length (cd_live (cr_cdc r)) + k" r] ok by auto
  define stale where "stale = staleNames (cd_live (cr_cdc r1)) (map fd_Name docs)"
  have "stale = filter (\<lambda>n. n \<notin> fd_Name ` set docs) (cd_live (cr_cdc r))"
    using sendAll_upserts_stale [OF 1(1) order_refl] by (simp add: stale_def staleNames_def)
  then have "length stale \<le> length (cd_live (cr_cdc r))" by simp
  then have "sendsOk (length (map deleteOf stale) + k) r1" using 1(2) by (auto simp: sendsOk_def)
  from sendAll_ok [OF this] show ?thesis using docs 1(1) by (auto simp: snapshot_def stale_def)
qed

lemma runOnce_catches_up:
  assumes H: "wfHistory H" and at: "faithful H tokPos tsPos (position tokPos tsPos (cr_cdc r)) inp"
    and c: "settled H tokPos tsPos (cr_cdc r) (copyOf A0 r)"
    and full: "complete H tokPos tsPos (cr_cdc r) inp" and sends: "cr_sends r = se_sends inp"
    and f: "runOnce inp r = (e, r')"
  shows "copyOf A0 r' = active H (length H) \<and> \<not> isResumeLost e"
proof -
  obtain token where w: "se_watch inp = Inr token" using full by (cases "se_watch inp") (auto simp: complete_def)
  have err: "\<forall>e. se_streamErr inp = Some e \<longrightarrow> \<not> isResumeLost e"
    using full by (auto simp: complete_def split: option.splits)
  show ?thesis
  proof (cases "position tokPos tsPos (cr_cdc r)")
    case (Some p)
    have "caught H tokPos tsPos p (cr_cdc r) (copyOf A0 r)" "follow inp r = (e, r')" "streamAt H tokPos p inp"
      using c f at Some
      by (auto simp: caught_def settled_def runOnce_def position_def faithful_def split: option.splits if_splits)
    then show ?thesis
      using follow_catches_up [OF H _ _ w _ _ err] full Some sends by (auto simp: complete_def sendsOk_def)
  next
    case None
    then have none: "cd_resumeToken (cr_cdc r) = None" "cd_resumeTime (cr_cdc r) = None"
      by (auto simp: position_def split: option.splits)
    obtain t docs where t: "se_optime inp = Inr t" and docs: "se_docs inp = Inr docs"
      and all: "tsPos t + length (se_events inp) = length H"
      and len: "length (se_sends inp) > length docs + length (cd_live (cr_cdc r)) + length (se_events inp)"
      using full None by (auto simp: complete_def split: sum.splits)
    have "sendsOk (length docs + (length (cd_live (cr_cdc r)) + Suc (length (se_events inp)))) r"
      using full len sends by (auto simp: complete_def sendsOk_def)
    from snapshot_ok [OF docs this] obtain r1 where s: "snapshot inp r = (None, r1)"
      and ok: "sendsOk (Suc (length (se_events inp))) r1" by blast
    define r2 where "r2 = r1\<lparr>cr_cdc := (cr_cdc r1)\<lparr>cd_resumeTime := Some t\<rparr>\<rparr>"
    have m: "mirror A0 r" using c by (simp add: settled_def)
    have "caught H tokPos tsPos (tsPos t) (cr_cdc r2) (copyOf A0 r2)" "streamAt H tokPos (tsPos t) inp"
      using snapshot_caught [OF s m None _ t, of H] at None by (simp_all add: r2_def)
    moreover have "follow inp r2 = (e, r')" using f none t s by (simp add: runOnce_def r2_def)
    moreover have "sendsOk (Suc (length (se_events inp))) r2" using ok by (simp add: r2_def)
    ultimately show ?thesis using follow_catches_up [OF H _ _ w _ all err] by blast
  qed
qed

lemma Run_catches_up:
  assumes f: "Run inp1 inp2 alive c = (e, c', sent)" and H: "wfHistory H" and idle: "\<not> cd_running c"
    and at1: "faithful H tokPos tsPos (position tokPos tsPos c) inp1"
    and c: "settled H tokPos tsPos c A" and full: "complete H tokPos tsPos c inp1"
  shows "replay A sent = active H (length H)"
proof -
  define r0 where "r0 = \<lparr>cr_cdc = c\<lparr>cd_running := True\<rparr>, cr_sends = se_sends inp1, cr_sent = []\<rparr>"
  obtain e1 r1 where 1: "runOnce inp1 r0 = (e1, r1)" by (cases "runOnce inp1 r0")
  have full': "complete H tokPos tsPos (cr_cdc r0) inp1" using full by (auto simp: r0_def complete_def split: option.splits sum.splits)
  have "copyOf A r1 = active H (length H) \<and> \<not> isResumeLost e1"
    by (rule runOnce_catches_up [OF H _ _ full' _ 1]) (use at1 c in \<open>simp_all add: r0_def\<close>)
  then show ?thesis using f idle 1 by (auto simp: Run_def r0_def [symmetric])
qed

section \<open>Runs and writes\<close>

text \<open>
  The collection is written and \<open>Run\<close> is called again and again on one \<open>FilterCDC\<close>, each run ending in
  any of its ways. The writes made while a run is under way come before it in the sequence: its scan and its
  lookups may see any moment of the history.
\<close>

inductive cdcReach ::
    "('tok \<Rightarrow> nat) \<Rightarrow> ('ts \<Rightarrow> nat) \<Rightarrow> history \<Rightarrow> ('tok, 'ts) FilterCDC \<Rightarrow> (string \<rightharpoonup> FilterDocument) \<Rightarrow> bool"
  for tokPos tsPos
where
  start: "wfHistory H \<Longrightarrow> cdcReach tokPos tsPos H newCDC Map.empty"
| written: "cdcReach tokPos tsPos H c A \<Longrightarrow> wfHistory (H @ [w]) \<Longrightarrow> cdcReach tokPos tsPos (H @ [w]) c A"
| run: "cdcReach tokPos tsPos H c A \<Longrightarrow>
    faithful H tokPos tsPos (position tokPos tsPos c) inp1 \<Longrightarrow> faithful H tokPos tsPos None inp2 \<Longrightarrow>
    Run inp1 inp2 alive c = (e, c', sent) \<Longrightarrow> cdcReach tokPos tsPos H c' (replay A sent)"

lemma reach_idle: "cdcReach tokPos tsPos H c A \<Longrightarrow> \<not> cd_running c"
  by (induction rule: cdcReach.induct)
    (auto simp: newCDC_def Run_def split: prod.splits if_splits)

lemma reach_settled: "cdcReach tokPos tsPos H c A \<Longrightarrow> wfHistory H \<and> settled H tokPos tsPos c A"
proof (induction rule: cdcReach.induct)
  case (start H)
  then show ?case by (simp add: settled_def newCDC_def position_def)
next
  case (written H c A w)
  then show ?case by (cases w) (auto simp: settled_def intro: synced_write)
next
  case (run H c A inp1 inp2 alive e c' sent)
  then show ?case using Run_settled by blast
qed

section \<open>Sample\<close>

definition sampleDoc :: "string \<Rightarrow> FilterDocument" where
  "sampleDoc n = \<lparr>fd_Name = n, fd_Hint = [], fd_Metadata = [], fd_Expr = ''type = a'',
     fd_CreatedAt = 1, fd_UpdatedAt = 1, fd_DeletedAt = None\<rparr>"

definition sampleHistory :: history where
  "sampleHistory = [(''a'', Some (sampleDoc ''a'')), (''b'', Some (sampleDoc ''b'')), (''a'', None)]"

definition sampleSession :: "(nat, nat) session" where
  "sampleSession =
    \<lparr>se_optime = Inr 1, se_docs = Inr [sampleDoc ''a''], se_watch = Inr None,
     se_events =
       [(\<lparr>re_operationType = ''insert'', re_fullDocument = GoodDocument (sampleDoc ''b''), re_documentKey = ''b''\<rparr>, Some 2),
        (\<lparr>re_operationType = ''delete'', re_fullDocument = NoDocument, re_documentKey = ''a''\<rparr>, Some 3)],
     se_streamErr = Some (ErrServer [6]), se_cancelled = False, se_sends = [True, True, True, True]\<rparr>"

lemma sample_history: "wfHistory sampleHistory"
  by (simp add: wfHistory_def sampleHistory_def sampleDoc_def)

lemma sample_faithful: "faithful sampleHistory id id None sampleSession"
proof -
  have "active sampleHistory 1 = byName [sampleDoc ''a'']"
    by (simp add: fun_eq_iff active_def stored_def sampleHistory_def byName_def sampleDoc_def)
  then have scan: "scanFrom sampleHistory 1 [sampleDoc ''a'']"
    unfolding scanFrom_def by (auto intro!: exI [of _ 1] simp: sampleHistory_def)
  have stream: "streamFrom sampleHistory id 1 (se_events sampleSession)"
    by (auto simp: sampleSession_def sampleHistory_def eventFor_def stored_def intro!: exI [of _ 2])
  show ?thesis using scan stream
    by (simp add: faithful_def sampleSession_def streamAt_def sampleHistory_def)
qed

lemma sample_complete: "complete sampleHistory id id newCDC sampleSession"
  by (simp add: complete_def position_def newCDC_def sampleSession_def sampleHistory_def resumeLostCodes_def)

lemma sample_run:
  "Run sampleSession sampleSession True newCDC =
    (Wrapped ''cefilter cdc: stream'' (ErrServer [6]),
     \<lparr>cd_running = False, cd_resumeToken = Some 3, cd_resumeTime = Some 1, cd_live = [''b'']\<rparr>,
     [upsertOf (sampleDoc ''a''), readyChange, upsertOf (sampleDoc ''b''), deleteOf ''a''])"
  by code_simp

lemma sample_reach:
  "cdcReach id id sampleHistory \<lparr>cd_running = False, cd_resumeToken = Some 3, cd_resumeTime = Some 1, cd_live = [''b'']\<rparr>
    [''b'' \<mapsto> sampleDoc ''b'']"
  using cdcReach.run [OF cdcReach.start [OF sample_history] _ sample_faithful sample_run] sample_faithful
  by (simp add: position_def newCDC_def sampleDoc_def)

section \<open>Properties\<close>

text \<open>
  C4: After any sequence of writes to the collection and of runs of the CDC, however each ended, the names
  it believes live are exactly those the caller holds, and the caller's copy already agrees with the
  collection's active documents on every name that has no write after the saved resume position: nothing
  but the writes still to be replayed is missing.
\<close>
theorem cdc_copy_exact_up_to_position:
  assumes "cdcReach tokPos tsPos H c A"
  shows "set (cd_live c) = dom A \<and>
    (case position tokPos tsPos c of
       None \<Rightarrow> True
     | Some p \<Rightarrow> p \<le> length H \<and> {n. A n \<noteq> active H (length H) n} \<subseteq> fst ` set (drop p H))"
  using reach_settled [OF assms] unfolding settled_def synced_def quiet_def
  by (cases "position tokPos tsPos c") (simp, simp, blast)

theorem cdc_copy_exact_up_to_position_witness:
  "position id id \<lparr>cd_running = False, cd_resumeToken = Some 3, cd_resumeTime = Some (1 :: nat), cd_live = [''b'']\<rparr> = Some 3 \<and>
   {n. [''b'' \<mapsto> sampleDoc ''b''] n \<noteq> active sampleHistory 3 n} = {}"
  using cdc_copy_exact_up_to_position [OF sample_reach] by (simp add: position_def sampleHistory_def eval_nat_numeral)

text \<open>
  C21: A run that completes a session (the requests to MongoDB succeed, the caller drains the channel,
  and the stream reports the writes up to the end of the history) leaves the caller with exactly the
  active documents of the collection, whether it starts from a snapshot or resumes, and whatever happened in
  the runs before it.
\<close>
theorem cdc_catches_up:
  assumes "cdcReach tokPos tsPos H c A"
    and "faithful H tokPos tsPos (position tokPos tsPos c) inp1"
    and "complete H tokPos tsPos c inp1"
    and "Run inp1 inp2 alive c = (e, c', sent)"
  shows "replay A sent = active H (length H)"
  using Run_catches_up [OF assms(4) _ _ assms(2) _ assms(3)] reach_settled [OF assms(1)] reach_idle [OF assms(1)]
  by blast

theorem cdc_catches_up_witness:
  "replay Map.empty [upsertOf (sampleDoc ''a''), readyChange, upsertOf (sampleDoc ''b''), deleteOf ''a''] =
   active sampleHistory 3"
  using cdc_catches_up [OF cdcReach.start [OF sample_history] _ sample_complete sample_run] sample_faithful
  by (simp add: position_def newCDC_def sampleHistory_def eval_nat_numeral)

end
