(* ===== verification/Key_Encryption.thy ===== *)
theory Key_Encryption
  imports Prelude
begin

text \<open>
  Encrypted private keys: PKCS#8 with PBES2 (\<open>utils/pkcs8enc/pkcs8enc.go\<close>), the PEM forms of ECDSA keys
  (\<open>utils/ecdsa/edcsa.go\<close>) and the decryption of configured signing keys (\<open>DecryptPEM\<close> of
  \<open>services/keymaterial/key-material.go\<close>).

  The primitives of Go's crypto, asn1, pem and x509 packages are the record \<open>cryptoLib\<close>; what the code
  relies on are the predicates \<open>primitivesLaw\<close>, \<open>codecLaw\<close> and \<open>keyLaw\<close>. A byte is a character. An outcome is \<open>None\<close> when the code panics (or
  runs out of fuel, which the theorems exclude), an error on the left, or a value.
\<close>

section \<open>Outcomes\<close>

datatype part = Info | Algorithm | PBES2 | Kdf | PBKDF2 | Cipher | IV | PRF | DEK

datatype cryptError =
    EmptyPassword | RandError | KdfError | MarshalError | WrongPEMType | Malformed part | Unsupported part
  | IterationsOutOfRange | NotWholeBlocks | CipherError | DecryptionFailed | NoPEMBlock | MissingDEK
  | InvalidIV | InvalidIVLength nat | EmptyData | PaddingLength nat | PaddingByte nat
  | ParseKeyError | NotECDSA

type_synonym 'a outcome = "(cryptError + 'a) option"

abbreviation ok :: "'a \<Rightarrow> 'a outcome" where "ok x \<equiv> Some (Inr x)"

abbreviation fail :: "cryptError \<Rightarrow> 'a outcome" where "fail e \<equiv> Some (Inl e)"

definition bindO :: "'a outcome \<Rightarrow> ('a \<Rightarrow> 'b outcome) \<Rightarrow> 'b outcome" where
  "bindO m f = (case m of None \<Rightarrow> None | Some (Inl e) \<Rightarrow> Some (Inl e) | Some (Inr x) \<Rightarrow> f x)"

lemma bindO_simps [simp]: "bindO (ok x) f = f x" "bindO (fail e) f = fail e" "bindO None f = None"
  by (simp_all add: bindO_def)

lemma bindO_ok: "bindO m f = ok y \<longleftrightarrow> (\<exists>x. m = ok x \<and> f x = ok y)"
  by (auto simp: bindO_def split: option.splits sum.splits)

lemma orFail_ok: "(case m of None \<Rightarrow> fail e | Some x \<Rightarrow> ok x) = ok y \<longleftrightarrow> m = Some y"
  by (cases m) auto

text \<open>\<open>returns m\<close>: no panic.\<close>

definition returns :: "'a outcome \<Rightarrow> bool" where
  "returns m \<longleftrightarrow> m \<noteq> None"

lemma returns_simps [simp]: "returns (ok x)" "returns (fail e)" "\<not> returns None"
  by (simp_all add: returns_def)

lemma returns_bind: "returns m \<Longrightarrow> (\<And>x. m = ok x \<Longrightarrow> returns (f x)) \<Longrightarrow> returns (bindO m f)"
  by (auto simp: bindO_def returns_def split: option.splits sum.splits)

lemma returns_orFail [simp]: "returns (case m of None \<Rightarrow> fail e | Some x \<Rightarrow> ok x)"
  by (cases m) auto

lemma returns_if: "(b \<Longrightarrow> returns x) \<Longrightarrow> (\<not> b \<Longrightarrow> returns y) \<Longrightarrow> returns (if b then x else y)"
  by simp

lemmas returns_intros = returns_bind returns_if

section \<open>The standard library\<close>

record pemBlock =
  pb_Type :: string
  pb_Headers :: "(string, string) gomap"
  pb_Bytes :: string

record algorithmIdentifier =
  ai_Algorithm :: "nat list"
  ai_Parameters :: string

record encryptedPrivateKeyInfo =
  ei_Algorithm :: algorithmIdentifier
  ei_EncryptedData :: string

record pbes2Params =
  ps_KeyDerivationFunc :: algorithmIdentifier
  ps_EncryptionScheme :: algorithmIdentifier

record pbkdf2Params =
  kd_Salt :: string
  kd_IterationCount :: int
  kd_KeyLength :: int
  kd_PRF :: algorithmIdentifier

datatype prfAlg = HmacSHA1 | HmacSHA256

datatype 'k parsedKey = ECKey 'k | OtherKey

text \<open>
  \<open>'k\<close> and \<open>'p\<close> are private and public ECDSA keys. A codec returns \<open>None\<close> on an error; \<open>Unmarshal\<close> also
  returns the rest of its input.
\<close>

record ('k, 'p) cryptoLib =
  cl_md5 :: "string \<Rightarrow> string"
  cl_pbkdf2 :: "prfAlg \<Rightarrow> string \<Rightarrow> string \<Rightarrow> int \<Rightarrow> nat \<Rightarrow> string option"
  cl_cbcEncrypt :: "string \<Rightarrow> string \<Rightarrow> string \<Rightarrow> string"
  cl_cbcDecrypt :: "string \<Rightarrow> string \<Rightarrow> string \<Rightarrow> string"
  cl_pemDecode :: "string \<Rightarrow> pemBlock option"
  cl_pemEncode :: "pemBlock \<Rightarrow> string"
  cl_marshalInfo :: "encryptedPrivateKeyInfo \<Rightarrow> string option"
  cl_unmarshalInfo :: "string \<Rightarrow> (encryptedPrivateKeyInfo \<times> string) option"
  cl_marshalScheme :: "pbes2Params \<Rightarrow> string option"
  cl_unmarshalScheme :: "string \<Rightarrow> (pbes2Params \<times> string) option"
  cl_marshalKdf :: "pbkdf2Params \<Rightarrow> string option"
  cl_unmarshalKdf :: "string \<Rightarrow> (pbkdf2Params \<times> string) option"
  cl_marshalBytes :: "string \<Rightarrow> string option"
  cl_unmarshalBytes :: "string \<Rightarrow> (string \<times> string) option"
  cl_MarshalPKCS8 :: "'k \<Rightarrow> string option"
  cl_ParsePKCS8 :: "string \<Rightarrow> 'k parsedKey option"
  cl_MarshalEC :: "'k \<Rightarrow> string option"
  cl_ParseEC :: "string \<Rightarrow> 'k option"
  cl_MarshalPKIX :: "'p \<Rightarrow> string option"
  cl_ParsePKIX :: "string \<Rightarrow> 'p parsedKey option"
  cl_PublicKey :: "'k \<Rightarrow> 'p"

definition BlockSize :: nat where "BlockSize = 16"

text \<open>\<open>aes.NewCipher\<close> refuses other key lengths; the CBC modes panic on a wrong vector or a partial
  block.\<close>

definition NewCipher :: "string \<Rightarrow> string outcome" where
  "NewCipher key = (if length key \<in> {16, 24, 32} then ok key else fail CipherError)"

definition cbc :: "(string \<Rightarrow> string \<Rightarrow> string \<Rightarrow> string) \<Rightarrow> string \<Rightarrow> string \<Rightarrow> string \<Rightarrow> string outcome" where
  "cbc mode key iv src =
    (if length iv \<noteq> BlockSize \<or> length src mod BlockSize \<noteq> 0 then None else ok (mode key iv src))"

text \<open>\<open>hex.EncodeToString\<close> in upper case, and \<open>hex.DecodeString\<close>, which takes both cases.\<close>

definition hexDigit :: "nat \<Rightarrow> char" where
  "hexDigit n = ''0123456789ABCDEF'' ! n"

definition hexValue :: "char \<Rightarrow> nat option" where
  "hexValue c =
    (if between 48 57 c then Some (of_char c - 48)
     else if between 97 102 c then Some (of_char c - 87)
     else if between 65 70 c then Some (of_char c - 55)
     else None)"

fun hexEncodeUpper :: "string \<Rightarrow> string" where
  "hexEncodeUpper [] = []"
| "hexEncodeUpper (c # cs) = hexDigit (of_char c div 16) # hexDigit (of_char c mod 16) # hexEncodeUpper cs"

fun hexDecodeString :: "string \<Rightarrow> string option" where
  "hexDecodeString [] = Some []"
| "hexDecodeString [_] = None"
| "hexDecodeString (a # b # cs) =
    (case (hexValue a, hexValue b, hexDecodeString cs) of
       (Some h, Some l, Some rest) \<Rightarrow> Some (char_of (16 * h + l) # rest)
     | _ \<Rightarrow> None)"

section \<open>Legacy key derivation\<close>

text \<open>The loop of \<open>generateKeyFromPassword\<close>, with fuel.\<close>

fun extendKey :: "('k, 'p) cryptoLib \<Rightarrow> string \<Rightarrow> string \<Rightarrow> nat \<Rightarrow> nat \<Rightarrow> string \<Rightarrow> string option" where
  "extendKey lib password salt keyLen fuel result =
    (if length result < keyLen
     then (case fuel of
             0 \<Rightarrow> None
           | Suc n \<Rightarrow> extendKey lib password salt keyLen n (result @ cl_md5 lib (result @ password @ salt)))
     else Some result)"

declare extendKey.simps [simp del]

definition generateKeyFromPassword :: "('k, 'p) cryptoLib \<Rightarrow> string \<Rightarrow> string \<Rightarrow> nat \<Rightarrow> string outcome" where
  "generateKeyFromPassword lib password salt keyLen =
    map_option (\<lambda>result. Inr (take keyLen result))
      (extendKey lib password salt keyLen keyLen (cl_md5 lib (password @ salt)))"

section \<open>Padding\<close>

text \<open>The padding that both encryptions append.\<close>

definition padLenFor :: "string \<Rightarrow> nat" where
  "padLenFor d = BlockSize - length d mod BlockSize"

definition pad :: "string \<Rightarrow> string" where
  "pad d = d @ replicate (padLenFor d) (char_of (padLenFor d))"

text \<open>The removal shared, line for line, by \<open>DecryptPEM\<close> and \<open>DecryptPemBlock\<close>.\<close>

definition unpadLegacy :: "string \<Rightarrow> string outcome" where
  "unpadLegacy decrypted =
    (if decrypted = [] then fail EmptyData
     else
       (let paddingLen = of_char (last decrypted) in
        if paddingLen = 0 \<or> paddingLen > BlockSize \<or> paddingLen > length decrypted
        then fail (PaddingLength paddingLen)
        else
          (case find (\<lambda>i. decrypted ! (length decrypted - 1 - i) \<noteq> char_of paddingLen) [0..<paddingLen] of
             Some i \<Rightarrow> fail (PaddingByte i)
           | None \<Rightarrow> ok (take (length decrypted - paddingLen) decrypted))))"

section \<open>PKCS#8\<close>

definition PEMType :: string where "PEMType = ''ENCRYPTED PRIVATE KEY''"

definition Iterations :: int where "Iterations = 600000"

definition maxIterations :: int where "maxIterations = 10000000"

definition oidPBES2 :: "nat list" where "oidPBES2 = [1, 2, 840, 113549, 1, 5, 13]"

definition oidPBKDF2 :: "nat list" where "oidPBKDF2 = [1, 2, 840, 113549, 1, 5, 12]"

definition oidHMACSHA256 :: "nat list" where "oidHMACSHA256 = [1, 2, 840, 113549, 2, 9]"

definition oidAES256CBC :: "nat list" where "oidAES256CBC = [2, 16, 840, 1, 101, 3, 4, 1, 42]"

abbreviation orFail :: "'a option \<Rightarrow> cryptError \<Rightarrow> 'a outcome" where
  "orFail m e \<equiv> (case m of None \<Rightarrow> fail e | Some x \<Rightarrow> ok x)"

text \<open>The random salt and vector are arguments.\<close>

definition Encrypt ::
    "('k, 'p) cryptoLib \<Rightarrow> string \<Rightarrow> string \<Rightarrow> string option \<Rightarrow> string option \<Rightarrow> pemBlock outcome" where
  "Encrypt lib pkcs8DER password randSalt randIV =
    (if password = [] then fail EmptyPassword
     else
       bindO (orFail randSalt RandError) (\<lambda>salt.
       bindO (orFail randIV RandError) (\<lambda>iv.
       bindO (orFail (cl_pbkdf2 lib HmacSHA256 password salt Iterations 32) KdfError) (\<lambda>key.
       bindO (NewCipher key) (\<lambda>blockCipher.
       bindO (cbc (cl_cbcEncrypt lib) blockCipher iv (pad pkcs8DER)) (\<lambda>encrypted.
       bindO (orFail (cl_marshalKdf lib
         \<lparr>kd_Salt = salt, kd_IterationCount = Iterations, kd_KeyLength = 0,
          kd_PRF = \<lparr>ai_Algorithm = oidHMACSHA256, ai_Parameters = []\<rparr>\<rparr>) MarshalError) (\<lambda>kdfParams.
       bindO (orFail (cl_marshalBytes lib iv) MarshalError) (\<lambda>ivParam.
       bindO (orFail (cl_marshalScheme lib
         \<lparr>ps_KeyDerivationFunc = \<lparr>ai_Algorithm = oidPBKDF2, ai_Parameters = kdfParams\<rparr>,
          ps_EncryptionScheme = \<lparr>ai_Algorithm = oidAES256CBC, ai_Parameters = ivParam\<rparr>\<rparr>) MarshalError) (\<lambda>schemeParams.
       bindO (orFail (cl_marshalInfo lib
         \<lparr>ei_Algorithm = \<lparr>ai_Algorithm = oidPBES2, ai_Parameters = schemeParams\<rparr>,
          ei_EncryptedData = encrypted\<rparr>) MarshalError) (\<lambda>der.
       ok \<lparr>pb_Type = PEMType, pb_Headers = [], pb_Bytes = der\<rparr>))))))))))"

definition derivedKey :: "('k, 'p) cryptoLib \<Rightarrow> pbkdf2Params \<Rightarrow> string \<Rightarrow> string outcome" where
  "derivedKey lib kdf password =
    (if ai_Algorithm (kd_PRF kdf) = []
     then orFail (cl_pbkdf2 lib HmacSHA1 password (kd_Salt kdf) (kd_IterationCount kdf) 32) KdfError
     else if ai_Algorithm (kd_PRF kdf) = oidHMACSHA256
     then orFail (cl_pbkdf2 lib HmacSHA256 password (kd_Salt kdf) (kd_IterationCount kdf) 32) KdfError
     else fail (Unsupported PRF))"

definition unpadPKCS8 :: "string \<Rightarrow> string outcome" where
  "unpadPKCS8 decrypted =
    (if decrypted = [] then None
     else
       (let padLen = of_char (last decrypted) in
        if padLen = 0 \<or> padLen > BlockSize then fail DecryptionFailed
        else if padLen > length decrypted then None
        else if drop (length decrypted - padLen) decrypted \<noteq> replicate padLen (char_of padLen)
        then fail DecryptionFailed
        else ok (take (length decrypted - padLen) decrypted)))"

definition Decrypt :: "('k, 'p) cryptoLib \<Rightarrow> pemBlock \<Rightarrow> string \<Rightarrow> string outcome" where
  "Decrypt lib block password =
    (if pb_Type block \<noteq> PEMType then fail WrongPEMType
     else
       (case cl_unmarshalInfo lib (pb_Bytes block) of
          None \<Rightarrow> fail (Malformed Info)
        | Some (info, rest) \<Rightarrow>
            if rest \<noteq> [] then fail (Malformed Info)
            else if ai_Algorithm (ei_Algorithm info) \<noteq> oidPBES2 then fail (Unsupported Algorithm)
            else
              bindO (orFail (cl_unmarshalScheme lib (ai_Parameters (ei_Algorithm info))) (Malformed PBES2)) (\<lambda>(scheme, _).
              if ai_Algorithm (ps_KeyDerivationFunc scheme) \<noteq> oidPBKDF2 then fail (Unsupported Kdf)
              else
                bindO (orFail (cl_unmarshalKdf lib (ai_Parameters (ps_KeyDerivationFunc scheme))) (Malformed PBKDF2)) (\<lambda>(kdf, _).
                if kd_IterationCount kdf < 1 \<or> kd_IterationCount kdf > maxIterations then fail IterationsOutOfRange
                else if ai_Algorithm (ps_EncryptionScheme scheme) \<noteq> oidAES256CBC then fail (Unsupported Cipher)
                else
                  bindO (orFail (cl_unmarshalBytes lib (ai_Parameters (ps_EncryptionScheme scheme))) (Malformed IV)) (\<lambda>(iv, _).
                  if length iv \<noteq> BlockSize then fail (Malformed IV)
                  else if ei_EncryptedData info = [] \<or> length (ei_EncryptedData info) mod BlockSize \<noteq> 0
                  then fail NotWholeBlocks
                  else
                    bindO (derivedKey lib kdf password) (\<lambda>key.
                    bindO (NewCipher key) (\<lambda>blockCipher.
                    bindO (cbc (cl_cbcDecrypt lib) blockCipher iv (ei_EncryptedData info)) unpadPKCS8)))))))"

section \<open>ECDSA keys in PEM\<close>

text \<open>\<open>strings.Contains\<close> for the one needle used.\<close>

definition isEncryptedPEMBlock :: "pemBlock \<Rightarrow> bool" where
  "isEncryptedPEMBlock b =
    (case mget (pb_Headers b) ''Proc-Type'' of None \<Rightarrow> False | Some procType \<Rightarrow> sublist ''ENCRYPTED'' procType)"

definition EncryptPemBlock ::
    "('k, 'p) cryptoLib \<Rightarrow> pemBlock \<Rightarrow> string \<Rightarrow> string option \<Rightarrow> pemBlock outcome" where
  "EncryptPemBlock lib block password randIV =
    (if password = [] then ok block
     else
       bindO (orFail randIV RandError) (\<lambda>iv.
       bindO (if length iv < 8 then None else generateKeyFromPassword lib password (take 8 iv) 32) (\<lambda>key.
       bindO (NewCipher key) (\<lambda>blockCipher.
       bindO (cbc (cl_cbcEncrypt lib) blockCipher iv (pad (pb_Bytes block))) (\<lambda>encrypted.
       ok (block\<lparr>
         pb_Headers := mput ''DEK-Info'' (''AES-256-CBC,'' @ hexEncodeUpper iv)
                         (mput ''Proc-Type'' ''4,ENCRYPTED'' (pb_Headers block)),
         pb_Bytes := encrypted\<rparr>))))))"

text \<open>\<open>strings.SplitN(s, ",", 2)\<close>.\<close>

definition splitComma2 :: "string \<Rightarrow> string list" where
  "splitComma2 s =
    (case dropWhile (\<lambda>c. c \<noteq> CHR '','') s of [] \<Rightarrow> [s] | _ # rest \<Rightarrow> [takeWhile (\<lambda>c. c \<noteq> CHR '','') s, rest])"

text \<open>The common middle of the two legacy decryptions: from the vector's text to the plain bytes.\<close>

definition decryptLegacy :: "('k, 'p) cryptoLib \<Rightarrow> string \<Rightarrow> string \<Rightarrow> string \<Rightarrow> string outcome" where
  "decryptLegacy lib ivText password bytes =
    bindO (orFail (hexDecodeString ivText) InvalidIV) (\<lambda>iv.
    if length iv \<noteq> BlockSize then fail (InvalidIVLength (length iv))
    else if bytes = [] \<or> length bytes mod BlockSize \<noteq> 0 then fail NotWholeBlocks
    else
      bindO (if length iv < 8 then None else generateKeyFromPassword lib password (take 8 iv) 32) (\<lambda>key.
      bindO (NewCipher key) (\<lambda>blockCipher.
      bindO (cbc (cl_cbcDecrypt lib) blockCipher iv bytes) unpadLegacy)))"

definition DecryptPemBlock :: "('k, 'p) cryptoLib \<Rightarrow> pemBlock \<Rightarrow> string \<Rightarrow> pemBlock outcome" where
  "DecryptPemBlock lib block password =
    (if isEncryptedPEMBlock block
     then
       (case mget (pb_Headers block) ''DEK-Info'' of
          None \<Rightarrow> fail MissingDEK
        | Some dekInfo \<Rightarrow>
            (case splitComma2 dekInfo of
               [cipherName, ivText] \<Rightarrow>
                 if cipherName \<noteq> ''AES-256-CBC'' then fail (Unsupported Cipher)
                 else
                   bindO (decryptLegacy lib ivText password (pb_Bytes block)) (\<lambda>decrypted.
                   ok (block\<lparr>
                     pb_Headers := mdel ''DEK-Info'' (mdel ''Proc-Type'' (pb_Headers block)),
                     pb_Bytes := decrypted\<rparr>))
             | _ \<Rightarrow> fail (Malformed DEK)))
     else ok block)"

definition parsePrivateBlock :: "('k, 'p) cryptoLib \<Rightarrow> pemBlock \<Rightarrow> string \<Rightarrow> 'k outcome" where
  "parsePrivateBlock lib block password =
    (if pb_Type block = PEMType
     then
       bindO (Decrypt lib block password) (\<lambda>der.
       case cl_ParsePKCS8 lib der of
         None \<Rightarrow> fail ParseKeyError
       | Some OtherKey \<Rightarrow> fail NotECDSA
       | Some (ECKey key) \<Rightarrow> ok key)
     else
       bindO (if password \<noteq> [] then DecryptPemBlock lib block password else ok block) (\<lambda>block'.
       orFail (cl_ParseEC lib (pb_Bytes block')) ParseKeyError))"

definition DecodePrivatePem :: "('k, 'p) cryptoLib \<Rightarrow> string \<Rightarrow> string \<Rightarrow> ('k \<times> 'p) outcome" where
  "DecodePrivatePem lib password pemEncoded =
    bindO (orFail (cl_pemDecode lib pemEncoded) NoPEMBlock) (\<lambda>block.
    bindO (parsePrivateBlock lib block password) (\<lambda>privateKey.
    ok (privateKey, cl_PublicKey lib privateKey)))"

definition decodeKeys :: "('k, 'p) cryptoLib \<Rightarrow> string \<Rightarrow> string \<Rightarrow> string \<Rightarrow> ('k \<times> 'p) outcome" where
  "decodeKeys lib password pemEncoded pemEncodedPub =
    bindO (orFail (cl_pemDecode lib pemEncoded) NoPEMBlock) (\<lambda>block.
    bindO (parsePrivateBlock lib block password) (\<lambda>privateKey.
    bindO (orFail (cl_pemDecode lib pemEncodedPub) NoPEMBlock) (\<lambda>blockPub.
    case cl_ParsePKIX lib (pb_Bytes blockPub) of
      None \<Rightarrow> fail ParseKeyError
    | Some OtherKey \<Rightarrow> fail NotECDSA
    | Some (ECKey publicKey) \<Rightarrow> ok (privateKey, publicKey))))"

definition Encode ::
    "('k, 'p) cryptoLib \<Rightarrow> string \<Rightarrow> 'k \<Rightarrow> 'p \<Rightarrow> string option \<Rightarrow> string option \<Rightarrow> (string \<times> string) outcome" where
  "Encode lib password privateKey publicKey randSalt randIV =
    bindO
      (if password \<noteq> []
       then
         bindO (orFail (cl_MarshalPKCS8 lib privateKey) MarshalError) (\<lambda>pkcs8DER.
         Encrypt lib pkcs8DER password randSalt randIV)
       else
         bindO (orFail (cl_MarshalEC lib privateKey) MarshalError) (\<lambda>x509Encoded.
         ok \<lparr>pb_Type = ''EC PRIVATE KEY'', pb_Headers = [], pb_Bytes = x509Encoded\<rparr>)) (\<lambda>block.
    bindO (orFail (cl_MarshalPKIX lib publicKey) MarshalError) (\<lambda>x509EncodedPub.
    ok (cl_pemEncode lib block,
        cl_pemEncode lib \<lparr>pb_Type = ''EC  PUBLIC KEY'', pb_Headers = [], pb_Bytes = x509EncodedPub\<rparr>)))"

text \<open>\<open>generated\<close> is the result of \<open>ecdsa.GenerateKey\<close>.\<close>

definition GenerateECDSAPublicPrivateKeySet ::
    "('k, 'p) cryptoLib \<Rightarrow> 'k option \<Rightarrow> string \<Rightarrow> string option \<Rightarrow> string option \<Rightarrow>
     ('k \<times> string \<times> string) outcome" where
  "GenerateECDSAPublicPrivateKeySet lib generated password randSalt randIV =
    bindO (orFail generated RandError) (\<lambda>privateKey.
    bindO (Encode lib password privateKey (cl_PublicKey lib privateKey) randSalt randIV) (\<lambda>(priv, pub).
    ok (privateKey, priv, pub)))"

section \<open>Signing keys\<close>

definition DecryptPEM :: "('k, 'p) cryptoLib \<Rightarrow> string \<Rightarrow> string \<Rightarrow> string outcome" where
  "DecryptPEM lib encryptedPEM password =
    bindO (orFail (cl_pemDecode lib encryptedPEM) NoPEMBlock) (\<lambda>block.
    if pb_Type block = PEMType
    then
      bindO (Decrypt lib block password) (\<lambda>der.
      ok (cl_pemEncode lib \<lparr>pb_Type = ''PRIVATE KEY'', pb_Headers = [], pb_Bytes = der\<rparr>))
    else if mget (pb_Headers block) ''Proc-Type'' \<noteq> Some ''4,ENCRYPTED'' then ok encryptedPEM
    else
      (case split_on (CHR '','') (case mget (pb_Headers block) ''DEK-Info'' of None \<Rightarrow> [] | Some v \<Rightarrow> v) of
         [cipherType, ivText] \<Rightarrow>
           if cipherType \<noteq> ''AES-256-CBC'' then fail (Unsupported Cipher)
           else
             bindO (decryptLegacy lib ivText password (pb_Bytes block)) (\<lambda>decrypted.
             ok (cl_pemEncode lib \<lparr>pb_Type = pb_Type block, pb_Headers = [], pb_Bytes = decrypted\<rparr>))
       | _ \<Rightarrow> fail (Malformed DEK)))"

section \<open>What the code relies on\<close>

text \<open>
  MD5 gives 16 bytes; PBKDF2 gives the requested number; CBC keeps the length and decryption inverts
  encryption; the codecs invert each other (of a \<open>pbkdf2Params\<close> the fields the code reads); so do the PEM
  encoding and decoding of a block with a plain type and plain headers, which come back as a map.
\<close>

definition plainBlock :: "pemBlock \<Rightarrow> bool" where
  "plainBlock b \<longleftrightarrow>
    CHR ''-'' \<notin> set (pb_Type b) \<and> CHR 0x0A \<notin> set (pb_Type b) \<and>
    (\<forall>(k, v) \<in> set (pb_Headers b). CHR '':'' \<notin> set k \<and>
       (\<forall>c \<in> set k \<union> set v. c \<notin> {CHR '' '', CHR 0x09, CHR 0x0A, CHR 0x0D}))"

definition primitivesLaw :: "('k, 'p) cryptoLib \<Rightarrow> bool" where
  "primitivesLaw lib \<longleftrightarrow>
    (\<forall>x. length (cl_md5 lib x) = 16) \<and>
    (\<forall>f pw salt n l key. cl_pbkdf2 lib f pw salt n l = Some key \<longrightarrow> length key = l) \<and>
    (\<forall>key iv src. length (cl_cbcDecrypt lib key iv src) = length src \<and>
                  length (cl_cbcEncrypt lib key iv src) = length src) \<and>
    (\<forall>key iv src. length src mod 16 = 0 \<longrightarrow> cl_cbcDecrypt lib key iv (cl_cbcEncrypt lib key iv src) = src)"

definition codecLaw :: "('k, 'p) cryptoLib \<Rightarrow> bool" where
  "codecLaw lib \<longleftrightarrow>
    (\<forall>i b. cl_marshalInfo lib i = Some b \<longrightarrow> cl_unmarshalInfo lib b = Some (i, [])) \<and>
    (\<forall>s b. cl_marshalScheme lib s = Some b \<longrightarrow> cl_unmarshalScheme lib b = Some (s, [])) \<and>
    (\<forall>k b. cl_marshalKdf lib k = Some b \<longrightarrow>
       (\<exists>k'. cl_unmarshalKdf lib b = Some (k', []) \<and> kd_Salt k' = kd_Salt k \<and>
             kd_IterationCount k' = kd_IterationCount k \<and> ai_Algorithm (kd_PRF k') = ai_Algorithm (kd_PRF k))) \<and>
    (\<forall>v b. cl_marshalBytes lib v = Some b \<longrightarrow> cl_unmarshalBytes lib b = Some (v, []))"

definition keyLaw :: "('k, 'p) cryptoLib \<Rightarrow> bool" where
  "keyLaw lib \<longleftrightarrow>
    (\<forall>k b. cl_MarshalPKCS8 lib k = Some b \<longrightarrow> cl_ParsePKCS8 lib b = Some (ECKey k)) \<and>
    (\<forall>k b. cl_MarshalEC lib k = Some b \<longrightarrow> cl_ParseEC lib b = Some k) \<and>
    (\<forall>p b. cl_MarshalPKIX lib p = Some b \<longrightarrow> cl_ParsePKIX lib b = Some (ECKey p)) \<and>
    (\<forall>b. plainBlock b \<longrightarrow>
       (\<exists>h. cl_pemDecode lib (cl_pemEncode lib b) = Some (b\<lparr>pb_Headers := h\<rparr>) \<and> mget h = mget (pb_Headers b)))"

section \<open>Primitives\<close>

lemma hexValue_digit: "n < 16 \<Longrightarrow> hexValue (hexDigit n) = Some n"
proof -
  have "list_all (\<lambda>n. hexValue (hexDigit n) = Some n) [0..<16]" by code_simp
  moreover assume "n < 16"
  ultimately show ?thesis by (simp add: list_all_iff)
qed

lemma hex_roundtrip: "hexDecodeString (hexEncodeUpper s) = Some s"
proof (induction s)
  case (Cons c s)
  have "of_char c < (256 :: nat)" by (rule nat_of_char_less_256)
  then have "(of_char c :: nat) div 16 < 16" "(of_char c :: nat) mod 16 < 16"
    by (simp_all add: less_mult_imp_div_less)
  then show ?case using Cons by (simp add: hexValue_digit)
qed simp

lemma padLenFor_bounds: "0 < padLenFor d" "padLenFor d \<le> 16"
  by (simp_all add: padLenFor_def BlockSize_def)

lemma padLenFor_char: "of_char (char_of (padLenFor d) :: char) = padLenFor d"
  using padLenFor_bounds [of d] by simp

lemma pad_whole: "length (pad d) mod BlockSize = 0" "pad d \<noteq> []"
proof -
  define q m where "q = length d div 16" and "m = length d mod 16"
  have "length d = q * 16 + m" "m < 16" by (simp_all add: q_def m_def)
  then have "length d + (16 - m) = 16 * (q + 1)" by simp
  then have "length d + (16 - length d mod 16) = 16 * (q + 1)" unfolding m_def .
  then show "length (pad d) mod BlockSize = 0" by (simp add: pad_def padLenFor_def BlockSize_def)
  show "pad d \<noteq> []" using padLenFor_bounds(1) [of d] by (simp add: pad_def)
qed

lemma last_pad: "last (pad d) = char_of (padLenFor d)"
  using padLenFor_bounds [of d] by (simp add: pad_def last_append last_replicate)

lemma unpadLegacy_pad: "unpadLegacy (pad d) = ok d"
proof -
  have "find (\<lambda>i. pad d ! (length (pad d) - 1 - i) \<noteq> char_of (padLenFor d)) [0..<padLenFor d] = None"
    by (auto simp: find_None_iff pad_def nth_append)
  then show ?thesis
    using padLenFor_bounds [of d] pad_whole(2) [of d]
    by (simp add: unpadLegacy_def last_pad padLenFor_char BlockSize_def Let_def) (simp add: pad_def)
qed

lemma unpadPKCS8_pad: "unpadPKCS8 (pad d) = ok d"
  using padLenFor_bounds [of d] pad_whole(2) [of d]
  by (simp add: unpadPKCS8_def last_pad padLenFor_char BlockSize_def Let_def) (simp add: pad_def)

text \<open>The legacy loop ends within its fuel and gives the requested number of bytes.\<close>

lemma extendKey_returns:
  assumes "primitivesLaw lib"
  shows "keyLen \<le> fuel + length result \<Longrightarrow>
    \<exists>out. extendKey lib password salt keyLen fuel result = Some out \<and> keyLen \<le> length out"
proof (induction fuel arbitrary: result)
  case (Suc n)
  have "length (cl_md5 lib x) = 16" for x using assms by (simp add: primitivesLaw_def)
  then have "keyLen \<le> n + length (result @ cl_md5 lib (result @ password @ salt))" using Suc.prems by simp
  from Suc.IH [OF this] show ?case by (subst extendKey.simps) auto
qed (subst extendKey.simps, auto)

lemma generateKey_length:
  assumes "primitivesLaw lib"
  shows "\<exists>key. generateKeyFromPassword lib password salt keyLen = ok key \<and> length key = keyLen"
  using extendKey_returns [OF assms, of keyLen keyLen "cl_md5 lib (password @ salt)" password salt]
  by (auto simp: generateKeyFromPassword_def)

text \<open>OpenSSL's \<open>EVP_BytesToKey\<close> with one MD5 pass: each block is the digest of the previous block, the
  password and the salt.\<close>

fun evpBlock :: "('k, 'p) cryptoLib \<Rightarrow> string \<Rightarrow> string \<Rightarrow> nat \<Rightarrow> string" where
  "evpBlock lib password salt 0 = cl_md5 lib (password @ salt)"
| "evpBlock lib password salt (Suc n) = cl_md5 lib (evpBlock lib password salt n @ password @ salt)"

definition EVP_BytesToKey :: "('k, 'p) cryptoLib \<Rightarrow> string \<Rightarrow> string \<Rightarrow> nat \<Rightarrow> string" where
  "EVP_BytesToKey lib password salt keyLen =
    take keyLen (concat (map (evpBlock lib password salt) [0..<keyLen]))"

lemma evp_blocks:
  "2 \<le> n \<Longrightarrow> \<exists>rest. concat (map (evpBlock lib password salt) [0..<n]) =
     evpBlock lib password salt 0 @ evpBlock lib password salt 1 @ rest"
proof -
  assume n: "2 \<le> n"
  then have "[0..<n] = 0 # 1 # [Suc 1..<n]" by (simp add: upt_conv_Cons)
  then show ?thesis by simp
qed

lemma generateKey_evp:
  assumes law: "primitivesLaw lib" and n: "keyLen \<le> 32"
  shows "generateKeyFromPassword lib password salt keyLen = ok (EVP_BytesToKey lib password salt keyLen)"
proof -
  have len [simp]: "length (cl_md5 lib x) = 16" for x using law by (simp add: primitivesLaw_def)
  define d where "d = cl_md5 lib (password @ salt)"
  show ?thesis
  proof (cases "keyLen \<le> 16")
    case True
    then have "extendKey lib password salt keyLen keyLen d = Some d"
      by (subst extendKey.simps) (simp add: d_def)
    moreover have "take keyLen (concat (map (evpBlock lib password salt) [0..<keyLen])) = take keyLen d"
      using True by (cases keyLen) (simp_all add: d_def upt_conv_Cons del: upt_Suc)
    ultimately show ?thesis by (simp add: generateKeyFromPassword_def EVP_BytesToKey_def d_def)
  next
    case False
    then have "extendKey lib password salt keyLen keyLen d = Some (d @ cl_md5 lib (d @ password @ salt))"
      using n by (subst extendKey.simps, simp add: d_def split: nat.split, subst extendKey.simps, simp)
    moreover obtain rest where
      "concat (map (evpBlock lib password salt) [0..<keyLen]) = d @ cl_md5 lib (d @ password @ salt) @ rest"
      using evp_blocks [of keyLen lib password salt] False by (auto simp: d_def)
    ultimately show ?thesis using n False by (simp add: generateKeyFromPassword_def EVP_BytesToKey_def d_def)
  qed
qed

section \<open>Round trips\<close>

lemma cbc_roundtrip:
  assumes "primitivesLaw lib" "length iv = BlockSize"
  shows "cbc (cl_cbcEncrypt lib) key iv (pad d) = ok (cl_cbcEncrypt lib key iv (pad d))"
    and "cbc (cl_cbcDecrypt lib) key iv (cl_cbcEncrypt lib key iv (pad d)) = ok (pad d)"
    and "cl_cbcEncrypt lib key iv (pad d) \<noteq> []"
    and "length (cl_cbcEncrypt lib key iv (pad d)) mod BlockSize = 0"
proof -
  have len: "length (cl_cbcEncrypt lib key iv (pad d)) = length (pad d)" using assms(1) by (simp add: primitivesLaw_def)
  have inv: "cl_cbcDecrypt lib key iv (cl_cbcEncrypt lib key iv (pad d)) = pad d"
    using assms(1) pad_whole(1) [of d] by (simp add: primitivesLaw_def BlockSize_def)
  show "cbc (cl_cbcEncrypt lib) key iv (pad d) = ok (cl_cbcEncrypt lib key iv (pad d))"
    and "cbc (cl_cbcDecrypt lib) key iv (cl_cbcEncrypt lib key iv (pad d)) = ok (pad d)"
    and "length (cl_cbcEncrypt lib key iv (pad d)) mod BlockSize = 0"
    using assms(2) pad_whole(1) [of d] by (simp_all add: cbc_def len inv)
  show "cl_cbcEncrypt lib key iv (pad d) \<noteq> []" using len pad_whole(2) [of d] by fastforce
qed

lemma NewCipher_32 [simp]: "length key = 32 \<Longrightarrow> NewCipher key = ok key"
  by (simp add: NewCipher_def)

lemma codecLaw_kdf:
  assumes "codecLaw lib" "cl_marshalKdf lib k = Some b"
  obtains k' where "cl_unmarshalKdf lib b = Some (k', [])" "kd_Salt k' = kd_Salt k"
    "kd_IterationCount k' = kd_IterationCount k" "ai_Algorithm (kd_PRF k') = ai_Algorithm (kd_PRF k)"
  using assms unfolding codecLaw_def by blast

lemma Decrypt_Encrypt:
  assumes prims: "primitivesLaw lib" and codec: "codecLaw lib" and iv: "length iv = BlockSize"
    and enc: "Encrypt lib der password (Some salt) (Some iv) = ok block"
  shows "Decrypt lib block password = ok der" "pb_Type block = PEMType" "pb_Headers block = []"
proof -
  note cbc = cbc_roundtrip [OF prims iv]
  obtain key where key: "cl_pbkdf2 lib HmacSHA256 password salt Iterations 32 = Some key"
    using enc by (auto simp: Encrypt_def bindO_ok orFail_ok split: if_splits)
  then have len: "length key = 32" using prims by (simp add: primitivesLaw_def)
  define encrypted where "encrypted = cl_cbcEncrypt lib key iv (pad der)"
  define kdf where "kdf = \<lparr>kd_Salt = salt, kd_IterationCount = Iterations, kd_KeyLength = 0,
     kd_PRF = \<lparr>ai_Algorithm = oidHMACSHA256, ai_Parameters = []\<rparr>\<rparr>"
  have ne: "password \<noteq> []" using enc by (auto simp: Encrypt_def)
  have steps: "\<exists>kdfParams ivParam schemeParams b.
      cl_marshalKdf lib kdf = Some kdfParams \<and> cl_marshalBytes lib iv = Some ivParam \<and>
      cl_marshalScheme lib
        \<lparr>ps_KeyDerivationFunc = \<lparr>ai_Algorithm = oidPBKDF2, ai_Parameters = kdfParams\<rparr>,
         ps_EncryptionScheme = \<lparr>ai_Algorithm = oidAES256CBC, ai_Parameters = ivParam\<rparr>\<rparr> = Some schemeParams \<and>
      cl_marshalInfo lib
        \<lparr>ei_Algorithm = \<lparr>ai_Algorithm = oidPBES2, ai_Parameters = schemeParams\<rparr>,
         ei_EncryptedData = encrypted\<rparr> = Some b \<and>
      \<lparr>pb_Type = PEMType, pb_Headers = [], pb_Bytes = b\<rparr> = block"
    using enc unfolding kdf_def encrypted_def Encrypt_def by (simp add: ne bindO_ok orFail_ok key len cbc(1))
  then obtain kdfParams ivParam schemeParams b where
    m: "cl_marshalKdf lib kdf = Some kdfParams" "cl_marshalBytes lib iv = Some ivParam"
      "cl_marshalScheme lib
        \<lparr>ps_KeyDerivationFunc = \<lparr>ai_Algorithm = oidPBKDF2, ai_Parameters = kdfParams\<rparr>,
         ps_EncryptionScheme = \<lparr>ai_Algorithm = oidAES256CBC, ai_Parameters = ivParam\<rparr>\<rparr> = Some schemeParams"
      "cl_marshalInfo lib
        \<lparr>ei_Algorithm = \<lparr>ai_Algorithm = oidPBES2, ai_Parameters = schemeParams\<rparr>,
         ei_EncryptedData = encrypted\<rparr> = Some b"
    and block: "\<lparr>pb_Type = PEMType, pb_Headers = [], pb_Bytes = b\<rparr> = block"
    by (elim exE conjE)
  obtain kdf' where k: "cl_unmarshalKdf lib kdfParams = Some (kdf', [])" "kd_Salt kdf' = salt"
    "kd_IterationCount kdf' = Iterations" "ai_Algorithm (kd_PRF kdf') = oidHMACSHA256"
    using codecLaw_kdf [OF codec m(1)] by (auto simp: kdf_def)
  have u: "cl_unmarshalInfo lib b =
      Some (\<lparr>ei_Algorithm = \<lparr>ai_Algorithm = oidPBES2, ai_Parameters = schemeParams\<rparr>,
             ei_EncryptedData = encrypted\<rparr>, [])"
    "cl_unmarshalScheme lib schemeParams =
      Some (\<lparr>ps_KeyDerivationFunc = \<lparr>ai_Algorithm = oidPBKDF2, ai_Parameters = kdfParams\<rparr>,
             ps_EncryptionScheme = \<lparr>ai_Algorithm = oidAES256CBC, ai_Parameters = ivParam\<rparr>\<rparr>, [])"
    "cl_unmarshalBytes lib ivParam = Some (iv, [])"
    using codec m(2-4) by (simp_all add: codecLaw_def)
  have derived: "derivedKey lib kdf' password = ok key"
    using k key by (simp add: derivedKey_def oidHMACSHA256_def)
  show "Decrypt lib block password = ok der"
    using cbc(2-4) [of key der] iv
    by (simp add: Decrypt_def block [symmetric] u k derived len encrypted_def unpadPKCS8_pad Iterations_def maxIterations_def)
  show "pb_Type block = PEMType" "pb_Headers block = []" by (simp_all add: block [symmetric])
qed

lemma decryptLegacy_pad:
  assumes prims: "primitivesLaw lib" and iv: "length iv = BlockSize"
    and key: "generateKeyFromPassword lib password (take 8 iv) 32 = ok key"
  shows "decryptLegacy lib (hexEncodeUpper iv) password (cl_cbcEncrypt lib key iv (pad d)) = ok d"
proof -
  have "length key = 32" using generateKey_length [OF prims, of password "take 8 iv" 32] key by simp
  moreover have "length iv = 16" using iv by (simp add: BlockSize_def)
  ultimately show ?thesis
    using cbc_roundtrip(2-4) [OF prims iv, of key d] key
    by (simp add: decryptLegacy_def hex_roundtrip unpadLegacy_pad BlockSize_def)
qed

lemma EncryptPemBlock_ok:
  assumes prims: "primitivesLaw lib" and iv: "length iv = BlockSize" and pw: "password \<noteq> []"
    and enc: "EncryptPemBlock lib block password (Some iv) = ok block'"
  obtains key where "generateKeyFromPassword lib password (take 8 iv) 32 = ok key"
    "block' = block\<lparr>
       pb_Headers := mput ''DEK-Info'' (''AES-256-CBC,'' @ hexEncodeUpper iv)
                       (mput ''Proc-Type'' ''4,ENCRYPTED'' (pb_Headers block)),
       pb_Bytes := cl_cbcEncrypt lib key iv (pad (pb_Bytes block))\<rparr>"
proof -
  obtain key where key: "generateKeyFromPassword lib password (take 8 iv) 32 = ok key" "length key = 32"
    using generateKey_length [OF prims] by blast
  have "length iv = 16" using iv by (simp add: BlockSize_def)
  then show thesis
    using enc pw key cbc_roundtrip(1) [OF prims iv, of key "pb_Bytes block"] that
    by (simp add: EncryptPemBlock_def)
qed

lemma keyLaw_pem:
  assumes "keyLaw lib" "plainBlock b"
  obtains h where "cl_pemDecode lib (cl_pemEncode lib b) = Some (b\<lparr>pb_Headers := h\<rparr>)" "mget h = mget (pb_Headers b)"
  using assms unfolding keyLaw_def by blast

lemma keyLaw_parse:
  assumes "keyLaw lib"
  shows "cl_MarshalPKCS8 lib k = Some b \<Longrightarrow> cl_ParsePKCS8 lib b = Some (ECKey k)"
    and "cl_MarshalEC lib k = Some b \<Longrightarrow> cl_ParseEC lib b = Some k"
    and "cl_MarshalPKIX lib p = Some b \<Longrightarrow> cl_ParsePKIX lib b = Some (ECKey p)"
  using assms unfolding keyLaw_def by blast+

text \<open>The block that \<open>Encode\<close> writes is read back by \<open>parsePrivateBlock\<close>, whatever its headers' order.\<close>

lemma encoded_block:
  assumes law: "primitivesLaw lib" "codecLaw lib" "keyLaw lib" and iv: "length iv = BlockSize"
    and enc: "Encode lib password k p (Some salt) (Some iv) = ok (priv, pub)"
  obtains block x where "priv = cl_pemEncode lib block" "plainBlock block" "pb_Headers block = []"
    "cl_MarshalPKIX lib p = Some x"
    "pub = cl_pemEncode lib \<lparr>pb_Type = ''EC  PUBLIC KEY'', pb_Headers = [], pb_Bytes = x\<rparr>"
    "parsePrivateBlock lib block password = ok k"
    "password \<noteq> [] \<longrightarrow> pb_Type block = PEMType \<and>
       (\<exists>der. cl_MarshalPKCS8 lib k = Some der \<and> Decrypt lib block password = ok der)"
proof -
  define start where "start =
      (if password \<noteq> []
       then bindO (orFail (cl_MarshalPKCS8 lib k) MarshalError) (\<lambda>der. Encrypt lib der password (Some salt) (Some iv))
       else bindO (orFail (cl_MarshalEC lib k) MarshalError) (\<lambda>x.
         ok \<lparr>pb_Type = ''EC PRIVATE KEY'', pb_Headers = [], pb_Bytes = x\<rparr>))"
  obtain block x where block: "start = ok block" and x: "cl_MarshalPKIX lib p = Some x"
    and out: "priv = cl_pemEncode lib block"
      "pub = cl_pemEncode lib \<lparr>pb_Type = ''EC  PUBLIC KEY'', pb_Headers = [], pb_Bytes = x\<rparr>"
    using enc unfolding Encode_def start_def [symmetric] bindO_ok orFail_ok by auto
  show thesis
  proof (cases "password = []")
    case True
    then obtain e where e: "cl_MarshalEC lib k = Some e"
      "block = \<lparr>pb_Type = ''EC PRIVATE KEY'', pb_Headers = [], pb_Bytes = e\<rparr>"
      using block unfolding start_def by (auto simp: bindO_ok orFail_ok)
    show thesis
      by (rule that [OF out(1) _ _ x out(2)])
        (use e True keyLaw_parse(2) [OF law(3) e(1)] in
          \<open>simp_all add: parsePrivateBlock_def PEMType_def plainBlock_def\<close>)
  next
    case False
    then obtain der where der: "cl_MarshalPKCS8 lib k = Some der"
      and e: "Encrypt lib der password (Some salt) (Some iv) = ok block"
      using block unfolding start_def by (auto simp: bindO_ok orFail_ok)
    note read = Decrypt_Encrypt [OF law(1,2) iv e]
    show thesis
      by (rule that [OF out(1) _ _ x out(2)])
        (use read der keyLaw_parse(1) [OF law(3) der] in
          \<open>simp_all add: parsePrivateBlock_def plainBlock_def PEMType_def\<close>)
  qed
qed

text \<open>A block decoded with an empty header map has no headers.\<close>

lemma mget_empty: "mget h = mget [] \<Longrightarrow> h = []"
  by (cases h) (auto simp: fun_eq_iff split: if_splits)

lemma pem_back:
  assumes "keyLaw lib" "plainBlock b" "pb_Headers b = []"
  shows "cl_pemDecode lib (cl_pemEncode lib b) = Some b"
proof -
  obtain h where "cl_pemDecode lib (cl_pemEncode lib b) = Some (b\<lparr>pb_Headers := h\<rparr>)" "mget h = mget (pb_Headers b)"
    by (rule keyLaw_pem [OF assms(1,2)])
  then show ?thesis using mget_empty [of h] assms(3) by (cases b) simp
qed

section \<open>No panic\<close>

lemma whole_blocks: "bytes \<noteq> [] \<Longrightarrow> length bytes mod BlockSize = 0 \<Longrightarrow> 16 \<le> length bytes"
proof -
  assume "bytes \<noteq> []" "length bytes mod BlockSize = 0"
  then have "0 < length bytes" "16 dvd length bytes" by (auto simp: BlockSize_def)
  then show ?thesis by (meson dvd_imp_le)
qed

lemma cbcDecrypt_returns:
  assumes "primitivesLaw lib" "length iv = BlockSize" "bytes \<noteq> []" "length bytes mod BlockSize = 0"
  obtains out where "cbc (cl_cbcDecrypt lib) key iv bytes = ok out" "16 \<le> length out"
  using assms whole_blocks [OF assms(3,4)] that by (simp add: cbc_def primitivesLaw_def)

lemma unpad_returns: "returns (unpadLegacy out)" "16 \<le> length out \<Longrightarrow> returns (unpadPKCS8 out)"
  by (auto simp: unpadLegacy_def unpadPKCS8_def Let_def BlockSize_def split: option.splits)

lemma cipher_returns [simp]: "returns (NewCipher key)" "returns (derivedKey lib kdf password)"
  by (auto simp: NewCipher_def derivedKey_def)

lemma cbc_unpad_returns:
  assumes "primitivesLaw lib" "length iv = BlockSize" "\<not> (bytes = [] \<or> length bytes mod BlockSize \<noteq> 0)"
  shows "returns (bindO (cbc (cl_cbcDecrypt lib) key iv bytes) unpadPKCS8)"
    and "returns (bindO (cbc (cl_cbcDecrypt lib) key iv bytes) unpadLegacy)"
proof -
  obtain out where "cbc (cl_cbcDecrypt lib) key iv bytes = ok out" "16 \<le> length out"
    by (rule cbcDecrypt_returns [OF assms(1,2), of bytes key]) (use assms(3) in auto)
  then show "returns (bindO (cbc (cl_cbcDecrypt lib) key iv bytes) unpadPKCS8)"
    and "returns (bindO (cbc (cl_cbcDecrypt lib) key iv bytes) unpadLegacy)"
    using unpad_returns by simp_all
qed

lemma Decrypt_returns:
  assumes law: "primitivesLaw lib"
  shows "returns (Decrypt lib block password)"
  unfolding Decrypt_def
  by (cases "cl_unmarshalInfo lib (pb_Bytes block)")
    (auto intro!: returns_intros cbc_unpad_returns(1) [OF law] simp: case_prod_beta split del: if_split)

lemma decryptLegacy_returns:
  assumes law: "primitivesLaw lib"
  shows "returns (decryptLegacy lib ivText password bytes)"
proof -
  have gen: "returns (generateKeyFromPassword lib password salt 32)" for salt
    using generateKey_length [OF law, of password salt 32] by auto
  show ?thesis
    unfolding decryptLegacy_def
    by (intro returns_intros cbc_unpad_returns(2) [OF law] gen) (simp_all add: BlockSize_def)
qed

lemma DecryptPemBlock_returns:
  assumes "primitivesLaw lib"
  shows "returns (DecryptPemBlock lib block password)"
  unfolding DecryptPemBlock_def
  by (auto intro!: returns_bind decryptLegacy_returns [OF assms] split: option.split list.split)

lemma DecryptPEM_returns:
  assumes "primitivesLaw lib"
  shows "returns (DecryptPEM lib text password)"
  unfolding DecryptPEM_def
  by (intro returns_intros Decrypt_returns [OF assms])
    (auto intro!: returns_bind decryptLegacy_returns [OF assms] split: option.split list.split)

lemma parsePrivateBlock_returns:
  assumes "primitivesLaw lib"
  shows "returns (parsePrivateBlock lib block password)"
  unfolding parsePrivateBlock_def
  by (intro returns_intros Decrypt_returns [OF assms] DecryptPemBlock_returns [OF assms])
    (auto split: option.split parsedKey.split)

section \<open>Sample\<close>

text \<open>A library without cryptography: digests and keys are constant, the cipher is the identity, and the
  codecs write a length before each string.\<close>

definition frame :: "string \<Rightarrow> string" where
  "frame s = replicate (length s) (CHR ''1'') @ CHR ''0'' # s"

definition unframe :: "string \<Rightarrow> (string \<times> string) option" where
  "unframe s =
    (let n = length (takeWhile (\<lambda>c. c = CHR ''1'') s); r = drop n s in
     case r of [] \<Rightarrow> None | _ # t \<Rightarrow> if length t < n then None else Some (take n t, drop n t))"

lemma unframe_frame: "unframe (frame s @ t) = Some (s, t)"
  by (simp add: unframe_def frame_def Let_def takeWhile_tail)

definition putOid :: "nat list \<Rightarrow> string option" where
  "putOid x =
    (if x = oidPBES2 then Some ''a'' else if x = oidPBKDF2 then Some ''b''
     else if x = oidHMACSHA256 then Some ''c'' else if x = oidAES256CBC then Some ''d'' else None)"

definition getOid :: "string \<Rightarrow> nat list" where
  "getOid s =
    (if s = ''a'' then oidPBES2 else if s = ''b'' then oidPBKDF2 else if s = ''c'' then oidHMACSHA256
     else oidAES256CBC)"

lemma getOid_putOid: "putOid x = Some s \<Longrightarrow> getOid s = x"
  by (auto simp: putOid_def getOid_def split: if_splits)

text \<open>A sequence of fields, each framed.\<close>

fun getFields :: "nat \<Rightarrow> string \<Rightarrow> string list" where
  "getFields 0 s = []"
| "getFields (Suc n) s = (case unframe s of None \<Rightarrow> [] | Some (f, t) \<Rightarrow> f # getFields n t)"

definition putFields :: "string list \<Rightarrow> string" where
  "putFields fs = concat (map frame fs)"

lemma getFields_putFields: "length fs \<le> n \<Longrightarrow> getFields n (putFields fs) = fs"
proof (induction fs arbitrary: n)
  case Nil
  then show ?case by (cases n) (simp_all add: putFields_def unframe_def)
next
  case (Cons f fs)
  then obtain m where "n = Suc m" "length fs \<le> m" by (cases n) auto
  then show ?case using Cons.IH [of m] by (simp add: putFields_def unframe_frame)
qed

fun pairs :: "string list \<Rightarrow> (string, string) gomap" where
  "pairs (k # v # r) = (k, v) # pairs r"
| "pairs _ = []"

lemma pairs_concat: "pairs (concat (map (\<lambda>(k, v). [k, v]) m)) = m"
  by (induction m) auto

lemma putFields_length: "length fs \<le> length (putFields fs)"
  by (induction fs) (auto simp: putFields_def frame_def)

definition samplePem :: "pemBlock \<Rightarrow> string" where
  "samplePem b = putFields (pb_Type b # pb_Bytes b # concat (map (\<lambda>(k, v). [k, v]) (pb_Headers b)))"

definition sampleUnpem :: "string \<Rightarrow> pemBlock option" where
  "sampleUnpem s =
    (case getFields (length s) s of
       t # b # hs \<Rightarrow> Some \<lparr>pb_Type = t, pb_Headers = pairs hs, pb_Bytes = b\<rparr>
     | _ \<Rightarrow> None)"

lemma samplePem_back: "sampleUnpem (samplePem b) = Some b"
  unfolding sampleUnpem_def samplePem_def getFields_putFields [OF putFields_length] by (simp add: pairs_concat)

definition sampleCrypto :: "(string, string) cryptoLib" where
  "sampleCrypto =
    \<lparr>cl_md5 = (\<lambda>x. take 16 (x @ replicate 16 (CHR ''m''))),
     cl_pbkdf2 = (\<lambda>f pw salt n l. Some (take l (pw @ replicate l (CHR ''k'')))),
     cl_cbcEncrypt = (\<lambda>key iv. rev), cl_cbcDecrypt = (\<lambda>key iv. rev),
     cl_pemDecode = sampleUnpem, cl_pemEncode = samplePem,
     cl_marshalInfo = (\<lambda>i. map_option (\<lambda>c. putFields [c, ai_Parameters (ei_Algorithm i), ei_EncryptedData i])
        (putOid (ai_Algorithm (ei_Algorithm i)))),
     cl_unmarshalInfo = (\<lambda>s. case getFields 3 s of
        [c, p, d] \<Rightarrow> Some (\<lparr>ei_Algorithm = \<lparr>ai_Algorithm = getOid c, ai_Parameters = p\<rparr>, ei_EncryptedData = d\<rparr>, [])
      | _ \<Rightarrow> None),
     cl_marshalScheme = (\<lambda>s.
        case (putOid (ai_Algorithm (ps_KeyDerivationFunc s)), putOid (ai_Algorithm (ps_EncryptionScheme s))) of
          (Some c, Some d) \<Rightarrow>
            Some (putFields [c, ai_Parameters (ps_KeyDerivationFunc s), d, ai_Parameters (ps_EncryptionScheme s)])
        | _ \<Rightarrow> None),
     cl_unmarshalScheme = (\<lambda>s. case getFields 4 s of
        [c, p, d, q] \<Rightarrow>
          Some (\<lparr>ps_KeyDerivationFunc = \<lparr>ai_Algorithm = getOid c, ai_Parameters = p\<rparr>,
                 ps_EncryptionScheme = \<lparr>ai_Algorithm = getOid d, ai_Parameters = q\<rparr>\<rparr>, [])
      | _ \<Rightarrow> None),
     cl_marshalKdf = (\<lambda>k. if kd_IterationCount k = Iterations
        then map_option (\<lambda>c. putFields [kd_Salt k, c]) (putOid (ai_Algorithm (kd_PRF k))) else None),
     cl_unmarshalKdf = (\<lambda>s. case getFields 2 s of
        [salt, c] \<Rightarrow> Some (\<lparr>kd_Salt = salt, kd_IterationCount = Iterations, kd_KeyLength = 0,
           kd_PRF = \<lparr>ai_Algorithm = getOid c, ai_Parameters = []\<rparr>\<rparr>, [])
      | _ \<Rightarrow> None),
     cl_marshalBytes = Some, cl_unmarshalBytes = (\<lambda>s. Some (s, [])),
     cl_MarshalPKCS8 = Some, cl_ParsePKCS8 = (\<lambda>s. Some (ECKey s)),
     cl_MarshalEC = Some, cl_ParseEC = Some, cl_MarshalPKIX = Some, cl_ParsePKIX = (\<lambda>s. Some (ECKey s)),
     cl_PublicKey = id\<rparr>"

lemma sample_primitives: "primitivesLaw sampleCrypto"
  by (auto simp: primitivesLaw_def sampleCrypto_def min_def)

lemma sample_codec: "codecLaw sampleCrypto"
  unfolding codecLaw_def
  by (intro conjI allI impI)
    (auto simp: sampleCrypto_def getFields_putFields getOid_putOid split: option.splits if_splits)

lemma sample_keyLaw: "keyLaw sampleCrypto"
  by (auto simp: keyLaw_def sampleCrypto_def samplePem_back intro!: exI [of _ "pb_Headers b" for b])

lemma sublist_encrypted: "sublist ''ENCRYPTED'' ''4,ENCRYPTED''"
  by code_simp

lemma split_hex: "split_on (CHR '','') (hexEncodeUpper iv) = [hexEncodeUpper iv]"
  and hex_no_comma: "CHR '','' \<notin> set (hexEncodeUpper iv)"
proof -
  have digit: "CHR '','' \<noteq> hexDigit n" if "n < 16" for n
  proof -
    have "list_all (\<lambda>n. CHR '','' \<noteq> hexDigit n) [0..<16]" by code_simp
    then show ?thesis using that by (simp add: list_all_iff)
  qed
  show no: "CHR '','' \<notin> set (hexEncodeUpper iv)" for iv
  proof (induction iv)
    case (Cons c iv)
    have "of_char c < (256 :: nat)" by (rule nat_of_char_less_256)
    then show ?case
      using Cons digit [of "of_char c div 16"] digit [of "of_char c mod 16"]
      by (simp add: less_mult_imp_div_less)
  qed simp
  have "CHR '','' \<notin> set s \<Longrightarrow> split_on (CHR '','') s = [s]" for s by (induction s) auto
  then show "split_on (CHR '','') (hexEncodeUpper iv) = [hexEncodeUpper iv]" using no .
qed

lemma dek_split:
  "split_on (CHR '','') (''AES-256-CBC,'' @ hexEncodeUpper iv) = [''AES-256-CBC'', hexEncodeUpper iv]"
  "splitComma2 (''AES-256-CBC,'' @ hexEncodeUpper iv) = [''AES-256-CBC'', hexEncodeUpper iv]"
  by (simp_all add: split_hex splitComma2_def)

lemma sample_encodes:
  obtains priv pub where
    "Encode sampleCrypto ''pw'' ''key'' ''pub'' (Some ''salt'') (Some (replicate 16 (CHR ''i''))) = ok (priv, pub)"
proof -
  have oid: "putOid oidPBES2 = Some ''a''" "putOid oidPBKDF2 = Some ''b''"
      "putOid oidHMACSHA256 = Some ''c''" "putOid oidAES256CBC = Some ''d''"
    by (simp_all add: putOid_def oidPBES2_def oidPBKDF2_def oidHMACSHA256_def oidAES256CBC_def)
  show thesis
    using that pad_whole(1) [of "''key''"]
    by (simp add: Encode_def Encrypt_def sampleCrypto_def cbc_def BlockSize_def oid)
qed

definition sampleBlock :: pemBlock where
  "sampleBlock = \<lparr>pb_Type = ''EC PRIVATE KEY'', pb_Headers = [], pb_Bytes = ''key''\<rparr>"

lemma sample_legacy_encrypts:
  obtains block' where
    "EncryptPemBlock sampleCrypto sampleBlock ''pw'' (Some (replicate 16 (CHR ''i''))) = ok block'"
    "plainBlock block'"
proof -
  obtain key where key: "generateKeyFromPassword sampleCrypto ''pw'' (take 8 (replicate 16 (CHR ''i''))) 32 = ok key"
      "length key = 32"
    using generateKey_length [OF sample_primitives] by blast
  have hex: "hexEncodeUpper (replicate 16 (CHR ''i'')) = concat (replicate 16 ''69'')" by code_simp
  show thesis
    using that key cbc_roundtrip(1) [OF sample_primitives, of "replicate 16 (CHR ''i'')" key "''key''"]
    by (simp add: EncryptPemBlock_def sampleBlock_def hex BlockSize_def plainBlock_def)
qed

section \<open>Properties\<close>

text \<open>
  C22: What \<open>Encode\<close> writes for an ECDSA key pair, with or without a password, is read back as the same
  key pair by \<open>DecodePrivatePem\<close> and \<open>decode\<close>; with a password, the signing key loader's \<open>DecryptPEM\<close>
  recovers the same PKCS#8 key from it.
\<close>
theorem ecdsa_pem_roundtrip:
  assumes "primitivesLaw lib" "codecLaw lib" "keyLaw lib" and "length iv = BlockSize"
    and "Encode lib password k p (Some salt) (Some iv) = ok (priv, pub)"
  shows "DecodePrivatePem lib password priv = ok (k, cl_PublicKey lib k) \<and>
    decodeKeys lib password priv pub = ok (k, p) \<and>
    (password = [] \<or> (\<exists>der. cl_MarshalPKCS8 lib k = Some der \<and>
       DecryptPEM lib priv password =
         ok (cl_pemEncode lib \<lparr>pb_Type = ''PRIVATE KEY'', pb_Headers = [], pb_Bytes = der\<rparr>)))"
proof -
  obtain block x where block: "priv = cl_pemEncode lib block" "plainBlock block" "pb_Headers block = []"
      "cl_MarshalPKIX lib p = Some x"
      "pub = cl_pemEncode lib \<lparr>pb_Type = ''EC  PUBLIC KEY'', pb_Headers = [], pb_Bytes = x\<rparr>"
      "parsePrivateBlock lib block password = ok k"
    and enc: "password \<noteq> [] \<longrightarrow> pb_Type block = PEMType \<and>
       (\<exists>der. cl_MarshalPKCS8 lib k = Some der \<and> Decrypt lib block password = ok der)"
    by (rule encoded_block [OF assms(1-5)])
  have priv: "cl_pemDecode lib priv = Some block"
    using pem_back [OF assms(3) block(2,3)] block(1) by simp
  have "plainBlock \<lparr>pb_Type = ''EC  PUBLIC KEY'', pb_Headers = [], pb_Bytes = x\<rparr>" by (simp add: plainBlock_def)
  from pem_back [OF assms(3) this] block(5)
  have pub: "cl_pemDecode lib pub = Some \<lparr>pb_Type = ''EC  PUBLIC KEY'', pb_Headers = [], pb_Bytes = x\<rparr>" by simp
  have "DecodePrivatePem lib password priv = ok (k, cl_PublicKey lib k)"
    using block(6) by (simp add: DecodePrivatePem_def priv)
  moreover have "decodeKeys lib password priv pub = ok (k, p)"
    using block(6) keyLaw_parse(3) [OF assms(3) block(4)] by (simp add: decodeKeys_def priv pub)
  moreover have "password \<noteq> [] \<Longrightarrow> \<exists>der. cl_MarshalPKCS8 lib k = Some der \<and>
      DecryptPEM lib priv password =
        ok (cl_pemEncode lib \<lparr>pb_Type = ''PRIVATE KEY'', pb_Headers = [], pb_Bytes = der\<rparr>)"
    using enc by (auto simp: DecryptPEM_def priv)
  ultimately show ?thesis by blast
qed

theorem ecdsa_pem_roundtrip_witness:
  "\<exists>priv pub. Encode sampleCrypto ''pw'' ''key'' ''pub'' (Some ''salt'') (Some (replicate 16 (CHR ''i''))) = ok (priv, pub) \<and>
     decodeKeys sampleCrypto ''pw'' priv pub = ok (''key'', ''pub'')"
proof -
  obtain priv pub where
    enc: "Encode sampleCrypto ''pw'' ''key'' ''pub'' (Some ''salt'') (Some (replicate 16 (CHR ''i''))) = ok (priv, pub)"
    by (rule sample_encodes)
  show ?thesis
    using ecdsa_pem_roundtrip [OF sample_primitives sample_codec sample_keyLaw _ enc] enc
    unfolding BlockSize_def length_replicate by blast
qed

text \<open>
  What the legacy \<open>EncryptPemBlock\<close> writes is read back by \<open>DecryptPemBlock\<close>, headers included, and the
  signing key loader's \<open>DecryptPEM\<close> gives the PEM form of the original bytes.
\<close>
theorem legacy_pem_roundtrip:
  assumes "primitivesLaw lib" "keyLaw lib" and "length iv = BlockSize" and "password \<noteq> []"
    and "pb_Headers block = []" and "pb_Type block \<noteq> PEMType"
    and "EncryptPemBlock lib block password (Some iv) = ok block'" and "plainBlock block'"
  shows "DecryptPemBlock lib block' password = ok block \<and>
    DecryptPEM lib (cl_pemEncode lib block') password = ok (cl_pemEncode lib block)"
proof -
  obtain key where key: "generateKeyFromPassword lib password (take 8 iv) 32 = ok key"
    and block': "block' = block\<lparr>
       pb_Headers := mput ''DEK-Info'' (''AES-256-CBC,'' @ hexEncodeUpper iv)
                       (mput ''Proc-Type'' ''4,ENCRYPTED'' (pb_Headers block)),
       pb_Bytes := cl_cbcEncrypt lib key iv (pad (pb_Bytes block))\<rparr>"
    by (rule EncryptPemBlock_ok [OF assms(1,3,4,7)])
  define dek where "dek = ''AES-256-CBC,'' @ hexEncodeUpper iv"
  note block' = block' [folded dek_def] and dek = dek_split [of iv, folded dek_def]
  note plain = decryptLegacy_pad [OF assms(1,3) key, of "pb_Bytes block"]
  obtain h where h: "cl_pemDecode lib (cl_pemEncode lib block') = Some (block'\<lparr>pb_Headers := h\<rparr>)"
    "mget h = mget (pb_Headers block')"
    by (rule keyLaw_pem [OF assms(2,8)])
  have same: "\<lparr>pb_Type = pb_Type block, pb_Headers = [], pb_Bytes = pb_Bytes block\<rparr> = block"
    using assms(5) by (cases block) simp
  have "DecryptPemBlock lib block' password = ok block"
    using plain sublist_encrypted assms(5)
    by (simp add: DecryptPemBlock_def isEncryptedPEMBlock_def block' dek)
  moreover have "DecryptPEM lib (cl_pemEncode lib block') password = ok (cl_pemEncode lib block)"
    using plain assms(5,6) unfolding DecryptPEM_def h(1)
    by (simp add: h(2)) (simp add: block' dek same)
  ultimately show ?thesis ..
qed

theorem legacy_pem_roundtrip_witness:
  "\<exists>block'. EncryptPemBlock sampleCrypto sampleBlock ''pw'' (Some (replicate 16 (CHR ''i''))) = ok block' \<and>
     DecryptPemBlock sampleCrypto block' ''pw'' = ok sampleBlock"
proof -
  obtain block' where enc: "EncryptPemBlock sampleCrypto sampleBlock ''pw'' (Some (replicate 16 (CHR ''i''))) = ok block'"
    "plainBlock block'"
    by (rule sample_legacy_encrypts)
  have "pb_Headers sampleBlock = []" "pb_Type sampleBlock \<noteq> PEMType" by (simp_all add: sampleBlock_def PEMType_def)
  from legacy_pem_roundtrip [OF sample_primitives sample_keyLaw _ _ this enc] enc(1) show ?thesis
    unfolding BlockSize_def length_replicate by blast
qed

text \<open>
  C23: Reading a key never panics, whatever the PEM text, the password and the bytes inside: every malformed
  or wrongly decrypted input is reported as an error.
\<close>
theorem key_reading_never_panics:
  assumes "primitivesLaw lib"
  shows "returns (Decrypt lib block password) \<and> returns (DecryptPemBlock lib block password) \<and>
    returns (DecryptPEM lib text password) \<and> returns (DecodePrivatePem lib password text) \<and>
    returns (decodeKeys lib password text pub)"
  using Decrypt_returns [OF assms] DecryptPemBlock_returns [OF assms] DecryptPEM_returns [OF assms]
    parsePrivateBlock_returns [OF assms]
  by (auto simp: DecodePrivatePem_def decodeKeys_def intro!: returns_bind split: option.split parsedKey.split)

theorem key_reading_never_panics_witness:
  "returns (DecryptPEM sampleCrypto (samplePem \<lparr>pb_Type = PEMType, pb_Headers = [], pb_Bytes = ''junk''\<rparr>) ''pw'')"
  using key_reading_never_panics [OF sample_primitives] by blast

text \<open>
  C39: The key derived from a password for the legacy format, at most 32 bytes as both callers ask for, is
  that of OpenSSL's \<open>EVP_BytesToKey\<close>, and the loop ends with the requested number of bytes.
\<close>
theorem legacy_key_is_evp:
  assumes "primitivesLaw lib" and "keyLen \<le> 32"
  shows "generateKeyFromPassword lib password salt keyLen = ok (EVP_BytesToKey lib password salt keyLen)"
  using assms by (rule generateKey_evp)

theorem legacy_key_is_evp_witness:
  "generateKeyFromPassword sampleCrypto ''pw'' ''saltsalt'' 32 = ok (EVP_BytesToKey sampleCrypto ''pw'' ''saltsalt'' 32)"
  using legacy_key_is_evp [OF sample_primitives] by simp

end
