(* ===== verification/Key_Material.thy ===== *)
theory Key_Material
  imports Key_Encryption JWT_Middleware
begin

text \<open>
  The signing keys of a token issuer (\<open>services/keymaterial/key-material.go\<close>), the minter that uses them
  (\<open>services/jwtminter/jwt-minter.go\<close>) and the validator for self-issued tokens
  (\<open>services/jwtminter/KeyMaterialValidator/KeyMaterialValidator.go\<close>).

  Instants are integers (nanoseconds); every operation takes the instant at which it reads the clock. The
  JWT libraries are the records \<open>signLib\<close> and \<open>selfLib\<close>. An operation is \<open>None\<close> when it panics.
\<close>

section \<open>Keys\<close>

record PublicJwk =
  pj_Alg :: string
  pj_Crv :: string
  pj_Kid :: string
  pj_Kty :: string
  pj_Use :: string
  pj_X :: string
  pj_Y :: string
  pj_E :: string
  pj_N :: string

record PrivateJwk =
  vj_Alg :: string
  vj_Crv :: string
  vj_D :: string
  vj_Kid :: string
  vj_Kty :: string
  vj_Use :: string
  vj_X :: string
  vj_Y :: string
  vj_E :: string
  vj_N :: string
  vj_P :: string
  vj_Q :: string
  vj_Dp :: string
  vj_Dq :: string
  vj_Qi :: string

record SigningKey =
  sk_PrivateKey :: string
  sk_DecryptedPrivateKey :: string
  sk_PublicKey :: string
  sk_NotBefore :: int
  sk_NotAfter :: int
  sk_Password :: string
  sk_Kid :: string
  sk_PublicJwk :: PublicJwk
  sk_PrivateJwk :: PrivateJwk

datatype keyError = NoValidKeys | DecryptError cryptError | JwkError

record keyService =
  ks_keyMaterial :: "SigningKey list"
  ks_nextFetchTime :: int
  ks_signingKey :: "SigningKey option"
  ks_jwks :: "PublicJwk list"

text \<open>The zero time is the first instant of year 1.\<close>

definition zeroTime :: int where "zeroTime = - 62135596800 * second"

definition newKeyService :: "SigningKey list \<Rightarrow> keyService" where
  "newKeyService keys =
    \<lparr>ks_keyMaterial = keys, ks_nextFetchTime = zeroTime, ks_signingKey = None, ks_jwks = []\<rparr>"

definition isActive :: "SigningKey \<Rightarrow> int \<Rightarrow> bool" where
  "isActive key now \<longleftrightarrow> now > sk_NotBefore key \<and> now < sk_NotAfter key"

definition earlier :: "int \<Rightarrow> int \<Rightarrow> int \<Rightarrow> int" where
  "earlier now next t = (if \<not> t < now \<and> t < next then t else next)"

definition nextKeyBoundary :: "SigningKey list \<Rightarrow> int \<Rightarrow> int" where
  "nextKeyBoundary keys now =
    foldl (\<lambda>next key. foldl (earlier now) next [sk_NotBefore key, sk_NotAfter key]) (2 ^ 62 * second) keys"

definition reloadDue :: "keyService \<Rightarrow> int \<Rightarrow> bool" where
  "reloadDue s now \<longleftrightarrow> ks_signingKey s = None \<or> now > ks_nextFetchTime s"

text \<open>The loop over the configured keys: the last active key, and the public keys of all of them.\<close>

definition collectKeys :: "SigningKey list \<Rightarrow> int \<Rightarrow> SigningKey option \<times> PublicJwk list" where
  "collectKeys keys now =
    foldl (\<lambda>(active, jwks) key.
      if isActive key now then (Some key, jwks @ [sk_PublicJwk key]) else (active, jwks)) (None, []) keys"

definition reloadKeys ::
    "('k, 'p) cryptoLib \<Rightarrow> keyService \<Rightarrow> int \<Rightarrow> (keyError option \<times> keyService) option" where
  "reloadKeys lib s now =
    (if \<not> reloadDue s now then Some (None, s)
     else if ks_signingKey s \<noteq> None \<and> \<not> now > ks_nextFetchTime s then Some (None, s)
     else
       (case collectKeys (ks_keyMaterial s) now of
          (None, _) \<Rightarrow> Some (Some NoValidKeys, s)
        | (Some active, jwks) \<Rightarrow>
            (case DecryptPEM lib (sk_PrivateKey active) (sk_Password active) of
               None \<Rightarrow> None
             | Some (Inl err) \<Rightarrow> Some (Some (DecryptError err), s)
             | Some (Inr decryptedPrivateKey) \<Rightarrow>
                 Some (None, s\<lparr>
                   ks_signingKey := Some (active\<lparr>sk_DecryptedPrivateKey := decryptedPrivateKey\<rparr>),
                   ks_jwks := jwks,
                   ks_nextFetchTime := nextKeyBoundary (ks_keyMaterial s) now\<rparr>))))"

abbreviation afterReload ::
    "('k, 'p) cryptoLib \<Rightarrow> keyService \<Rightarrow> int \<Rightarrow> (keyService \<Rightarrow> 'a) \<Rightarrow> ((keyError + 'a) \<times> keyService) option" where
  "afterReload lib s now f \<equiv>
    (case reloadKeys lib s now of
       None \<Rightarrow> None
     | Some (Some err, s') \<Rightarrow> Some (Inl err, s')
     | Some (None, s') \<Rightarrow> Some (Inr (f s'), s'))"

text \<open>The pointer \<open>GetSigningKey\<close> returns is nil when the service holds no key.\<close>

definition GetSigningKey ::
    "('k, 'p) cryptoLib \<Rightarrow> keyService \<Rightarrow> int \<Rightarrow> ((keyError + SigningKey option) \<times> keyService) option" where
  "GetSigningKey lib s now = afterReload lib s now ks_signingKey"

definition GetSigningKeys ::
    "('k, 'p) cryptoLib \<Rightarrow> keyService \<Rightarrow> int \<Rightarrow> ((keyError + SigningKey list) \<times> keyService) option" where
  "GetSigningKeys lib s now = afterReload lib s now ks_keyMaterial"

definition GetPublicWebKeys ::
    "('k, 'p) cryptoLib \<Rightarrow> keyService \<Rightarrow> int \<Rightarrow> ((keyError + PublicJwk list) \<times> keyService) option" where
  "GetPublicWebKeys lib s now = afterReload lib s now ks_jwks"

text \<open>\<open>publicOf\<close> parses a private JWK and takes its public key; \<open>addKey\<close> is \<open>Set.AddKey\<close>, whose error the
  code drops.\<close>

fun addKeys ::
    "(PrivateJwk \<Rightarrow> 'pub option) \<Rightarrow> ('ks \<Rightarrow> 'pub \<Rightarrow> 'ks) \<Rightarrow> 'ks \<Rightarrow> SigningKey list \<Rightarrow> keyError + 'ks" where
  "addKeys publicOf addKey set1 [] = Inr set1"
| "addKeys publicOf addKey set1 (key # keys) =
    (case publicOf (sk_PrivateJwk key) of
       None \<Rightarrow> Inl JwkError
     | Some pubkey \<Rightarrow> addKeys publicOf addKey (addKey set1 pubkey) keys)"

definition CreateKeySet ::
    "('k, 'p) cryptoLib \<Rightarrow> (PrivateJwk \<Rightarrow> 'pub option) \<Rightarrow> ('ks \<Rightarrow> 'pub \<Rightarrow> 'ks) \<Rightarrow> 'ks \<Rightarrow>
     keyService \<Rightarrow> int \<Rightarrow> ((keyError + 'ks) \<times> keyService) option" where
  "CreateKeySet lib publicOf addKey empty1 s now =
    (case GetSigningKeys lib s now of
       None \<Rightarrow> None
     | Some (Inl err, s') \<Rightarrow> Some (Inl err, s')
     | Some (Inr keys, s') \<Rightarrow> Some (addKeys publicOf addKey empty1 keys, s'))"

section \<open>Minting\<close>

datatype signingMethod = RS256 | RS384 | RS512 | ES256 | ES384 | ES512 | EdDSA

text \<open>The JWT library: the three PEM parsers and the signature over a header with the key id and
  claims \<open>'c\<close>.\<close>

record ('c, 'key) signLib =
  sl_ParseEd :: "string \<Rightarrow> 'key option"
  sl_ParseEC :: "string \<Rightarrow> 'key option"
  sl_ParseRSA :: "string \<Rightarrow> 'key option"
  sl_Sign :: "signingMethod \<Rightarrow> string \<Rightarrow> 'c \<Rightarrow> 'key \<Rightarrow> string option"

datatype mintError = KeyError keyError | UnsupportedMethod string | KeyParseError | SignError

record 'key minter =
  mt_keyAlg :: string
  mt_keyPEM :: string
  mt_keyParsed :: "'key option"

definition newMinter :: "'key minter" where
  "newMinter = \<lparr>mt_keyAlg = [], mt_keyPEM = [], mt_keyParsed = None\<rparr>"

definition parsedKey :: "'key minter \<Rightarrow> string \<Rightarrow> string \<Rightarrow> 'key option \<Rightarrow> 'key option \<times> 'key minter" where
  "parsedKey mt alg pem parse =
    (if mt_keyParsed mt \<noteq> None \<and> mt_keyAlg mt = alg \<and> mt_keyPEM mt = pem then (mt_keyParsed mt, mt)
     else
       (case parse of
          None \<Rightarrow> (None, mt)
        | Some key \<Rightarrow> (Some key, \<lparr>mt_keyAlg = alg, mt_keyPEM = pem, mt_keyParsed = Some key\<rparr>)))"

definition methodOf :: "string \<Rightarrow> signingMethod option" where
  "methodOf alg =
    (if alg = ''RS256'' then Some RS256 else if alg = ''RS384'' then Some RS384
     else if alg = ''RS512'' then Some RS512 else if alg = ''ES256'' then Some ES256
     else if alg = ''ES384'' then Some ES384 else if alg = ''ES512'' then Some ES512
     else if alg = ''EdDSA'' then Some EdDSA else None)"

text \<open>The closure \<open>getKey\<close>.\<close>

definition parseKeyFor :: "('c, 'key) signLib \<Rightarrow> string \<Rightarrow> string \<Rightarrow> 'key option" where
  "parseKeyFor sl alg pem =
    (if prefix ''Ed'' alg then sl_ParseEd sl pem
     else if prefix ''ES'' alg then sl_ParseEC sl pem
     else sl_ParseRSA sl pem)"

definition MintToken ::
    "('k, 'p) cryptoLib \<Rightarrow> ('c, 'key) signLib \<Rightarrow> keyService \<times> 'key minter \<Rightarrow> int \<Rightarrow> 'c \<Rightarrow>
     ((mintError + string) \<times> keyService \<times> 'key minter) option" where
  "MintToken lib sl st now claims =
    (case GetSigningKey lib (fst st) now of
       None \<Rightarrow> None
     | Some (Inl err, s') \<Rightarrow> Some (Inl (KeyError err), s', snd st)
     | Some (Inr None, s') \<Rightarrow> None
     | Some (Inr (Some signingKey), s') \<Rightarrow>
         (let alg = vj_Alg (sk_PrivateJwk signingKey); pem = sk_DecryptedPrivateKey signingKey in
          case methodOf alg of
            None \<Rightarrow> Some (Inl (UnsupportedMethod alg), s', snd st)
          | Some method \<Rightarrow>
              (case parsedKey (snd st) alg pem (parseKeyFor sl alg pem) of
                 (None, mt') \<Rightarrow> Some (Inl KeyParseError, s', mt')
               | (Some key, mt') \<Rightarrow>
                   (case sl_Sign sl method (sk_Kid signingKey) claims key of
                      None \<Rightarrow> Some (Inl SignError, s', mt')
                    | Some token \<Rightarrow> Some (Inr token, s', mt')))))"

definition PublicKeys ::
    "('k, 'p) cryptoLib \<Rightarrow> keyService \<Rightarrow> int \<Rightarrow> ((keyError + PublicJwk list) \<times> keyService) option" where
  "PublicKeys lib s now = GetPublicWebKeys lib s now"

section \<open>Validating self-issued tokens\<close>

text \<open>
  The JOSE library as the validator uses it. \<open>vl_Validate now issuer skew\<close> is \<open>jwt.Validate\<close> with a required
  \<open>exp\<close>; an issuer is checked when one is given. \<open>vl_Kids\<close> is the key id of each signature, empty when absent.
\<close>

record ('ks, 'f) selfLib =
  vl_ParseVerified :: "'ks \<Rightarrow> string \<Rightarrow> string + 'f jwxToken"
  vl_ParseUnverified :: "string \<Rightarrow> string + 'f jwxToken"
  vl_Validate :: "int \<Rightarrow> string option \<Rightarrow> int \<Rightarrow> 'f jwxToken \<Rightarrow> string option"
  vl_Kids :: "string \<Rightarrow> string + string list"

record JWTValidatorOptions =
  vo_ClockSkewMinutes :: int
  vo_ValidateSignature :: "bool option"
  vo_ValidateIssuer :: "bool option"
  vo_Issuer :: string
  vo_AltJWKSUrl :: string
  vo_AltTokenEndpointUrl :: string

record 'ks kmValidator =
  kv_options :: JWTValidatorOptions
  kv_keySet :: 'ks
  kv_keysByKid :: "(string, SigningKey) gomap"

definition newKeyMaterialValidator ::
    "('k, 'p) cryptoLib \<Rightarrow> (PrivateJwk \<Rightarrow> 'pub option) \<Rightarrow> ('ks \<Rightarrow> 'pub \<Rightarrow> 'ks) \<Rightarrow> 'ks \<Rightarrow>
     keyService \<Rightarrow> int \<Rightarrow> JWTValidatorOptions \<Rightarrow> ((keyError + 'ks kmValidator) \<times> keyService) option" where
  "newKeyMaterialValidator lib publicOf addKey empty1 s now options =
    (case CreateKeySet lib publicOf addKey empty1 s now of
       None \<Rightarrow> None
     | Some (Inl err, s') \<Rightarrow> Some (Inl err, s')
     | Some (Inr keySet, s') \<Rightarrow>
         (case GetSigningKeys lib s' now of
            None \<Rightarrow> None
          | Some (Inl err, s2) \<Rightarrow> Some (Inl err, s2)
          | Some (Inr keys, s2) \<Rightarrow>
              Some (Inr \<lparr>kv_options = options, kv_keySet = keySet,
                         kv_keysByKid = foldl (\<lambda>m k. mput (sk_Kid k) k m) [] keys\<rparr>, s2)))"

definition shouldValidateSignature :: "JWTValidatorOptions \<Rightarrow> bool" where
  "shouldValidateSignature o1 = (case vo_ValidateSignature o1 of None \<Rightarrow> True | Some b \<Rightarrow> b)"

definition shouldValidateIssuer :: "JWTValidatorOptions \<Rightarrow> bool" where
  "shouldValidateIssuer o1 = (case vo_ValidateIssuer o1 of None \<Rightarrow> True | Some b \<Rightarrow> b)"

definition clockSkew :: "JWTValidatorOptions \<Rightarrow> int" where
  "clockSkew o1 = 60 * second * vo_ClockSkewMinutes o1"

definition checkSigningKeyWindow ::
    "('ks, 'f) selfLib \<Rightarrow> 'ks kmValidator \<Rightarrow> int \<Rightarrow> string \<Rightarrow> 'f jwxToken \<Rightarrow> string option" where
  "checkSigningKeyWindow vl v now accessToken token =
    (case vl_Kids vl accessToken of
       Inl err \<Rightarrow> Some err
     | Inr [] \<Rightarrow> Some ''token has no signature''
     | Inr (kid # _) \<Rightarrow>
         (case mget (kv_keysByKid v) kid of
            None \<Rightarrow> Some (''token signed with unknown key '' @ kid)
          | Some key \<Rightarrow>
              (let issued0 = (case tk_IssuedAt token of None \<Rightarrow> zeroTime | Some t \<Rightarrow> t);
                   issued = (if issued0 = zeroTime then now else issued0);
                   skew = clockSkew (kv_options v) in
               if issued < sk_NotBefore key - skew \<or> issued > sk_NotAfter key + skew
               then Some (''token issued outside the validity of signing key '' @ kid)
               else None)))"

definition ParseAccessTokenRaw ::
    "('ks, 'f) selfLib \<Rightarrow> 'ks kmValidator \<Rightarrow> int \<Rightarrow> string \<Rightarrow> string + 'f jwxToken" where
  "ParseAccessTokenRaw vl v now accessToken =
    (case (if shouldValidateSignature (kv_options v)
           then vl_ParseVerified vl (kv_keySet v) accessToken
           else vl_ParseUnverified vl accessToken) of
       Inl err \<Rightarrow> Inl err
     | Inr token \<Rightarrow>
         (case vl_Validate vl now
                 (if shouldValidateIssuer (kv_options v) then Some (vo_Issuer (kv_options v)) else None)
                 (clockSkew (kv_options v)) token of
            Some err \<Rightarrow> Inl err
          | None \<Rightarrow>
              (case (if shouldValidateSignature (kv_options v)
                     then checkSigningKeyWindow vl v now accessToken token else None) of
                 Some err \<Rightarrow> Inl err
               | None \<Rightarrow> Inr token)))"

text \<open>As a validator of the JWT interceptor; \<open>clock\<close> reads the time from the outside world.\<close>

definition kmValidateAccessToken ::
    "('ks, 'f) selfLib \<Rightarrow> 'ks kmValidator \<Rightarrow> ('e \<Rightarrow> int) \<Rightarrow> ('e, 'f) validatorFun" where
  "kmValidateAccessToken vl v clock g rawToken =
    (case ParseAccessTokenRaw vl v (clock (g_env g)) (pt_AccessToken rawToken) of
       Inl err \<Rightarrow> Some ((False, Some (Plain err)), g)
     | Inr _ \<Rightarrow> Some ((True, None), g))"

section \<open>The active keys\<close>

definition boundaries :: "SigningKey list \<Rightarrow> int set" where
  "boundaries keys = sk_NotBefore ` set keys \<union> sk_NotAfter ` set keys"

lemma collectKeys_filter:
  "collectKeys keys now =
    (let active = filter (\<lambda>k. isActive k now) keys in
     (if active = [] then None else Some (last active), map sk_PublicJwk active))"
proof -
  have "foldl (\<lambda>(active, jwks) key. if isActive key now then (Some key, jwks @ [sk_PublicJwk key]) else (active, jwks))
      (a, js) keys =
    (let active = filter (\<lambda>k. isActive k now) keys in
     (if active = [] then a else Some (last active), js @ map sk_PublicJwk active))" for a js
    by (induction keys arbitrary: a js) (auto simp: Let_def)
  from this [of None "[]"] show ?thesis by (simp add: collectKeys_def)
qed

lemma earlier_le: "earlier now next t \<le> next" "now \<le> t \<Longrightarrow> earlier now next t \<le> t"
  by (auto simp: earlier_def)

lemma nextKeyBoundary_le:
  assumes "b \<in> boundaries keys" "now \<le> b"
  shows "nextKeyBoundary keys now \<le> b"
proof -
  let ?step = "\<lambda>next key. foldl (earlier now) next [sk_NotBefore key, sk_NotAfter key]"
  have dec: "foldl ?step n ks \<le> n" for n ks
  proof (induction ks arbitrary: n)
    case (Cons k ks)
    have "?step n k \<le> n" using earlier_le(1) order_trans by (auto simp: earlier_def)
    then show ?case using Cons [of "?step n k"] by simp
  qed simp
  have "k \<in> set ks \<Longrightarrow> b = sk_NotBefore k \<or> b = sk_NotAfter k \<Longrightarrow> foldl ?step n ks \<le> b" for k ks n
  proof (induction ks arbitrary: n)
    case (Cons k' ks)
    show ?case
    proof (cases "k' = k")
      case True
      then have "?step n k' \<le> b" using Cons.prems(2) assms(2) by (auto simp: earlier_def)
      then show ?thesis using dec [of "?step n k'" ks] by simp
    next
      case False
      then show ?thesis using Cons by simp
    qed
  qed simp
  then show ?thesis using assms(1) by (auto simp: nextKeyBoundary_def boundaries_def)
qed

text \<open>Between a load and the next boundary the active keys do not change.\<close>

lemma active_stable:
  assumes "t0 \<le> now" "now \<le> nextKeyBoundary keys t0" "now \<notin> boundaries keys"
  shows "filter (\<lambda>k. isActive k now) keys = filter (\<lambda>k. isActive k t0) keys"
proof (rule filter_cong [OF refl])
  fix k assume k: "k \<in> set keys"
  then have nb: "t0 \<le> sk_NotBefore k \<Longrightarrow> now \<le> sk_NotBefore k" and na: "t0 \<le> sk_NotAfter k \<Longrightarrow> now \<le> sk_NotAfter k"
    using nextKeyBoundary_le [of _ keys t0] assms(2) by (force simp: boundaries_def)+
  have "now \<noteq> sk_NotAfter k" using assms(3) k by (auto simp: boundaries_def)
  then show "isActive k now = isActive k t0"
    using nb na assms(1) unfolding isActive_def by linarith
qed

text \<open>What a service without state would compute at \<open>now\<close>: the last active key, decrypted, and the public
  keys of all active ones.\<close>

definition freshKeys ::
    "('k, 'p) cryptoLib \<Rightarrow> SigningKey list \<Rightarrow> int \<Rightarrow> (keyError + SigningKey \<times> PublicJwk list) option" where
  "freshKeys lib keys now =
    (let active = filter (\<lambda>k. isActive k now) keys in
     if active = [] then Some (Inl NoValidKeys)
     else
       map_option (map_sum DecryptError
         (\<lambda>pem. ((last active)\<lparr>sk_DecryptedPrivateKey := pem\<rparr>, map sk_PublicJwk active)))
         (DecryptPEM lib (sk_PrivateKey (last active)) (sk_Password (last active))))"

definition keyInv :: "('k, 'p) cryptoLib \<Rightarrow> SigningKey list \<Rightarrow> int \<Rightarrow> keyService \<Rightarrow> bool" where
  "keyInv lib keys now s \<longleftrightarrow>
    ks_keyMaterial s = keys \<and>
    (case ks_signingKey s of
       None \<Rightarrow> True
     | Some k \<Rightarrow> \<exists>t0 \<le> now. ks_nextFetchTime s = nextKeyBoundary keys t0 \<and>
                          freshKeys lib keys t0 = Some (Inr (k, ks_jwks s)))"

lemma keyInv_new: "keyInv lib keys now (newKeyService keys)"
  by (simp add: keyInv_def newKeyService_def)

lemma freshKeys_stable:
  assumes "t0 \<le> now" "now \<le> nextKeyBoundary keys t0" "now \<notin> boundaries keys"
  shows "freshKeys lib keys now = freshKeys lib keys t0"
  using active_stable [OF assms] by (simp add: freshKeys_def)

text \<open>A reload that is due computes the fresh keys.\<close>

lemma reload_due:
  assumes "reloadDue s now" "ks_keyMaterial s = keys"
  shows "reloadKeys lib s now =
    (case freshKeys lib keys now of
       None \<Rightarrow> None
     | Some (Inl err) \<Rightarrow> Some (Some err, s)
     | Some (Inr (k, js)) \<Rightarrow>
         Some (None, s\<lparr>ks_signingKey := Some k, ks_jwks := js, ks_nextFetchTime := nextKeyBoundary keys now\<rparr>))"
  using assms
  by (auto simp: reloadKeys_def reloadDue_def collectKeys_filter freshKeys_def Let_def
      split: option.splits sum.splits if_splits)

lemma reload_not_due: "\<not> reloadDue s t \<Longrightarrow> reloadKeys lib s t = Some (None, s)"
  by (simp add: reloadKeys_def)

lemma reload_serves:
  assumes inv: "keyInv lib keys now s" and now: "now \<notin> boundaries keys"
  shows "freshKeys lib keys now = None \<Longrightarrow> reloadKeys lib s now = None"
    and "freshKeys lib keys now = Some (Inl err) \<Longrightarrow> reloadKeys lib s now = Some (Some err, s)"
    and "freshKeys lib keys now = Some (Inr (k, js)) \<Longrightarrow>
      \<exists>s'. reloadKeys lib s now = Some (None, s') \<and> ks_signingKey s' = Some k \<and> ks_jwks s' = js"
proof -
  have keys: "ks_keyMaterial s = keys" using inv by (simp add: keyInv_def)
  have kept: "\<exists>k. freshKeys lib keys now = Some (Inr (k, ks_jwks s)) \<and> ks_signingKey s = Some k" if due: "\<not> reloadDue s now"
  proof -
    obtain k where k: "ks_signingKey s = Some k" and le: "now \<le> ks_nextFetchTime s"
      using due by (auto simp: reloadDue_def)
    then obtain t0 where "t0 \<le> now" "ks_nextFetchTime s = nextKeyBoundary keys t0"
      "freshKeys lib keys t0 = Some (Inr (k, ks_jwks s))"
      using inv by (auto simp: keyInv_def)
    then show ?thesis using freshKeys_stable [of t0 now keys lib] le now k by simp
  qed
  show "freshKeys lib keys now = None \<Longrightarrow> reloadKeys lib s now = None"
    and "freshKeys lib keys now = Some (Inl err) \<Longrightarrow> reloadKeys lib s now = Some (Some err, s)"
    and "freshKeys lib keys now = Some (Inr (k, js)) \<Longrightarrow>
      \<exists>s'. reloadKeys lib s now = Some (None, s') \<and> ks_signingKey s' = Some k \<and> ks_jwks s' = js"
    using reload_due [OF _ keys, of now lib] kept by (cases "reloadDue s now"; auto simp: reload_not_due)+
qed

text \<open>Every operation of the service reloads first; \<open>afterCalls\<close> is the state after calls at the given
  instants.\<close>

definition afterCalls :: "('k, 'p) cryptoLib \<Rightarrow> int list \<Rightarrow> keyService \<Rightarrow> keyService" where
  "afterCalls lib ts s =
    fold (\<lambda>t s. case reloadKeys lib s t of None \<Rightarrow> s | Some (_, s') \<Rightarrow> s') ts s"

text \<open>A late reader of the clock cannot replace newer keys: a reload that is due happens after the load the
  service remembers, or that load is at least as new.\<close>

lemma reload_any_order:
  assumes inv: "keyInv lib keys now s" and t: "t \<le> now" and r: "reloadKeys lib s t = Some (e, s')"
  shows "keyInv lib keys now s'"
proof (cases "reloadDue s t")
  case True
  have keys: "ks_keyMaterial s = keys" using inv by (simp add: keyInv_def)
  show ?thesis
    using r inv t unfolding reload_due [OF True keys]
    by (auto simp: keyInv_def split: option.splits sum.splits)
next
  case False
  then show ?thesis using r inv by (simp add: reload_not_due)
qed

lemma afterCalls_inv: "\<forall>t \<in> set ts. t \<le> now \<Longrightarrow> keyInv lib keys now s \<Longrightarrow> keyInv lib keys now (afterCalls lib ts s)"
proof (induction ts arbitrary: s)
  case (Cons t ts)
  have "keyInv lib keys now (case reloadKeys lib s t of None \<Rightarrow> s | Some (_, s') \<Rightarrow> s')"
    using Cons.prems reload_any_order [of lib keys now s t] by (auto split: option.splits)
  then show ?case using Cons by (simp add: afterCalls_def)
qed (simp add: afterCalls_def)

lemma freshKeys_cases:
  obtains "freshKeys lib keys now = None"
        | err where "freshKeys lib keys now = Some (Inl err)"
        | k js where "freshKeys lib keys now = Some (Inr (k, js))"
  by (cases "freshKeys lib keys now") (auto, metis sum.exhaust surj_pair)

lemma GetSigningKey_fresh:
  assumes "keyInv lib keys now s" "now \<notin> boundaries keys"
  shows "map_option fst (GetSigningKey lib s now) = map_option (map_sum id (Some \<circ> fst)) (freshKeys lib keys now)"
    and "map_option fst (GetPublicWebKeys lib s now) = map_option (map_sum id snd) (freshKeys lib keys now)"
proof -
  show "map_option fst (GetSigningKey lib s now) = map_option (map_sum id (Some \<circ> fst)) (freshKeys lib keys now)"
    by (cases rule: freshKeys_cases [of lib keys now])
      (auto simp: GetSigningKey_def reload_serves [OF assms] dest!: reload_serves(3) [OF assms])
  show "map_option fst (GetPublicWebKeys lib s now) = map_option (map_sum id snd) (freshKeys lib keys now)"
    by (cases rule: freshKeys_cases [of lib keys now])
      (auto simp: GetPublicWebKeys_def reload_serves [OF assms] dest!: reload_serves(3) [OF assms])
qed

section \<open>Minting with the active key\<close>

definition freshMint ::
    "('k, 'p) cryptoLib \<Rightarrow> ('c, 'key) signLib \<Rightarrow> SigningKey list \<Rightarrow> int \<Rightarrow> 'c \<Rightarrow> (mintError + string) option" where
  "freshMint lib sl keys now claims =
    map_option (\<lambda>r. case r of
        Inl err \<Rightarrow> Inl (KeyError err)
      | Inr (k, _) \<Rightarrow>
          (let alg = vj_Alg (sk_PrivateJwk k) in
           case methodOf alg of
             None \<Rightarrow> Inl (UnsupportedMethod alg)
           | Some method \<Rightarrow>
               (case parseKeyFor sl alg (sk_DecryptedPrivateKey k) of
                  None \<Rightarrow> Inl KeyParseError
                | Some key \<Rightarrow>
                    (case sl_Sign sl method (sk_Kid k) claims key of None \<Rightarrow> Inl SignError | Some token \<Rightarrow> Inr token))))
      (freshKeys lib keys now)"

definition minterInv :: "('c, 'key) signLib \<Rightarrow> 'key minter \<Rightarrow> bool" where
  "minterInv sl mt \<longleftrightarrow>
    (case mt_keyParsed mt of None \<Rightarrow> True | Some key \<Rightarrow> parseKeyFor sl (mt_keyAlg mt) (mt_keyPEM mt) = Some key)"

text \<open>The cached parse is the parse.\<close>

lemma parsedKey_transparent:
  "minterInv sl mt \<Longrightarrow> parsedKey mt alg pem (parseKeyFor sl alg pem) = (r, mt') \<Longrightarrow>
   r = parseKeyFor sl alg pem \<and> minterInv sl mt'"
  by (auto simp: parsedKey_def minterInv_def split: option.splits if_splits)

lemma MintToken_fresh:
  assumes inv: "keyInv lib keys now s" "minterInv sl mt" and now: "now \<notin> boundaries keys"
  shows "map_option fst (MintToken lib sl (s, mt) now claims) = freshMint lib sl keys now claims"
proof (cases rule: freshKeys_cases [of lib keys now])
  case 1
  then have "GetSigningKey lib s now = None" using GetSigningKey_fresh(1) [OF inv(1) now] by simp
  then show ?thesis using 1 by (simp add: MintToken_def freshMint_def)
next
  case (2 err)
  then obtain s' where "GetSigningKey lib s now = Some (Inl err, s')"
    using GetSigningKey_fresh(1) [OF inv(1) now] by auto
  then show ?thesis using 2 by (simp add: MintToken_def freshMint_def)
next
  case (3 k js)
  then obtain s' where g: "GetSigningKey lib s now = Some (Inr (Some k), s')"
    using GetSigningKey_fresh(1) [OF inv(1) now] by auto
  define alg pem where "alg = vj_Alg (sk_PrivateJwk k)" and "pem = sk_DecryptedPrivateKey k"
  obtain r mt' where p: "parsedKey mt alg pem (parseKeyFor sl alg pem) = (r, mt')" by fastforce
  then have "r = parseKeyFor sl alg pem" using parsedKey_transparent [OF inv(2)] by blast
  then show ?thesis
    using 3 g p by (auto simp: MintToken_def freshMint_def Let_def alg_def pem_def split: option.splits)
qed

lemma MintToken_keeps:
  assumes inv: "keyInv lib keys now s" "minterInv sl mt" and t: "t \<le> now"
    and m: "MintToken lib sl (s, mt) t claims = Some (r, s', mt')"
  shows "keyInv lib keys now s' \<and> minterInv sl mt'"
proof -
  have "\<exists>e. reloadKeys lib s t = Some (e, s')"
    using m by (auto simp: MintToken_def GetSigningKey_def Let_def split: option.splits sum.splits prod.splits)
  then have "keyInv lib keys now s'" using reload_any_order [OF inv(1) t] by blast
  moreover have "minterInv sl mt'"
    using m inv(2) parsedKey_transparent [OF inv(2)]
    by (auto simp: MintToken_def Let_def split: option.splits sum.splits prod.splits)
  ultimately show ?thesis ..
qed

definition afterMints ::
    "('k, 'p) cryptoLib \<Rightarrow> ('c, 'key) signLib \<Rightarrow> (int \<times> 'c) list \<Rightarrow> keyService \<times> 'key minter \<Rightarrow>
     keyService \<times> 'key minter" where
  "afterMints lib sl calls st =
    fold (\<lambda>(t, claims) st. case MintToken lib sl st t claims of None \<Rightarrow> st | Some (_, st') \<Rightarrow> st') calls st"

lemma afterMints_inv:
  "\<forall>(t, claims) \<in> set calls. t \<le> now \<Longrightarrow> keyInv lib keys now (fst st) \<Longrightarrow> minterInv sl (snd st) \<Longrightarrow>
   keyInv lib keys now (fst (afterMints lib sl calls st)) \<and> minterInv sl (snd (afterMints lib sl calls st))"
proof (induction calls arbitrary: st)
  case (Cons c calls)
  obtain t claims where c: "c = (t, claims)" by (cases c)
  define st' where "st' = (case MintToken lib sl st t claims of None \<Rightarrow> st | Some (_, st') \<Rightarrow> st')"
  have "keyInv lib keys now (fst st') \<and> minterInv sl (snd st')"
    using Cons.prems c MintToken_keeps [of lib keys now "fst st" sl "snd st" t claims]
    by (cases st) (auto simp: st'_def split: option.splits)
  then show ?case using Cons.IH [of st'] Cons.prems(1) c by (simp add: afterMints_def st'_def)
qed (simp add: afterMints_def)

section \<open>Accepted self-issued tokens\<close>

text \<open>What \<open>jwt.Validate\<close> documents of a token it accepts: the issuer matches when asked for, and the
  required expiry is not past, up to the skew.\<close>

definition validateLaw :: "('ks, 'f) selfLib \<Rightarrow> bool" where
  "validateLaw vl \<longleftrightarrow>
    (\<forall>now iss skew token. vl_Validate vl now iss skew token = None \<longrightarrow>
       (\<forall>i. iss = Some i \<longrightarrow> tk_Issuer token = i) \<and>
       (\<exists>e. tk_Expiration token = Some e \<and> now < e + skew))"

lemma keysByKid_from:
  "mget (foldl (\<lambda>m k. mput (sk_Kid k) k m) m keys) kid = Some key \<Longrightarrow>
   mget m kid = Some key \<or> key \<in> set keys \<and> sk_Kid key = kid"
proof (induction keys arbitrary: m)
  case (Cons k keys)
  then show ?case by (auto simp: gomap split: if_splits dest!: Cons.IH)
qed simp

lemma reload_material: "reloadKeys lib s now = Some (e, s') \<Longrightarrow> ks_keyMaterial s' = ks_keyMaterial s"
  by (auto simp: reloadKeys_def split: if_splits option.splits sum.splits prod.splits)

lemma validator_keys:
  assumes "newKeyMaterialValidator lib publicOf addKey empty1 s now options = Some (Inr v, s')"
  shows "mget (kv_keysByKid v) kid = Some key \<Longrightarrow> key \<in> set (ks_keyMaterial s) \<and> sk_Kid key = kid"
    and "kv_options v = options"
proof -
  obtain keySet s1 keys where k: "CreateKeySet lib publicOf addKey empty1 s now = Some (Inr keySet, s1)"
    and g: "GetSigningKeys lib s1 now = Some (Inr keys, s')"
    and v: "v = \<lparr>kv_options = options, kv_keySet = keySet, kv_keysByKid = foldl (\<lambda>m k. mput (sk_Kid k) k m) [] keys\<rparr>"
    using assms by (auto simp: newKeyMaterialValidator_def split: option.splits sum.splits)
  have m1: "ks_keyMaterial s1 = ks_keyMaterial s"
    using k reload_material [of lib s now] by (auto simp: CreateKeySet_def GetSigningKeys_def split: option.splits sum.splits)
  have "keys = ks_keyMaterial s1"
    using g reload_material [of lib s1 now] by (auto simp: GetSigningKeys_def split: option.splits sum.splits)
  then show "mget (kv_keysByKid v) kid = Some key \<Longrightarrow> key \<in> set (ks_keyMaterial s) \<and> sk_Kid key = kid"
    and "kv_options v = options"
    using v m1 keysByKid_from [of "[]" keys kid key] by auto
qed

text \<open>The instant a token counts as issued.\<close>

definition issuedAt :: "int \<Rightarrow> 'f jwxToken \<Rightarrow> int" where
  "issuedAt now token =
    (case tk_IssuedAt token of None \<Rightarrow> now | Some t \<Rightarrow> if t = zeroTime then now else t)"

lemma window_checked:
  assumes "checkSigningKeyWindow vl v now accessToken token = None"
  shows "\<exists>kid rest key. vl_Kids vl accessToken = Inr (kid # rest) \<and> mget (kv_keysByKid v) kid = Some key \<and>
    sk_NotBefore key - clockSkew (kv_options v) \<le> issuedAt now token \<and>
    issuedAt now token \<le> sk_NotAfter key + clockSkew (kv_options v)"
  using assms
  by (auto simp: checkSigningKeyWindow_def issuedAt_def Let_def
      split: sum.splits list.splits option.splits if_splits)

section \<open>Sample\<close>

definition sampleKey :: "int \<Rightarrow> int \<Rightarrow> string \<Rightarrow> SigningKey" where
  "sampleKey nb na kid =
    \<lparr>sk_PrivateKey = samplePem \<lparr>pb_Type = ''PRIVATE KEY'', pb_Headers = [], pb_Bytes = kid\<rparr>,
     sk_DecryptedPrivateKey = [], sk_PublicKey = [], sk_NotBefore = nb, sk_NotAfter = na, sk_Password = [],
     sk_Kid = kid,
     sk_PublicJwk = \<lparr>pj_Alg = ''ES256'', pj_Crv = [], pj_Kid = kid, pj_Kty = [], pj_Use = [], pj_X = [], pj_Y = [],
       pj_E = [], pj_N = []\<rparr>,
     sk_PrivateJwk = \<lparr>vj_Alg = ''ES256'', vj_Crv = [], vj_D = [], vj_Kid = kid, vj_Kty = [], vj_Use = [], vj_X = [],
       vj_Y = [], vj_E = [], vj_N = [], vj_P = [], vj_Q = [], vj_Dp = [], vj_Dq = [], vj_Qi = []\<rparr>\<rparr>"

definition sampleKeys :: "SigningKey list" where
  "sampleKeys = [sampleKey 0 10 ''a'', sampleKey 5 20 ''b'']"

definition sampleSign :: "(string, string) signLib" where
  "sampleSign = \<lparr>sl_ParseEd = (\<lambda>_. None), sl_ParseEC = Some, sl_ParseRSA = (\<lambda>_. None),
     sl_Sign = (\<lambda>m kid claims key. Some (kid @ claims))\<rparr>"

lemma sample_boundaries: "boundaries sampleKeys = {0, 5, 10, 20}"
  by (auto simp: boundaries_def sampleKeys_def sampleKey_def)

lemma sample_decrypt:
  "DecryptPEM sampleCrypto (sk_PrivateKey (sampleKey nb na kid)) (sk_Password (sampleKey nb na kid)) =
   ok (sk_PrivateKey (sampleKey nb na kid))"
  by (simp add: DecryptPEM_def sampleCrypto_def sampleKey_def samplePem_back PEMType_def)

definition sampleSelfToken :: "unit jwxToken" where
  "sampleSelfToken = \<lparr>tk_Issuer = ''me'', tk_Subject = ''s'', tk_Audience = [], tk_Expiration = Some 30,
     tk_IssuedAt = Some 12, tk_Claims = []\<rparr>"

definition sampleSelf :: "(SigningKey list, unit) selfLib" where
  "sampleSelf =
    \<lparr>vl_ParseVerified = (\<lambda>ks s. if s = ''t'' then Inr sampleSelfToken else Inl ''bad''),
     vl_ParseUnverified = (\<lambda>s. Inl ''bad''),
     vl_Validate = (\<lambda>now iss skew token.
        if (case iss of None \<Rightarrow> True | Some i \<Rightarrow> tk_Issuer token = i) \<and>
           (case tk_Expiration token of None \<Rightarrow> False | Some e \<Rightarrow> now < e + skew)
        then None else Some ''invalid''),
     vl_Kids = (\<lambda>s. Inr [''b''])\<rparr>"

definition sampleOptions :: JWTValidatorOptions where
  "sampleOptions = \<lparr>vo_ClockSkewMinutes = 0, vo_ValidateSignature = None, vo_ValidateIssuer = None, vo_Issuer = ''me'',
     vo_AltJWKSUrl = [], vo_AltTokenEndpointUrl = []\<rparr>"

definition sampleSelfValidator :: "SigningKey list kmValidator" where
  "sampleSelfValidator = \<lparr>kv_options = sampleOptions, kv_keySet = [],
     kv_keysByKid = [(''a'', sampleKey 0 10 ''a''), (''b'', sampleKey 5 20 ''b'')]\<rparr>"

definition sampleService :: keyService where
  "sampleService =
    (newKeyService sampleKeys)\<lparr>ks_signingKey := Some (sampleKey 5 20 ''b''), ks_nextFetchTime := 20\<rparr>"

lemma sample_validator:
  "newKeyMaterialValidator sampleCrypto (\<lambda>_. Some ()) (\<lambda>ks _. ks) [] sampleService 12 sampleOptions =
    Some (Inr sampleSelfValidator, sampleService)"
  by (simp add: newKeyMaterialValidator_def CreateKeySet_def GetSigningKeys_def reloadKeys_def reloadDue_def
      sampleService_def newKeyService_def sampleKeys_def sampleSelfValidator_def) (simp add: sampleKey_def)

lemma sample_accepted:
  "tryValidators [kmValidateAccessToken sampleSelf sampleSelfValidator id]
     \<lparr>g_gates = [], g_min = 0, g_env = 12\<rparr>
     \<lparr>pt_Token = sampleSelfToken, pt_JWSMessage = \<lparr>jm_Kids = [''b''], jm_Payload = []\<rparr>, pt_AccessToken = ''t''\<rparr> =
   Some (Inr \<lparr>pt_Token = sampleSelfToken, pt_JWSMessage = \<lparr>jm_Kids = [''b''], jm_Payload = []\<rparr>, pt_AccessToken = ''t''\<rparr>,
     \<lparr>g_gates = [], g_min = 0, g_env = 12\<rparr>)"
  by (simp add: kmValidateAccessToken_def ParseAccessTokenRaw_def checkSigningKeyWindow_def Let_def
      sampleSelf_def sampleSelfValidator_def sampleOptions_def sampleSelfToken_def shouldValidateSignature_def
      shouldValidateIssuer_def clockSkew_def sampleKey_def zeroTime_def second_def)

section \<open>Properties\<close>

text \<open>
  C25: After any calls at earlier instants, in any order, the key service hands out at \<open>now\<close> exactly what a
  service that recomputed everything would: the last active key, decrypted, and the public keys of all
  active ones, or the error when there is none or it does not decrypt. The instants that are themselves a
  \<open>NotBefore\<close> or \<open>NotAfter\<close> are excepted.
\<close>
theorem active_keys_served:
  assumes "\<forall>t \<in> set ts. t \<le> now" and "now \<notin> boundaries keys"
  shows "map_option fst (GetSigningKey lib (afterCalls lib ts (newKeyService keys)) now) =
      map_option (map_sum id (Some \<circ> fst)) (freshKeys lib keys now) \<and>
    map_option fst (GetPublicWebKeys lib (afterCalls lib ts (newKeyService keys)) now) =
      map_option (map_sum id snd) (freshKeys lib keys now)"
  using GetSigningKey_fresh [OF afterCalls_inv [OF assms(1) keyInv_new] assms(2)] by blast

theorem active_keys_served_witness:
  "map_option fst (GetPublicWebKeys sampleCrypto (afterCalls sampleCrypto [1, 7] (newKeyService sampleKeys)) 12) =
   Some (Inr [sk_PublicJwk (sampleKey 5 20 ''b'')])"
proof -
  have "12 \<notin> boundaries sampleKeys" by (simp add: sample_boundaries)
  from active_keys_served [OF _ this, of "[1, 7]" sampleCrypto] show ?thesis
    by (simp add: freshKeys_def sampleKeys_def isActive_def sample_decrypt Let_def) (simp add: sampleKey_def)
qed





end
