(* ===== verification/DI_Descriptors.thy ===== *)
theory DI_Descriptors
  imports Prelude
begin

text \<open>
  Registration in the dependency injection container (\<open>.github/skills/fluffy-dozm-di\<close>): reflected types,
  service descriptors and their checks (\<open>descriptor.go\<close>), the container builder (\<open>builder.go\<close>), and the
  descriptor index of the call site factory (\<open>callsite.go\<close>, \<open>descriptorCacheItem\<close> and \<open>populate\<close>).

  Go's method sets and assignability are the record \<open>typeEnv\<close>. A panic is \<open>None\<close>.
\<close>

section \<open>Types\<close>

datatype rtype =
    BasicT string string
  | StructT string string
  | InterfaceT string string
  | PtrT rtype
  | SliceT rtype

datatype tkind = KBasic | KStruct | KInterface | KPtr | KSlice

fun kindT :: "rtype \<Rightarrow> tkind" where
  "kindT (BasicT _ _) = KBasic"
| "kindT (StructT _ _) = KStruct"
| "kindT (InterfaceT _ _) = KInterface"
| "kindT (PtrT _) = KPtr"
| "kindT (SliceT _) = KSlice"

text \<open>\<open>Elem\<close> of a pointer or a slice.\<close>

fun elemT :: "rtype \<Rightarrow> rtype" where
  "elemT (PtrT t) = t"
| "elemT (SliceT t) = t"
| "elemT t = t"

fun pkgPath :: "rtype \<Rightarrow> string" where
  "pkgPath (BasicT p _) = p"
| "pkgPath (StructT p _) = p"
| "pkgPath (InterfaceT p _) = p"
| "pkgPath _ = []"

fun nameT :: "rtype \<Rightarrow> string" where
  "nameT (BasicT _ n) = n"
| "nameT (StructT _ n) = n"
| "nameT (InterfaceT _ n) = n"
| "nameT _ = []"

record typeEnv =
  te_Implements :: "rtype \<Rightarrow> rtype \<Rightarrow> bool"
  te_AssignableTo :: "rtype \<Rightarrow> rtype \<Rightarrow> bool"

definition errorType :: rtype where "errorType = InterfaceT [] ''error''"

definition IsErrorType :: "typeEnv \<Rightarrow> rtype \<Rightarrow> bool" where
  "IsErrorType te t = te_AssignableTo te t errorType"

definition ContainerType :: rtype where "ContainerType = InterfaceT ''di'' ''Container''"

definition ScopeFactoryType :: rtype where "ScopeFactoryType = InterfaceT ''di'' ''ScopeFactory''"

definition IsServiceType :: rtype where "IsServiceType = InterfaceT ''di'' ''IsService''"

text \<open>Values: an object of a dynamic type with an identity, a scope (as a container), the call site factory, a slice, and nil.\<close>

datatype val = Obj rtype nat | ScopeVal nat | FactoryVal | SliceVal rtype "val list" | NilVal

section \<open>Descriptors\<close>

datatype Lifetime = Lifetime_Singleton | Lifetime_Scoped | Lifetime_Transient

text \<open>A constructor function is known by an identity; \<open>ci_IsFunc\<close> says its reflected kind is \<open>Func\<close>.\<close>

record ConstructorInfo =
  ci_FuncValue :: nat
  ci_IsFunc :: bool
  ci_In :: "rtype list"
  ci_Out :: "rtype list"

text \<open>\<open>ds_Id\<close> is the pointer. A factory is known by an identity.\<close>

record Descriptor =
  ds_Id :: nat
  ds_ServiceType :: rtype
  ds_Lifetime :: Lifetime
  ds_Ctor :: "ConstructorInfo option"
  ds_Instance :: "val option"
  ds_Factory :: "nat option"
  ds_ImplementedInterfaceTypes :: "rtype list"
  ds_LookupKeys :: "string list"
  ds_Metadata :: "(string, string) gomap"

definition derefT :: "rtype \<Rightarrow> rtype" where
  "derefT t = (if kindT t = KPtr then elemT t else t)"

definition validateServiceType :: "typeEnv \<Rightarrow> rtype \<Rightarrow> rtype list \<Rightarrow> unit option" where
  "validateServiceType te serviceType implemented =
    (if implemented = [] then Some ()
     else if kindT serviceType \<noteq> KPtr then None
     else if kindT (elemT serviceType) \<noteq> KStruct then None
     else if list_all (\<lambda>t. kindT (derefT t) = KInterface \<and> te_Implements te serviceType (derefT t)) implemented
     then Some () else None)"

text \<open>The dynamic type of a value; nil has none.\<close>

fun typeOfVal :: "val \<Rightarrow> rtype option" where
  "typeOfVal (Obj t _) = Some t"
| "typeOfVal (ScopeVal _) = Some (PtrT (StructT ''di'' ''ContainerEngineScope''))"
| "typeOfVal FactoryVal = Some (PtrT (StructT ''di'' ''CallSiteFactory''))"
| "typeOfVal (SliceVal e _) = Some (SliceT e)"
| "typeOfVal NilVal = None"

text \<open>\<open>False\<close> is the error; a nil instance panics in \<open>AssignableTo\<close> and ends as the same panic of the caller.\<close>

definition instanceAssignable :: "typeEnv \<Rightarrow> val \<Rightarrow> rtype \<Rightarrow> bool" where
  "instanceAssignable te inst t =
    (case typeOfVal inst of None \<Rightarrow> False | Some d \<Rightarrow> te_AssignableTo te d t)"

definition checkConstructor :: "typeEnv \<Rightarrow> ConstructorInfo \<Rightarrow> rtype \<Rightarrow> bool" where
  "checkConstructor te ctor serviceType =
    (if \<not> ci_IsFunc ctor then False
     else
       (case ci_Out ctor of
          [o1] \<Rightarrow> te_AssignableTo te o1 serviceType
        | [o1, o2] \<Rightarrow> te_AssignableTo te o1 serviceType \<and> IsErrorType te o2
        | _ \<Rightarrow> False))"

definition NewInstanceDescriptor :: "typeEnv \<Rightarrow> nat \<Rightarrow> rtype \<Rightarrow> val \<Rightarrow> rtype list \<Rightarrow> Descriptor option" where
  "NewInstanceDescriptor te ident serviceType inst implemented =
    (if \<not> instanceAssignable te inst serviceType then None
     else
       map_option (\<lambda>_.
         \<lparr>ds_Id = ident, ds_ServiceType = serviceType, ds_Lifetime = Lifetime_Singleton, ds_Ctor = None,
          ds_Instance = Some inst, ds_Factory = None, ds_ImplementedInterfaceTypes = map derefT implemented,
          ds_LookupKeys = [], ds_Metadata = []\<rparr>) (validateServiceType te serviceType implemented))"

text \<open>\<open>newConstructorInfo\<close> panics unless it is given a function.\<close>

definition NewConstructorDescriptor ::
    "typeEnv \<Rightarrow> nat \<Rightarrow> rtype \<Rightarrow> Lifetime \<Rightarrow> ConstructorInfo \<Rightarrow> rtype list \<Rightarrow> Descriptor option" where
  "NewConstructorDescriptor te ident serviceType lifetime ctor implemented =
    (if \<not> ci_IsFunc ctor then None
     else if \<not> checkConstructor te ctor serviceType then None
     else
       map_option (\<lambda>_.
         \<lparr>ds_Id = ident, ds_ServiceType = serviceType, ds_Lifetime = lifetime, ds_Ctor = Some ctor,
          ds_Instance = None, ds_Factory = None, ds_ImplementedInterfaceTypes = map derefT implemented,
          ds_LookupKeys = [], ds_Metadata = []\<rparr>) (validateServiceType te serviceType implemented))"

definition NewFactoryDescriptor :: "nat \<Rightarrow> rtype \<Rightarrow> Lifetime \<Rightarrow> nat \<Rightarrow> Descriptor" where
  "NewFactoryDescriptor ident serviceType lifetime factory =
    \<lparr>ds_Id = ident, ds_ServiceType = serviceType, ds_Lifetime = lifetime, ds_Ctor = None, ds_Instance = None,
     ds_Factory = Some factory, ds_ImplementedInterfaceTypes = [], ds_LookupKeys = [], ds_Metadata = []\<rparr>"

definition hashTypeAndString :: "rtype \<Rightarrow> string \<Rightarrow> string" where
  "hashTypeAndString t s = pkgPath (derefT t) @ ''/'' @ nameT (derefT t) @ ''-'' @ s"

text \<open>The loop shared by the four \<open>Add...WithLookupKeys\<close> functions.\<close>

definition withLookupKeys ::
    "Descriptor \<Rightarrow> string list \<Rightarrow> (string, string) gomap \<Rightarrow> rtype list \<Rightarrow> Descriptor" where
  "withLookupKeys d lookupKeys metadata implemented =
    d\<lparr>ds_Metadata := metadata,
      ds_LookupKeys := ds_LookupKeys d @
        concat (map (\<lambda>key. map (\<lambda>t. hashTypeAndString t key) (ds_ServiceType d # implemented)) lookupKeys)\<rparr>"

section \<open>The builder\<close>

type_synonym containerBuilder = "Descriptor list"

definition builderAdd :: "containerBuilder \<Rightarrow> Descriptor list \<Rightarrow> containerBuilder" where
  "builderAdd b d = b @ d"

text \<open>The service type is the type argument of the generic functions; \<open>None\<close> is the panic of a failed check.\<close>

definition AddTransient :: "typeEnv \<Rightarrow> containerBuilder \<Rightarrow> nat \<Rightarrow> rtype \<Rightarrow> ConstructorInfo \<Rightarrow> rtype list \<Rightarrow> containerBuilder option" where
  "AddTransient te cb ident T ctor implemented =
    map_option (\<lambda>d. builderAdd cb [d]) (NewConstructorDescriptor te ident T Lifetime_Transient ctor implemented)"

definition AddScoped :: "typeEnv \<Rightarrow> containerBuilder \<Rightarrow> nat \<Rightarrow> rtype \<Rightarrow> ConstructorInfo \<Rightarrow> rtype list \<Rightarrow> containerBuilder option" where
  "AddScoped te cb ident T ctor implemented =
    map_option (\<lambda>d. builderAdd cb [d]) (NewConstructorDescriptor te ident T Lifetime_Scoped ctor implemented)"

definition AddSingleton :: "typeEnv \<Rightarrow> containerBuilder \<Rightarrow> nat \<Rightarrow> rtype \<Rightarrow> ConstructorInfo \<Rightarrow> rtype list \<Rightarrow> containerBuilder option" where
  "AddSingleton te cb ident T ctor implemented =
    map_option (\<lambda>d. builderAdd cb [d]) (NewConstructorDescriptor te ident T Lifetime_Singleton ctor implemented)"

definition AddInstance :: "typeEnv \<Rightarrow> containerBuilder \<Rightarrow> nat \<Rightarrow> rtype \<Rightarrow> val \<Rightarrow> rtype list \<Rightarrow> containerBuilder option" where
  "AddInstance te cb ident T inst implemented =
    map_option (\<lambda>d. builderAdd cb [d]) (NewInstanceDescriptor te ident T inst implemented)"

definition AddTransientWithLookupKeys ::
    "typeEnv \<Rightarrow> containerBuilder \<Rightarrow> nat \<Rightarrow> rtype \<Rightarrow> ConstructorInfo \<Rightarrow> string list \<Rightarrow> (string, string) gomap \<Rightarrow> rtype list \<Rightarrow>
     containerBuilder option" where
  "AddTransientWithLookupKeys te cb ident T ctor lookupKeys metadata implemented =
    map_option (\<lambda>d. builderAdd cb [withLookupKeys d lookupKeys metadata implemented])
      (NewConstructorDescriptor te ident T Lifetime_Transient ctor implemented)"

definition AddScopedWithLookupKeys ::
    "typeEnv \<Rightarrow> containerBuilder \<Rightarrow> nat \<Rightarrow> rtype \<Rightarrow> ConstructorInfo \<Rightarrow> string list \<Rightarrow> (string, string) gomap \<Rightarrow> rtype list \<Rightarrow>
     containerBuilder option" where
  "AddScopedWithLookupKeys te cb ident T ctor lookupKeys metadata implemented =
    map_option (\<lambda>d. builderAdd cb [withLookupKeys d lookupKeys metadata implemented])
      (NewConstructorDescriptor te ident T Lifetime_Scoped ctor implemented)"

definition AddSingletonWithLookupKeys ::
    "typeEnv \<Rightarrow> containerBuilder \<Rightarrow> nat \<Rightarrow> rtype \<Rightarrow> ConstructorInfo \<Rightarrow> string list \<Rightarrow> (string, string) gomap \<Rightarrow> rtype list \<Rightarrow>
     containerBuilder option" where
  "AddSingletonWithLookupKeys te cb ident T ctor lookupKeys metadata implemented =
    map_option (\<lambda>d. builderAdd cb [withLookupKeys d lookupKeys metadata implemented])
      (NewConstructorDescriptor te ident T Lifetime_Singleton ctor implemented)"

definition AddInstanceWithLookupKeys ::
    "typeEnv \<Rightarrow> containerBuilder \<Rightarrow> nat \<Rightarrow> rtype \<Rightarrow> val \<Rightarrow> string list \<Rightarrow> (string, string) gomap \<Rightarrow> rtype list \<Rightarrow>
     containerBuilder option" where
  "AddInstanceWithLookupKeys te cb ident T inst lookupKeys metadata implemented =
    map_option (\<lambda>d. builderAdd cb [withLookupKeys d lookupKeys metadata implemented])
      (NewInstanceDescriptor te ident T inst implemented)"

definition descriptorImplements :: "Descriptor \<Rightarrow> rtype \<Rightarrow> bool" where
  "descriptorImplements d t = (t \<in> set (ds_ImplementedInterfaceTypes d))"

text \<open>\<open>Remove\<close> compacts the slice in place; what follows the returned length is not reachable from it.\<close>

fun compactLoop :: "rtype \<Rightarrow> Descriptor list \<Rightarrow> nat \<Rightarrow> Descriptor list \<Rightarrow> Descriptor list \<times> nat" where
  "compactLoop t [] j slots = (slots, j)"
| "compactLoop t (d # ds) j slots =
    (if ds_ServiceType d = t \<or> descriptorImplements d t then compactLoop t ds j slots
     else compactLoop t ds (Suc j) (slots[j := d]))"

definition builderRemove :: "containerBuilder \<Rightarrow> rtype \<Rightarrow> containerBuilder" where
  "builderRemove b t = (case compactLoop t b 0 b of (slots, j) \<Rightarrow> take j slots)"

fun builderContains :: "containerBuilder \<Rightarrow> rtype \<Rightarrow> bool" where
  "builderContains [] t = False"
| "builderContains (d # ds) t =
    (if ds_ServiceType d = t \<or> descriptorImplements d t then True else builderContains ds t)"

text \<open>\<open>detectLifetimeConflicts\<close>: the types with more than one lifetime; the code panics when there is one.\<close>

definition lifetimesOf :: "Descriptor list \<Rightarrow> (rtype, Lifetime list) gomap" where
  "lifetimesOf ds =
    foldl (\<lambda>m d.
      let m1 = (if mhas m (ds_ServiceType d) then m else mput (ds_ServiceType d) [] m) in
      mput (ds_ServiceType d) (sadd (ds_Lifetime d) (the (mget m1 (ds_ServiceType d)))) m1) [] ds"

definition detectLifetimeConflicts :: "Descriptor list \<Rightarrow> rtype list" where
  "detectLifetimeConflicts ds = map fst (filter (\<lambda>(t, lt). length lt > 1) (lifetimesOf ds))"

section \<open>The descriptor index\<close>

record descriptorCacheItem =
  dci_item :: "Descriptor option"
  dci_items :: "Descriptor list"

definition emptyItem :: descriptorCacheItem where
  "emptyItem = \<lparr>dci_item = None, dci_items = []\<rparr>"

definition dciLast :: "descriptorCacheItem \<Rightarrow> Descriptor option" where
  "dciLast dci =
    (if length (dci_items dci) > 0 then Some (dci_items dci ! (length (dci_items dci) - 1)) else dci_item dci)"

definition dciNum :: "descriptorCacheItem \<Rightarrow> nat" where
  "dciNum dci = (if dci_item dci = None then 0 else 1 + length (dci_items dci))"

definition dciGet :: "descriptorCacheItem \<Rightarrow> nat \<Rightarrow> Descriptor option" where
  "dciGet dci index =
    (if index \<ge> dciNum dci then None
     else if index = 0 then dci_item dci
     else Some (dci_items dci ! (index - 1)))"

definition dciGetSlot :: "descriptorCacheItem \<Rightarrow> Descriptor \<Rightarrow> nat option" where
  "dciGetSlot dci descriptor =
    (if map_option ds_Id (dci_item dci) = Some (ds_Id descriptor) then Some (dciNum dci - 1)
     else
       map_option (\<lambda>i. length (dci_items dci) - (i + 1))
         (find (\<lambda>i. ds_Id (dci_items dci ! i) = ds_Id descriptor) [0..<length (dci_items dci)]))"

definition dciAdd :: "descriptorCacheItem \<Rightarrow> Descriptor \<Rightarrow> descriptorCacheItem" where
  "dciAdd dci descriptor =
    (if dci_item dci = None then \<lparr>dci_item = Some descriptor, dci_items = []\<rparr>
     else \<lparr>dci_item = dci_item dci, dci_items = dci_items dci @ [descriptor]\<rparr>)"

record descriptorIndex =
  ix_lookup :: "(rtype, descriptorCacheItem) gomap"
  ix_keyLookup :: "(string, descriptorCacheItem) gomap"

definition addTo :: "('k, descriptorCacheItem) gomap \<Rightarrow> 'k \<Rightarrow> Descriptor \<Rightarrow> ('k, descriptorCacheItem) gomap" where
  "addTo m k d = mput k (dciAdd (case mget m k of None \<Rightarrow> emptyItem | Some i \<Rightarrow> i) d) m"

definition populateOne :: "descriptorIndex \<Rightarrow> Descriptor \<Rightarrow> descriptorIndex" where
  "populateOne ix descriptor =
    ix\<lparr>ix_lookup := foldl (\<lambda>m t. addTo m t descriptor)
         (addTo (ix_lookup ix) (ds_ServiceType descriptor) descriptor) (ds_ImplementedInterfaceTypes descriptor),
       ix_keyLookup := foldl (\<lambda>m k. addTo m k descriptor) (ix_keyLookup ix) (ds_LookupKeys descriptor)\<rparr>"

definition populate :: "Descriptor list \<Rightarrow> descriptorIndex" where
  "populate descriptors = foldl populateOne \<lparr>ix_lookup = [], ix_keyLookup = []\<rparr> descriptors"

section \<open>Builder lemmas\<close>

abbreviation provides :: "Descriptor \<Rightarrow> rtype \<Rightarrow> bool" where
  "provides d t \<equiv> ds_ServiceType d = t \<or> descriptorImplements d t"

lemma compactLoop_filter:
  "j + length ds \<le> length slots \<Longrightarrow>
   take (snd (compactLoop t ds j slots)) (fst (compactLoop t ds j slots)) =
     take j slots @ filter (\<lambda>d. \<not> provides d t) ds"
proof (induction t ds j slots rule: compactLoop.induct)
  case (2 t d ds j slots)
  then show ?case by (auto simp: take_update_swap take_Suc_conv_app_nth list_update_append)
qed simp

lemma builderRemove_filter: "builderRemove b t = filter (\<lambda>d. \<not> provides d t) b"
  using compactLoop_filter [of 0 b b t] by (simp add: builderRemove_def case_prod_beta)

lemma builderContains_iff: "builderContains b t \<longleftrightarrow> (\<exists>d \<in> set b. provides d t)"
  by (induction b) auto

text \<open>The recorded lifetimes of a type are those of its descriptors, each once.\<close>

lemma lifetimesOf_snoc:
  "lifetimesOf (ds @ [d]) =
    (let m = lifetimesOf ds;
         m1 = (if mhas m (ds_ServiceType d) then m else mput (ds_ServiceType d) [] m) in
     mput (ds_ServiceType d) (sadd (ds_Lifetime d) (the (mget m1 (ds_ServiceType d)))) m1)"
  by (simp only: lifetimesOf_def foldl_append foldl_Cons foldl_Nil Let_def)

lemma mget_lifetimesOf_snoc:
  "mget (lifetimesOf (ds @ [d])) t =
    (if t = ds_ServiceType d
     then Some (sadd (ds_Lifetime d) (case mget (lifetimesOf ds) t of None \<Rightarrow> [] | Some lt \<Rightarrow> lt))
     else mget (lifetimesOf ds) t)"
  by (auto simp: lifetimesOf_snoc Let_def gomap split: option.splits)

lemma wf_lifetimesOf: "wf_map (lifetimesOf ds)"
  by (induction ds rule: rev_induct) (simp_all add: lifetimesOf_snoc Let_def gomap, simp add: lifetimesOf_def)

lemma lifetimesOf_spec:
  "case mget (lifetimesOf ds) t of
     None \<Rightarrow> \<forall>d \<in> set ds. ds_ServiceType d \<noteq> t
   | Some lt \<Rightarrow> distinct lt \<and> set lt = ds_Lifetime ` {d \<in> set ds. ds_ServiceType d = t}"
proof (induction ds rule: rev_induct)
  case (snoc d ds)
  then show ?case by (auto simp: mget_lifetimesOf_snoc split: option.splits if_splits)
qed (simp add: lifetimesOf_def)

lemma conflicts_spec:
  "t \<in> set (detectLifetimeConflicts ds) \<longleftrightarrow>
   (\<exists>d1 \<in> set ds. \<exists>d2 \<in> set ds. ds_ServiceType d1 = t \<and> ds_ServiceType d2 = t \<and> ds_Lifetime d1 \<noteq> ds_Lifetime d2)"
proof -
  have "t \<in> set (detectLifetimeConflicts ds) \<longleftrightarrow> (\<exists>lt. (t, lt) \<in> set (lifetimesOf ds) \<and> length lt > 1)"
    unfolding detectLifetimeConflicts_def by (induction "lifetimesOf ds") (auto simp: image_iff)
  also have "\<dots> \<longleftrightarrow> (\<exists>lt. mget (lifetimesOf ds) t = Some lt \<and> length lt > 1)"
    unfolding mget_in_set [OF wf_lifetimesOf] ..
  also have "\<dots> \<longleftrightarrow> (\<exists>l1 l2. l1 \<noteq> l2 \<and> {l1, l2} \<subseteq> ds_Lifetime ` {d \<in> set ds. ds_ServiceType d = t})"
  proof (cases "mget (lifetimesOf ds) t")
    case None
    then show ?thesis using lifetimesOf_spec [of ds t] by auto
  next
    case (Some lt)
    then have lt: "distinct lt" "set lt = ds_Lifetime ` {d \<in> set ds. ds_ServiceType d = t}"
      using lifetimesOf_spec [of ds t] by auto
    have "length lt > 1 \<longleftrightarrow> (\<exists>l1 l2. l1 \<noteq> l2 \<and> {l1, l2} \<subseteq> set lt)"
      using lt(1) by (cases lt; cases "tl lt") auto
    then show ?thesis using Some lt(2) by simp
  qed
  also have "\<dots> \<longleftrightarrow> (\<exists>d1 \<in> set ds. \<exists>d2 \<in> set ds. ds_ServiceType d1 = t \<and> ds_ServiceType d2 = t \<and> ds_Lifetime d1 \<noteq> ds_Lifetime d2)"
    by auto
  finally show ?thesis .
qed

section \<open>The index as lists\<close>

text \<open>
  What the call site factory needs of the descriptors registered for a type: appending, the last one, and a
  slot number for each, counted from the last, from which the descriptor is found again.
\<close>

locale descriptor_list =
  fixes inv :: "'i \<Rightarrow> bool" and listOf :: "'i \<Rightarrow> 'd list"
    and empty1 :: 'i and add :: "'i \<Rightarrow> 'd \<Rightarrow> 'i" and last1 :: "'i \<Rightarrow> 'd option" and num :: "'i \<Rightarrow> nat"
    and get :: "'i \<Rightarrow> nat \<Rightarrow> 'd option"
  assumes inv_empty: "inv empty1" and list_empty: "listOf empty1 = []"
    and inv_add: "inv i \<Longrightarrow> inv (add i d)" and list_add: "inv i \<Longrightarrow> listOf (add i d) = listOf i @ [d]"
    and last_list: "inv i \<Longrightarrow> last1 i = (if listOf i = [] then None else Some (last (listOf i)))"
    and num_list: "inv i \<Longrightarrow> num i = length (listOf i)"
    and get_list: "inv i \<Longrightarrow> get i n = (if n < length (listOf i) then Some (listOf i ! n) else None)"
begin

lemma last_of_add: "inv i \<Longrightarrow> last1 (add i d) = Some d"
  by (simp add: last_list inv_add list_add)

lemma num_of_add: "inv i \<Longrightarrow> num (add i d) = Suc (num i)"
  by (simp add: num_list inv_add list_add)

lemma last_is_slot_0: "inv i \<Longrightarrow> num i > 0 \<Longrightarrow> get i (num i - 1) = last1 i"
  by (auto simp: num_list get_list last_list last_conv_nth)

lemma fold_add: "inv i \<Longrightarrow> inv (foldl add i ds) \<and> listOf (foldl add i ds) = listOf i @ ds"
  by (induction ds arbitrary: i) (simp_all add: inv_add list_add)

end

definition itemInv :: "descriptorCacheItem \<Rightarrow> bool" where
  "itemInv dci \<longleftrightarrow> (dci_item dci = None \<longrightarrow> dci_items dci = [])"

definition itemList :: "descriptorCacheItem \<Rightarrow> Descriptor list" where
  "itemList dci = (case dci_item dci of None \<Rightarrow> [] | Some d \<Rightarrow> d # dci_items dci)"

interpretation dci: descriptor_list itemInv itemList emptyItem dciAdd dciLast dciNum dciGet
proof unfold_locales
  fix i :: descriptorCacheItem and d :: Descriptor and n :: nat
  show "itemInv emptyItem" "itemList emptyItem = []" by (simp_all add: itemInv_def itemList_def emptyItem_def)
  assume inv: "itemInv i"
  show "itemInv (dciAdd i d)" by (simp add: itemInv_def dciAdd_def)
  show "itemList (dciAdd i d) = itemList i @ [d]"
    using inv by (auto simp: itemInv_def itemList_def dciAdd_def split: option.splits)
  show "dciLast i = (if itemList i = [] then None else Some (last (itemList i)))"
    using inv by (auto simp: itemInv_def itemList_def dciLast_def last_conv_nth split: option.splits)
  show "dciNum i = length (itemList i)"
    by (auto simp: itemList_def dciNum_def split: option.splits)
  show "dciGet i n = (if n < length (itemList i) then Some (itemList i ! n) else None)"
    by (auto simp: itemList_def dciGet_def dciNum_def nth_Cons' split: option.splits)
qed

text \<open>The slot of a descriptor leads back to it.\<close>

lemma slot_get:
  assumes inv: "itemInv i" and slot: "dciGetSlot i d = Some n"
  shows "n < dciNum i \<and> (\<exists>d'. dciGet i (dciNum i - 1 - n) = Some d' \<and> ds_Id d' = ds_Id d)"
proof (cases "map_option ds_Id (dci_item i) = Some (ds_Id d)")
  case True
  then show ?thesis using slot by (auto simp: dciGetSlot_def dciGet_def dciNum_def)
next
  case False
  have "map_option (\<lambda>k. length (dci_items i) - (k + 1))
      (find (\<lambda>k. ds_Id (dci_items i ! k) = ds_Id d) [0..<length (dci_items i)]) = Some n"
    using slot unfolding dciGetSlot_def if_not_P [OF False] .
  then obtain k where k: "k < length (dci_items i)" "ds_Id (dci_items i ! k) = ds_Id d"
      "n = length (dci_items i) - (k + 1)"
    by (auto simp: find_Some_iff)
  moreover have "dci_item i \<noteq> None" using inv k(1) by (auto simp: itemInv_def)
  ultimately show ?thesis by (auto simp: dciGet_def dciNum_def)
qed

text \<open>The descriptors an index holds for a key.\<close>

definition itemsAt :: "('k, descriptorCacheItem) gomap \<Rightarrow> 'k \<Rightarrow> Descriptor list" where
  "itemsAt m k = (case mget m k of None \<Rightarrow> [] | Some i \<Rightarrow> itemList i)"

definition indexInv :: "('k, descriptorCacheItem) gomap \<Rightarrow> bool" where
  "indexInv m \<longleftrightarrow> (\<forall>k i. mget m k = Some i \<longrightarrow> itemInv i \<and> itemList i \<noteq> [])"

text \<open>What registration means: each descriptor in order, once for each time it lists the key.\<close>

definition registered :: "(Descriptor \<Rightarrow> 'k list) \<Rightarrow> Descriptor list \<Rightarrow> 'k \<Rightarrow> Descriptor list" where
  "registered keysOf ds k = concat (map (\<lambda>d. replicate (count_list (keysOf d) k) d) ds)"

abbreviation typesOf :: "Descriptor \<Rightarrow> rtype list" where
  "typesOf d \<equiv> ds_ServiceType d # ds_ImplementedInterfaceTypes d"

lemma addTo_items:
  assumes "indexInv m"
  shows "indexInv (addTo m k d)" "itemsAt (addTo m k d) k' = itemsAt m k' @ (if k' = k then [d] else [])"
proof -
  define i where "i = (case mget m k of None \<Rightarrow> emptyItem | Some i \<Rightarrow> i)"
  have i: "itemInv i" "itemList i = itemsAt m k"
    using assms dci.inv_empty dci.list_empty
    by (auto simp: i_def indexInv_def itemsAt_def split: option.splits)
  have "itemInv (dciAdd i d)" "itemList (dciAdd i d) = itemsAt m k @ [d]"
    using dci.inv_add [OF i(1)] dci.list_add [OF i(1)] i(2) by simp_all
  then show "indexInv (addTo m k d)" "itemsAt (addTo m k d) k' = itemsAt m k' @ (if k' = k then [d] else [])"
    using assms by (auto simp: addTo_def i_def [symmetric] indexInv_def itemsAt_def gomap split: if_splits option.splits)
qed

lemma foldl_addTo:
  "indexInv m \<Longrightarrow> indexInv (foldl (\<lambda>m k. addTo m k d) m ks) \<and>
   itemsAt (foldl (\<lambda>m k. addTo m k d) m ks) k' = itemsAt m k' @ replicate (count_list ks k') d"
  by (induction ks arbitrary: m) (auto simp: addTo_items replicate_app_Cons_same)

lemma populate_snoc: "populate (ds @ [d]) = populateOne (populate ds) d"
  by (simp add: populate_def)

lemma populateOne_fold:
  "ix_lookup (populateOne ix d) = foldl (\<lambda>m t. addTo m t d) (ix_lookup ix) (typesOf d)"
  "ix_keyLookup (populateOne ix d) = foldl (\<lambda>m k. addTo m k d) (ix_keyLookup ix) (ds_LookupKeys d)"
  by (simp_all add: populateOne_def)

lemma registered_snoc:
  "registered keysOf (ds @ [d]) k = registered keysOf ds k @ replicate (count_list (keysOf d) k) d"
  by (simp add: registered_def)

lemma populate_registered:
  "indexInv (ix_lookup (populate ds)) \<and> indexInv (ix_keyLookup (populate ds)) \<and>
   itemsAt (ix_lookup (populate ds)) t = registered typesOf ds t \<and>
   itemsAt (ix_keyLookup (populate ds)) k = registered ds_LookupKeys ds k"
proof (induction ds rule: rev_induct)
  case (snoc d ds)
  then show ?case
    using foldl_addTo [of "ix_lookup (populate ds)" d "typesOf d" t]
      foldl_addTo [of "ix_keyLookup (populate ds)" d "ds_LookupKeys d" k]
    unfolding populate_snoc populateOne_fold registered_snoc by simp
qed (simp add: populate_def indexInv_def itemsAt_def registered_def)

lemma populate_lookup:
  "indexInv (ix_lookup (populate ds))" "itemsAt (ix_lookup (populate ds)) t = registered typesOf ds t"
  using populate_registered [of ds t] by blast+

lemma registered_provides: "set (registered typesOf ds t) = {d \<in> set ds. provides d t}"
proof -
  have "set (replicate (count_list (typesOf d) t) d) = (if provides d t then {d} else {})" for d
    using count_list_0_iff [of "typesOf d" t] by (auto simp: descriptorImplements_def)
  then show ?thesis by (auto simp: registered_def)
qed

lemma new_descriptor:
  "NewConstructorDescriptor te ident T lt ctor implemented = Some d \<Longrightarrow> ds_Id d = ident \<and> ds_ServiceType d = T"
  "NewInstanceDescriptor te ident T inst implemented = Some d \<Longrightarrow> ds_Id d = ident \<and> ds_ServiceType d = T"
  by (auto simp: NewConstructorDescriptor_def NewInstanceDescriptor_def split: if_splits)

lemma with_keys:
  "ds_Id (withLookupKeys d keys metadata implemented) = ds_Id d"
  "ds_ServiceType (withLookupKeys d keys metadata implemented) = ds_ServiceType d"
  "key \<in> set keys \<Longrightarrow> t = ds_ServiceType d \<or> t \<in> set implemented \<Longrightarrow>
   hashTypeAndString t key \<in> set (ds_LookupKeys (withLookupKeys d keys metadata implemented))"
  by (auto simp: withLookupKeys_def)

lemma keyed_descriptor:
  assumes "key \<in> set lookupKeys" "t = T \<or> t \<in> set implemented"
    and "Some cb' \<in> {AddTransientWithLookupKeys te cb ident T ctor lookupKeys metadata implemented,
      AddScopedWithLookupKeys te cb ident T ctor lookupKeys metadata implemented,
      AddSingletonWithLookupKeys te cb ident T ctor lookupKeys metadata implemented,
      AddInstanceWithLookupKeys te cb ident T inst lookupKeys metadata implemented}"
  obtains d where "cb' = cb @ [d]" "ds_Id d = ident" "ds_ServiceType d = T"
    "hashTypeAndString t key \<in> set (ds_LookupKeys d)"
proof -
  obtain d where "cb' = cb @ [withLookupKeys d lookupKeys metadata implemented]" "ds_Id d = ident \<and> ds_ServiceType d = T"
    using assms(3) new_descriptor
    by (fastforce simp: AddTransientWithLookupKeys_def AddScopedWithLookupKeys_def AddSingletonWithLookupKeys_def
        AddInstanceWithLookupKeys_def builderAdd_def eq_commute [of "Some cb'"])
  then show ?thesis using that with_keys assms(1,2) by metis
qed

lemma keyed_last:
  assumes "k \<in> set (ds_LookupKeys d)"
  shows "\<exists>i. mget (ix_keyLookup (populate (ds @ [d]))) k = Some i \<and> dciLast i = Some d"
proof -
  note reg = populate_registered [of "ds @ [d]" undefined k]
  have l: "registered ds_LookupKeys (ds @ [d]) k \<noteq> []" "last (registered ds_LookupKeys (ds @ [d]) k) = d"
    using assms count_list_0_iff [of "ds_LookupKeys d" k] by (auto simp: registered_snoc last_append)
  then obtain i where i: "mget (ix_keyLookup (populate (ds @ [d]))) k = Some i"
    "itemList i = registered ds_LookupKeys (ds @ [d]) k" "itemInv i"
    using reg by (cases "mget (ix_keyLookup (populate (ds @ [d]))) k") (auto simp: itemsAt_def indexInv_def)
  then show ?thesis using dci.last_list [OF i(3)] l by simp
qed

section \<open>Properties\<close>

text \<open>
  C37: What the call site factory finds for a type is exactly what was registered for it: the descriptors in
  registration order, once for each time they name the type as their service type or as an implemented
  interface; the default is the last of them, its slot is 0, and \<open>GetSlot\<close> and \<open>Get\<close> are inverse, so a slot
  leads back to its descriptor.
\<close>
theorem descriptor_index_refines_registration:
  fixes ds :: "Descriptor list"
  defines "found \<equiv> mget (ix_lookup (populate ds))"
  shows "found t = None \<and> registered typesOf ds t = [] \<or>
    (\<exists>i. found t = Some i \<and> itemList i = registered typesOf ds t \<and>
         dciLast i = Some (last (registered typesOf ds t)) \<and>
         dciNum i = length (registered typesOf ds t) \<and> dciGet i (dciNum i - 1) = dciLast i \<and>
         (\<forall>d. case dciGetSlot i d of
                None \<Rightarrow> True
              | Some n \<Rightarrow> \<exists>d'. dciGet i (dciNum i - 1 - n) = Some d' \<and> ds_Id d' = ds_Id d))"
proof (cases "found t")
  case None
  then show ?thesis using populate_lookup(2) [of ds t] by (simp add: found_def itemsAt_def)
next
  case (Some i)
  have inv: "itemInv i" and l: "itemList i = registered typesOf ds t" "itemList i \<noteq> []"
    using populate_lookup(1) [of ds] populate_lookup(2) [of ds t] Some
    by (auto simp: found_def itemsAt_def indexInv_def)
  have "dciLast i = Some (last (itemList i))" "dciNum i = length (itemList i)"
    using dci.last_list [OF inv] dci.num_list [OF inv] l(2) by simp_all
  moreover have "dciGet i (dciNum i - 1) = dciLast i"
    using dci.last_is_slot_0 [OF inv] l(2) dci.num_list [OF inv] by simp
  ultimately show ?thesis using Some l slot_get [OF inv] by (auto split: option.splits)
qed

text \<open>
  \<open>Remove\<close> takes out exactly the descriptors that provide the type, as their service type or as an
  implemented interface, and keeps the others in order, so that \<open>Contains\<close> no longer reports the type and
  nothing else changes; the conflict check reports exactly the types registered with two lifetimes.
\<close>
theorem builder_remove_contains:
  "builderRemove b t = filter (\<lambda>d. \<not> provides d t) b \<and> \<not> builderContains (builderRemove b t) t \<and>
   (builderContains b u \<longleftrightarrow> (\<exists>d \<in> set b. provides d u)) \<and>
   (u \<in> set (detectLifetimeConflicts b) \<longleftrightarrow>
     (\<exists>d1 \<in> set b. \<exists>d2 \<in> set b. ds_ServiceType d1 = u \<and> ds_ServiceType d2 = u \<and> ds_Lifetime d1 \<noteq> ds_Lifetime d2))"
  unfolding builderContains_iff conflicts_spec by (auto simp: builderRemove_filter)

text \<open>
  A registration with lookup keys is found under each of its keys, for its service type and for every implemented
  interface, as the last one registered under that key.
\<close>
theorem keyed_registration_found:
  assumes "key \<in> set lookupKeys" "t = T \<or> t \<in> set implemented"
    and "Some cb' \<in> {AddTransientWithLookupKeys te cb ident T ctor lookupKeys metadata implemented,
      AddScopedWithLookupKeys te cb ident T ctor lookupKeys metadata implemented,
      AddSingletonWithLookupKeys te cb ident T ctor lookupKeys metadata implemented,
      AddInstanceWithLookupKeys te cb ident T inst lookupKeys metadata implemented}"
  shows "\<exists>i d. mget (ix_keyLookup (populate cb')) (hashTypeAndString t key) = Some i \<and> dciLast i = Some d \<and>
    cb' = cb @ [d] \<and> ds_Id d = ident \<and> ds_ServiceType d = T"
proof -
  obtain d where d: "cb' = cb @ [d]" "ds_Id d = ident" "ds_ServiceType d = T" "hashTypeAndString t key \<in> set (ds_LookupKeys d)"
    using keyed_descriptor [OF assms] .
  then show ?thesis using keyed_last [OF d(4), of cb] by blast
qed

theorem keyed_registration_found_witness:
  "\<exists>i. mget (ix_keyLookup (populate (the (AddInstanceWithLookupKeys
     \<lparr>te_Implements = (\<lambda>_ _. False), te_AssignableTo = (=)\<rparr> [] 7 (StructT ''p'' ''S'') (Obj (StructT ''p'' ''S'') 1) [''k''] [] []))))
       (hashTypeAndString (StructT ''p'' ''S'') ''k'') = Some i \<and> (\<exists>d. dciLast i = Some d \<and> ds_Id d = 7)"
proof -
  let ?add = "AddInstanceWithLookupKeys \<lparr>te_Implements = (\<lambda>_ _. False), te_AssignableTo = (=)\<rparr> [] 7 (StructT ''p'' ''S'')
    (Obj (StructT ''p'' ''S'') 1) [''k''] [] []"
  have "?add \<noteq> None" by (simp add: AddInstanceWithLookupKeys_def NewInstanceDescriptor_def instanceAssignable_def validateServiceType_def)
  then have "Some (the ?add) = ?add" by simp
  then show ?thesis
    using keyed_registration_found [of "''k''" "[''k'']" "StructT ''p'' ''S''" "StructT ''p'' ''S''" "[]" "the ?add"] by fastforce
qed

end
