(* ===== verification/DI_CallSites.thy ===== *)
theory DI_CallSites
  imports DI_Descriptors
begin

text \<open>
  Call sites and their factory (\<open>.github/skills/fluffy-dozm-di/callsite.go\<close>, \<open>cache.go\<close>): how a requested type
  becomes a tree of call sites, with the cache of call sites, the chain that detects circular dependencies
  and the per-type locks.

  A call site is a tree whose nodes carry the identity of the Go object; a site found in the cache is the same
  tree with the same identity. The locks are Go mutexes, which are not reentrant: \<open>held\<close> lists the types
  whose lock the running goroutine holds, and asking for one of them again is the outcome \<open>Blocked\<close>, a
  goroutine that waits for itself. The recursion has fuel; \<open>OutOfFuel\<close> is excluded by a theorem.
\<close>

section \<open>Call sites\<close>

datatype CacheLocation = CacheLocation_Root | CacheLocation_Scope | CacheLocation_Dispose | CacheLocation_None

text \<open>A key: the service type (nil for the empty key) and the slot.\<close>

type_synonym ServiceCacheKey = "rtype option \<times> nat"

record ResultCache =
  rc_Location :: CacheLocation
  rc_Key :: ServiceCacheKey

definition NoneResultCache :: ResultCache where
  "NoneResultCache = \<lparr>rc_Location = CacheLocation_None, rc_Key = (None, 0)\<rparr>"

definition newResultCacheWithLifetime :: "Lifetime \<Rightarrow> rtype \<Rightarrow> nat \<Rightarrow> ResultCache" where
  "newResultCacheWithLifetime lifetime typ slot =
    \<lparr>rc_Location =
       (case lifetime of
          Lifetime_Singleton \<Rightarrow> CacheLocation_Root
        | Lifetime_Scoped \<Rightarrow> CacheLocation_Scope
        | Lifetime_Transient \<Rightarrow> CacheLocation_Dispose),
     rc_Key = (Some typ, slot)\<rparr>"

datatype callSite =
    ConstantCallSite nat rtype val
  | FactoryCallSite nat rtype ResultCache nat
  | ConstructorCallSite nat rtype ConstructorInfo "callSite list" ResultCache
  | ContainerCallSite nat
  | SliceCallSite nat rtype "callSite list" ResultCache

fun csId :: "callSite \<Rightarrow> nat" where
  "csId (ConstantCallSite i _ _) = i"
| "csId (FactoryCallSite i _ _ _) = i"
| "csId (ConstructorCallSite i _ _ _ _) = i"
| "csId (ContainerCallSite i) = i"
| "csId (SliceCallSite i _ _ _) = i"

fun csServiceType :: "callSite \<Rightarrow> rtype" where
  "csServiceType (ConstantCallSite _ t _) = t"
| "csServiceType (FactoryCallSite _ t _ _) = t"
| "csServiceType (ConstructorCallSite _ t _ _ _) = t"
| "csServiceType (ContainerCallSite _) = ContainerType"
| "csServiceType (SliceCallSite _ e _ _) = SliceT e"

fun csCache :: "callSite \<Rightarrow> ResultCache" where
  "csCache (ConstantCallSite _ _ _) = NoneResultCache"
| "csCache (FactoryCallSite _ _ c _) = c"
| "csCache (ConstructorCallSite _ _ _ _ c) = c"
| "csCache (ContainerCallSite _) = NoneResultCache"
| "csCache (SliceCallSite _ _ _ c) = c"

fun csChildren :: "callSite \<Rightarrow> callSite list" where
  "csChildren (ConstructorCallSite _ _ _ ps _) = ps"
| "csChildren (SliceCallSite _ _ es _) = es"
| "csChildren _ = []"

section \<open>The chain\<close>

record chainItem =
  ch_Order :: nat
  ch_Ctor :: "ConstructorInfo option"

type_synonym callSiteChain = "(rtype, chainItem) gomap"

definition chainHas :: "callSiteChain \<Rightarrow> rtype \<Rightarrow> bool" where
  "chainHas c t = mhas c t"

definition chainAdd :: "callSiteChain \<Rightarrow> rtype \<Rightarrow> ConstructorInfo option \<Rightarrow> callSiteChain" where
  "chainAdd c t ctor = mput t \<lparr>ch_Order = length c, ch_Ctor = ctor\<rparr> c"

definition chainRemove :: "callSiteChain \<Rightarrow> rtype \<Rightarrow> callSiteChain" where
  "chainRemove c t = mdel t c"

section \<open>The factory\<close>

datatype csError =
    CircularDependency rtype | ServiceNotFound rtype | InvalidDescriptor rtype | NotInLookup | CsPanic
  | Blocked | OutOfFuel

text \<open>The cache of call sites, the next object identity and the chain of the running request.\<close>

record csState =
  cf_cache :: "(ServiceCacheKey, callSite) gomap"
  cf_next :: nat
  cf_chain :: callSiteChain

type_synonym csResult = "(csError + callSite) \<times> csState"

text \<open>\<open>createCallSite\<close> as its callees see it: the held locks, the type and the state.\<close>

type_synonym creator = "rtype list \<Rightarrow> rtype \<Rightarrow> csState \<Rightarrow> csResult"

definition GetCallSite :: "creator \<Rightarrow> creator" where
  "GetCallSite create held t s =
    (case mget (cf_cache s) (Some t, 0) of
       Some site \<Rightarrow> (Inr site, s)
     | None \<Rightarrow> create held t s)"

fun createArgumentCallSites ::
    "creator \<Rightarrow> rtype list \<Rightarrow> rtype list \<Rightarrow> csState \<Rightarrow> (csError + callSite list) \<times> csState" where
  "createArgumentCallSites create held [] s = (Inr [], s)"
| "createArgumentCallSites create held (t # ts) s =
    (case GetCallSite create held t s of
       (Inl err, s') \<Rightarrow> (Inl err, s')
     | (Inr cs, s') \<Rightarrow>
         (case createArgumentCallSites create held ts s' of
            (Inl err, s2) \<Rightarrow> (Inl err, s2)
          | (Inr css, s2) \<Rightarrow> (Inr (cs # css), s2)))"

definition createConstructorCallSite ::
    "creator \<Rightarrow> rtype list \<Rightarrow> ResultCache \<Rightarrow> rtype \<Rightarrow> ConstructorInfo \<Rightarrow> csState \<Rightarrow> csResult" where
  "createConstructorCallSite create held cache serviceType ctor s =
    (let s1 = s\<lparr>cf_chain := chainAdd (cf_chain s) serviceType (Some ctor)\<rparr> in
     if ci_In ctor = []
     then (Inr (ConstructorCallSite (cf_next s1) serviceType ctor [] cache),
           s1\<lparr>cf_next := Suc (cf_next s1), cf_chain := chainRemove (cf_chain s1) serviceType\<rparr>)
     else
       (case createArgumentCallSites create held (ci_In ctor) s1 of
          (Inl err, s2) \<Rightarrow> (Inl err, s2\<lparr>cf_chain := chainRemove (cf_chain s2) serviceType\<rparr>)
        | (Inr ps, s2) \<Rightarrow>
            (Inr (ConstructorCallSite (cf_next s2) serviceType ctor ps cache),
             s2\<lparr>cf_next := Suc (cf_next s2), cf_chain := chainRemove (cf_chain s2) serviceType\<rparr>)))"

definition storeSite :: "ServiceCacheKey \<Rightarrow> callSite \<Rightarrow> csState \<Rightarrow> csState" where
  "storeSite key cs s = s\<lparr>cf_cache := mput key cs (cf_cache s)\<rparr>"

definition tryCreateExact :: "creator \<Rightarrow> rtype list \<Rightarrow> Descriptor \<Rightarrow> nat \<Rightarrow> csState \<Rightarrow> csResult" where
  "tryCreateExact create held descriptor slot s =
    (let t = ds_ServiceType descriptor; key = (Some t, slot);
         cache = newResultCacheWithLifetime (ds_Lifetime descriptor) t slot in
     case mget (cf_cache s) key of
       Some cs \<Rightarrow> (Inr cs, s)
     | None \<Rightarrow>
         (case (ds_Instance descriptor, ds_Factory descriptor, ds_Ctor descriptor) of
            (Some inst, _, _) \<Rightarrow>
              let cs = ConstantCallSite (cf_next s) t inst in
              (Inr cs, storeSite key cs (s\<lparr>cf_next := Suc (cf_next s)\<rparr>))
          | (None, Some factory, _) \<Rightarrow>
              let cs = FactoryCallSite (cf_next s) t cache factory in
              (Inr cs, storeSite key cs (s\<lparr>cf_next := Suc (cf_next s)\<rparr>))
          | (None, None, Some ctor) \<Rightarrow>
              (case createConstructorCallSite create held cache t ctor s of
                 (Inl err, s') \<Rightarrow> (Inl err, s')
               | (Inr cs, s') \<Rightarrow> (Inr cs, storeSite key cs s'))
          | (None, None, None) \<Rightarrow> (Inl (InvalidDescriptor t), s)))"

fun locRank :: "CacheLocation \<Rightarrow> nat" where
  "locRank CacheLocation_Root = 0"
| "locRank CacheLocation_Scope = 1"
| "locRank CacheLocation_Dispose = 2"
| "locRank CacheLocation_None = 3"

text \<open>The order of the constants.\<close>

lemma locRank_eq: "locRank a = locRank b \<Longrightarrow> a = b"
  by (cases a; cases b) simp_all

instantiation CacheLocation :: linorder
begin

definition less_eq_CacheLocation :: "CacheLocation \<Rightarrow> CacheLocation \<Rightarrow> bool" where
  "less_eq_CacheLocation a b \<longleftrightarrow> locRank a \<le> locRank b"

definition less_CacheLocation :: "CacheLocation \<Rightarrow> CacheLocation \<Rightarrow> bool" where
  "less_CacheLocation a b \<longleftrightarrow> locRank a < locRank b"

instance
  by intro_classes (auto simp: less_eq_CacheLocation_def less_CacheLocation_def intro: locRank_eq)

end

definition getCommonCacheLocation :: "CacheLocation \<Rightarrow> CacheLocation \<Rightarrow> CacheLocation" where
  "getCommonCacheLocation a b = (if a > b then a else b)"

lemma getCommonCacheLocation_max: "getCommonCacheLocation a b = max a b"
  by (auto simp: getCommonCacheLocation_def max_def)

text \<open>The loop of \<open>createSlice\<close>: \<open>i\<close> counts up to \<open>num\<close>, the slot of element \<open>i\<close> is \<open>num - i - 1\<close>.\<close>

fun sliceElements ::
    "creator \<Rightarrow> rtype list \<Rightarrow> nat \<Rightarrow> nat \<Rightarrow> Descriptor list \<Rightarrow> CacheLocation \<Rightarrow> csState \<Rightarrow>
     (csError + CacheLocation \<times> callSite list) \<times> csState" where
  "sliceElements create held num i [] loc s = (Inr (loc, []), s)"
| "sliceElements create held num i (d # ds) loc s =
    (case tryCreateExact create held d (num - i - 1) s of
       (Inl err, s') \<Rightarrow> (Inl err, s')
     | (Inr cs, s') \<Rightarrow>
         (case sliceElements create held num (Suc i) ds
                 (getCommonCacheLocation loc (rc_Location (csCache cs))) s' of
            (Inl err, s2) \<Rightarrow> (Inl err, s2)
          | (Inr (loc', css), s2) \<Rightarrow> (Inr (loc', cs # css), s2)))"

definition createSlice :: "descriptorIndex \<Rightarrow> creator \<Rightarrow> creator" where
  "createSlice ix create held serviceType s =
    (case mget (cf_cache s) (Some serviceType, 0) of
       Some cs \<Rightarrow> (Inr cs, s)
     | None \<Rightarrow>
         (let s1 = s\<lparr>cf_chain := chainAdd (cf_chain s) serviceType None\<rparr>;
              elements = (case mget (ix_lookup ix) (elemT serviceType) of
                 None \<Rightarrow> [] | Some dci \<Rightarrow> map (\<lambda>i. the (dciGet dci i)) [0..<dciNum dci]) in
          case sliceElements create held (length elements) 0 elements CacheLocation_Root s1 of
            (Inl err, s2) \<Rightarrow> (Inl err, s2\<lparr>cf_chain := chainRemove (cf_chain s2) serviceType\<rparr>)
          | (Inr (loc, css), s2) \<Rightarrow>
              (let cache =
                 (if loc = CacheLocation_Scope \<or> loc = CacheLocation_Root
                  then \<lparr>rc_Location = loc, rc_Key = (Some serviceType, 0)\<rparr> else NoneResultCache) in
               (Inr (SliceCallSite (cf_next s2) (elemT serviceType) css cache),
                s2\<lparr>cf_next := Suc (cf_next s2), cf_chain := chainRemove (cf_chain s2) serviceType\<rparr>))))"

primrec createCallSite :: "nat \<Rightarrow> descriptorIndex \<Rightarrow> creator" where
  "createCallSite 0 ix = (\<lambda>held t s. (Inl OutOfFuel, s))"
| "createCallSite (Suc n) ix =
    (\<lambda>held t s.
       if chainHas (cf_chain s) t then (Inl (CircularDependency t), s)
       else if t \<in> set held then (Inl Blocked, s)
       else
         (case mget (ix_lookup ix) t of
            Some dci \<Rightarrow>
              (case dciLast dci of
                 None \<Rightarrow> (Inl CsPanic, s)
               | Some d \<Rightarrow> tryCreateExact (createCallSite n ix) (t # held) d 0 s)
          | None \<Rightarrow>
              if kindT t = KSlice then createSlice ix (createCallSite n ix) (t # held) t s
              else (Inl (ServiceNotFound t), s)))"

text \<open>The requests of the container, each with a new chain. The fuel is more than the number of types that
  can be locked at once.\<close>

definition argTypes :: "Descriptor list \<Rightarrow> rtype list" where
  "argTypes ds = concat (map (\<lambda>d. case ds_Ctor d of None \<Rightarrow> [] | Some ctor \<Rightarrow> ci_In ctor) ds)"

definition enough :: "Descriptor list \<Rightarrow> nat" where
  "enough ds = length (argTypes ds) + 2"

definition requestCallSite :: "Descriptor list \<Rightarrow> rtype \<Rightarrow> csState \<Rightarrow> csResult" where
  "requestCallSite ds t s =
    GetCallSite (createCallSite (enough ds) (populate ds)) [] t (s\<lparr>cf_chain := []\<rparr>)"

definition GetCallSiteByDescriptor :: "Descriptor list \<Rightarrow> Descriptor \<Rightarrow> csState \<Rightarrow> csResult" where
  "GetCallSiteByDescriptor ds descriptor s =
    (case mget (ix_lookup (populate ds)) (ds_ServiceType descriptor) of
       None \<Rightarrow> (Inl NotInLookup, s)
     | Some dci \<Rightarrow>
         (case dciGetSlot dci descriptor of
            None \<Rightarrow> (Inl CsPanic, s)
          | Some slot \<Rightarrow>
              tryCreateExact (createCallSite (enough ds) (populate ds)) [] descriptor slot (s\<lparr>cf_chain := []\<rparr>)))"

definition IsService :: "Descriptor list \<Rightarrow> rtype \<Rightarrow> bool" where
  "IsService ds t \<longleftrightarrow>
    mhas (ix_lookup (populate ds)) t \<or> kindT t = KSlice \<or>
    t = ContainerType \<or> t = ScopeFactoryType \<or> t = IsServiceType"

text \<open>\<open>builtInServices\<close>: the root scope has number 0.\<close>

definition builtInServices :: csState where
  "builtInServices =
    \<lparr>cf_cache =
       [((Some ContainerType, 0), ContainerCallSite 0),
        ((Some ScopeFactoryType, 0), ConstantCallSite 1 ScopeFactoryType (ScopeVal 0)),
        ((Some IsServiceType, 0), ConstantCallSite 2 IsServiceType FactoryVal)],
     cf_next = 3, cf_chain = []\<rparr>"

section \<open>The index of a container\<close>

lemma lookup_from:
  assumes "mget (ix_lookup (populate ds)) t = Some dci"
  shows "itemInv dci" "set (itemList dci) = {d \<in> set ds. provides d t}" "itemList dci \<noteq> []"
  using assms populate_lookup(1) [of ds] populate_lookup(2) [of ds t] registered_provides [of ds t]
  by (auto simp: indexInv_def itemsAt_def)

lemma dciLast_from:
  assumes "mget (ix_lookup (populate ds)) t = Some dci"
  obtains d where "dciLast dci = Some d" "d \<in> set ds" "provides d t"
proof -
  note l = lookup_from [OF assms]
  have "dciLast dci = Some (last (itemList dci))" using dci.last_list [OF l(1)] l(3) by simp
  moreover have "last (itemList dci) \<in> {d \<in> set ds. provides d t}" using l(2,3) last_in_set by blast
  ultimately show thesis using that by blast
qed

lemma elements_list:
  assumes "itemInv dci"
  shows "map (\<lambda>i. the (dciGet dci i)) [0..<dciNum dci] = itemList dci"
  by (rule nth_equalityI) (simp_all add: dci.num_list [OF assms] dci.get_list [OF assms])

definition elementsOf :: "Descriptor list \<Rightarrow> rtype \<Rightarrow> Descriptor list" where
  "elementsOf ds t =
    (case mget (ix_lookup (populate ds)) (elemT t) of
       None \<Rightarrow> [] | Some dci \<Rightarrow> map (\<lambda>i. the (dciGet dci i)) [0..<dciNum dci])"

lemma elementsOf_from: "d \<in> set (elementsOf ds t) \<Longrightarrow> d \<in> set ds \<and> provides d (elemT t)"
proof (cases "mget (ix_lookup (populate ds)) (elemT t)")
  case (Some dci)
  assume "d \<in> set (elementsOf ds t)"
  then have "d \<in> set (itemList dci)" unfolding elementsOf_def Some option.case elements_list [OF lookup_from(1) [OF Some]] .
  then show ?thesis unfolding lookup_from(2) [OF Some] by blast
qed (simp add: elementsOf_def)

section \<open>Contracts of the created sites\<close>

text \<open>
  A contract has a predicate \<open>S\<close> on sites and a relation \<open>R\<close> between the type of a site and the type it is
  requested for, closed under the ways the factory builds sites from the descriptors \<open>ds\<close>.
\<close>

definition siteContract ::
    "Descriptor list \<Rightarrow> (callSite \<Rightarrow> bool) \<Rightarrow> (rtype \<Rightarrow> rtype \<Rightarrow> bool) \<Rightarrow> bool" where
  "siteContract ds S R \<longleftrightarrow>
    (\<forall>t. R t t) \<and> (\<forall>d \<in> set ds. \<forall>t. provides d t \<longrightarrow> R (ds_ServiceType d) t) \<and>
    (\<forall>d \<in> set ds. \<forall>i slot.
       (\<forall>v. ds_Instance d = Some v \<longrightarrow> S (ConstantCallSite i (ds_ServiceType d) v)) \<and>
       (\<forall>f. ds_Factory d = Some f \<longrightarrow> S (FactoryCallSite i (ds_ServiceType d)
                (newResultCacheWithLifetime (ds_Lifetime d) (ds_ServiceType d) slot) f)) \<and>
       (\<forall>c ps. ds_Ctor d = Some c \<longrightarrow> list_all S ps \<longrightarrow> list_all2 (\<lambda>p a. R (csServiceType p) a) ps (ci_In c) \<longrightarrow>
          S (ConstructorCallSite i (ds_ServiceType d) c ps
               (newResultCacheWithLifetime (ds_Lifetime d) (ds_ServiceType d) slot)))) \<and>
    (\<forall>i e es loc. list_all (\<lambda>c. S c \<and> R (csServiceType c) e) es \<longrightarrow>
       S (SliceCallSite i e es NoneResultCache) \<and>
       S (SliceCallSite i e es \<lparr>rc_Location = loc, rc_Key = (Some (SliceT e), 0)\<rparr>))"

text \<open>Every cached site keeps the contract and is stored under its own type.\<close>

definition cacheOk :: "(callSite \<Rightarrow> bool) \<Rightarrow> csState \<Rightarrow> bool" where
  "cacheOk S s \<longleftrightarrow>
    (\<forall>key cs. mget (cf_cache s) key = Some cs \<longrightarrow> S cs \<and> fst key = Some (csServiceType cs))"

definition outcomeOk :: "(callSite \<Rightarrow> bool) \<Rightarrow> (rtype \<Rightarrow> rtype \<Rightarrow> bool) \<Rightarrow> rtype \<Rightarrow> csResult \<Rightarrow> bool" where
  "outcomeOk S R t out \<longleftrightarrow>
    cacheOk S (snd out) \<and>
    (case fst out of Inl e \<Rightarrow> e \<noteq> OutOfFuel | Inr cs \<Rightarrow> S cs \<and> R (csServiceType cs) t)"

definition creates ::
    "(callSite \<Rightarrow> bool) \<Rightarrow> (rtype \<Rightarrow> rtype \<Rightarrow> bool) \<Rightarrow> rtype set \<Rightarrow> creator \<Rightarrow> rtype list \<Rightarrow> bool" where
  "creates S R U create held \<longleftrightarrow>
    (\<forall>t \<in> U. \<forall>s. cacheOk S s \<longrightarrow> outcomeOk S R t (create held t s))"

lemma cacheOk_simps [simp]:
  "cacheOk S (s\<lparr>cf_chain := c\<rparr>) = cacheOk S s" "cacheOk S (s\<lparr>cf_next := n\<rparr>) = cacheOk S s"
  by (simp_all add: cacheOk_def)

lemma cacheOk_store:
  "cacheOk S s \<Longrightarrow> S cs \<Longrightarrow> cacheOk S (storeSite (Some (csServiceType cs), slot) cs s)"
  by (auto simp: cacheOk_def storeSite_def gomap split: if_splits)

lemma cacheOk_get: "cacheOk S s \<Longrightarrow> mget (cf_cache s) (Some t, slot) = Some cs \<Longrightarrow> S cs \<and> csServiceType cs = t"
  by (fastforce simp: cacheOk_def)

lemma GetCallSite_ok:
  assumes c: "creates S R U create held" and ct: "siteContract ds S R" and t: "t \<in> U" and s: "cacheOk S s"
  shows "outcomeOk S R t (GetCallSite create held t s)"
proof (cases "mget (cf_cache s) (Some t, 0)")
  case None
  then show ?thesis using c t s by (simp add: GetCallSite_def creates_def)
next
  case (Some site)
  then show ?thesis using s ct by (auto simp: GetCallSite_def outcomeOk_def cacheOk_def siteContract_def)
qed

lemma args_ok:
  assumes c: "creates S R U create held" and ct: "siteContract ds S R"
  shows "set ts \<subseteq> U \<Longrightarrow> cacheOk S s \<Longrightarrow> createArgumentCallSites create held ts s = (r, s') \<Longrightarrow>
    cacheOk S s' \<and>
    (case r of Inl e \<Rightarrow> e \<noteq> OutOfFuel | Inr ps \<Rightarrow> list_all S ps \<and> list_all2 (\<lambda>p a. R (csServiceType p) a) ps ts)"
proof (induction ts arbitrary: s r s')
  case (Cons t ts)
  obtain r1 s1 where g: "GetCallSite create held t s = (r1, s1)" by fastforce
  have ok: "outcomeOk S R t (r1, s1)" using GetCallSite_ok [OF c ct _ Cons.prems(2), of t] Cons.prems(1) g by simp
  show ?case
  proof (cases r1)
    case (Inl e)
    then show ?thesis using Cons.prems(3) g ok by (auto simp: outcomeOk_def)
  next
    case (Inr cs)
    obtain r2 s2 where rest: "createArgumentCallSites create held ts s1 = (r2, s2)" by fastforce
    have "cacheOk S s1" using ok by (simp add: outcomeOk_def)
    note ih = Cons.IH [OF _ this rest]
    show ?thesis using Cons.prems(1,3) g Inr rest ih ok by (cases r2) (auto simp: outcomeOk_def)
  qed
qed auto

lemma tryCreateExact_branches:
  obtains (cached) cs where "mget (cf_cache s) (Some (ds_ServiceType d), slot) = Some cs"
    | (inst) v where "mget (cf_cache s) (Some (ds_ServiceType d), slot) = None" "ds_Instance d = Some v"
    | (fact) f where "mget (cf_cache s) (Some (ds_ServiceType d), slot) = None" "ds_Instance d = None" "ds_Factory d = Some f"
    | (ctor) x where "mget (cf_cache s) (Some (ds_ServiceType d), slot) = None" "ds_Instance d = None" "ds_Factory d = None"
        "ds_Ctor d = Some x"
    | (none) "mget (cf_cache s) (Some (ds_ServiceType d), slot) = None" "ds_Instance d = None" "ds_Factory d = None"
        "ds_Ctor d = None"
  by (cases "mget (cf_cache s) (Some (ds_ServiceType d), slot)"; cases "ds_Instance d"; cases "ds_Factory d";
      cases "ds_Ctor d") auto

lemma storeSite_chain [simp]: "cf_chain (storeSite key cs s) = cf_chain s"
  by (simp add: storeSite_def)

text \<open>The outcome of building the site of one descriptor.\<close>

definition exactOk :: "(callSite \<Rightarrow> bool) \<Rightarrow> rtype \<Rightarrow> csResult \<Rightarrow> bool" where
  "exactOk S T out \<longleftrightarrow>
    cacheOk S (snd out) \<and>
    (case fst out of Inl e \<Rightarrow> e \<noteq> OutOfFuel | Inr cs \<Rightarrow> S cs \<and> csServiceType cs = T)"

lemma argTypes_in: "d \<in> set ds \<Longrightarrow> ds_Ctor d = Some c \<Longrightarrow> set (ci_In c) \<subseteq> set (argTypes ds)"
  by (force simp: argTypes_def)

lemma constructor_ok:
  assumes c: "creates S R U create held" and ct: "siteContract ds S R" and U: "set (argTypes ds) \<subseteq> U"
    and d: "d \<in> set ds" "ds_Ctor d = Some ctor" and s: "cacheOk S s"
  shows "exactOk S (ds_ServiceType d)
    (createConstructorCallSite create held
       (newResultCacheWithLifetime (ds_Lifetime d) (ds_ServiceType d) slot) (ds_ServiceType d) ctor s)"
proof -
  have built: "list_all S ps \<Longrightarrow> list_all2 (\<lambda>p a. R (csServiceType p) a) ps (ci_In ctor) \<Longrightarrow>
      S (ConstructorCallSite i (ds_ServiceType d) ctor ps
           (newResultCacheWithLifetime (ds_Lifetime d) (ds_ServiceType d) slot))" for i ps
    using ct d unfolding siteContract_def by blast
  define s1 where "s1 = s\<lparr>cf_chain := chainAdd (cf_chain s) (ds_ServiceType d) (Some ctor)\<rparr>"
  have s1: "cacheOk S s1" using s by (simp add: s1_def)
  obtain r s2 where a: "createArgumentCallSites create held (ci_In ctor) s1 = (r, s2)" by fastforce
  have "set (ci_In ctor) \<subseteq> U" using argTypes_in [OF d] U by blast
  note args = args_ok [OF c ct this s1 a]
  show ?thesis
  proof (cases "ci_In ctor = []")
    case True
    then show ?thesis
      using built [of "[]"] s1 by (simp add: createConstructorCallSite_def Let_def s1_def [symmetric] exactOk_def)
  next
    case False
    then show ?thesis
      using args built a by (cases r) (auto simp: createConstructorCallSite_def Let_def s1_def [symmetric] exactOk_def)
  qed
qed

lemma exact_ok:
  assumes c: "creates S R U create held" and ct: "siteContract ds S R" and U: "set (argTypes ds) \<subseteq> U"
    and d: "d \<in> set ds" and s: "cacheOk S s"
  shows "exactOk S (ds_ServiceType d) (tryCreateExact create held d slot s)"
proof -
  define T where "T = ds_ServiceType d"
  define cache where "cache = newResultCacheWithLifetime (ds_Lifetime d) T slot"
  have store: "S cs \<Longrightarrow> csServiceType cs = T \<Longrightarrow> cacheOk S s' \<Longrightarrow> cacheOk S (storeSite (Some T, slot) cs s')" for cs s'
    using cacheOk_store [of S s' cs slot] by simp
  show ?thesis
  proof (cases rule: tryCreateExact_branches [of s d slot])
    case cached
    then show ?thesis
      using s cacheOk_get [OF s] by (simp add: tryCreateExact_def T_def [symmetric] Let_def exactOk_def)
  next
    case (inst v)
    have "S (ConstantCallSite (cf_next s) T v)" using ct d inst(2) unfolding siteContract_def T_def by blast
    then show ?thesis using inst s store by (simp add: tryCreateExact_def T_def [symmetric] Let_def exactOk_def)
  next
    case (fact f)
    have "S (FactoryCallSite (cf_next s) T cache f)" using ct d fact(3) unfolding siteContract_def T_def cache_def by blast
    then show ?thesis
      using fact s store by (simp add: tryCreateExact_def T_def [symmetric] cache_def [symmetric] Let_def exactOk_def)
  next
    case (ctor x)
    obtain r s' where b: "createConstructorCallSite create held cache T x s = (r, s')" by fastforce
    have "exactOk S T (r, s')"
      using constructor_ok [OF c ct U d ctor(4) s, of slot] b by (simp add: T_def cache_def)
    then show ?thesis
      using ctor b store
      by (cases r) (auto simp: tryCreateExact_def T_def [symmetric] cache_def [symmetric] Let_def exactOk_def)
  next
    case none
    then show ?thesis using s by (simp add: tryCreateExact_def T_def [symmetric] Let_def exactOk_def)
  qed
qed

lemma slice_elements_ok:
  assumes c: "creates S R U create held" and ct: "siteContract ds S R" and U: "set (argTypes ds) \<subseteq> U"
  shows "set es \<subseteq> {d \<in> set ds. provides d e} \<Longrightarrow> cacheOk S s \<Longrightarrow>
    sliceElements create held num i es loc s = (r, s') \<Longrightarrow>
    cacheOk S s' \<and>
    (case r of Inl e1 \<Rightarrow> e1 \<noteq> OutOfFuel | Inr (_, css) \<Rightarrow> list_all (\<lambda>c. S c \<and> R (csServiceType c) e) css)"
proof (induction es arbitrary: i loc s r s')
  case (Cons d es)
  obtain r1 s1 where x: "tryCreateExact create held d (num - i - 1) s = (r1, s1)" by fastforce
  have d: "d \<in> set ds" "provides d e" using Cons.prems(1) by auto
  have ok: "exactOk S (ds_ServiceType d) (r1, s1)" using exact_ok [OF c ct U d(1) Cons.prems(2)] x by metis
  show ?case
  proof (cases r1)
    case (Inl e1)
    then show ?thesis using Cons.prems(3) x ok by (auto simp: exactOk_def)
  next
    case (Inr cs)
    define loc' where "loc' = getCommonCacheLocation loc (rc_Location (csCache cs))"
    obtain r2 s2 where rest: "sliceElements create held num (Suc i) es loc' s1 = (r2, s2)" by fastforce
    have "cacheOk S s1" using ok by (simp add: exactOk_def)
    note ih = Cons.IH [OF _ this rest]
    have "S cs \<and> R (csServiceType cs) e" using ok Inr d ct by (auto simp: exactOk_def siteContract_def)
    then show ?thesis
      using Cons.prems(1,3) x Inr rest ih by (cases r2) (auto simp: loc'_def)
  qed
qed auto

lemma slice_ok:
  assumes c: "creates S R U create held" and ct: "siteContract ds S R" and U: "set (argTypes ds) \<subseteq> U"
    and s: "cacheOk S s" and k: "kindT t = KSlice"
  shows "outcomeOk S R t (createSlice (populate ds) create held t s)"
proof (cases "mget (cf_cache s) (Some t, 0)")
  case (Some cs)
  then show ?thesis using s ct by (auto simp: createSlice_def outcomeOk_def cacheOk_def siteContract_def)
next
  case None
  obtain e where e: "t = SliceT e" using k by (cases t) auto
  define s1 where "s1 = s\<lparr>cf_chain := chainAdd (cf_chain s) t None\<rparr>"
  define es where "es = elementsOf ds t"
  obtain r s2 where x: "sliceElements create held (length es) 0 es CacheLocation_Root s1 = (r, s2)" by fastforce
  have "set es \<subseteq> {d \<in> set ds. provides d e}" using elementsOf_from [of _ ds t] by (auto simp: es_def e)
  note el = slice_elements_ok [OF c ct U this _ x]
  have s1: "cacheOk S s1" using s by (simp add: s1_def)
  have refl: "R t t" and built: "\<And>i css loc. list_all (\<lambda>c. S c \<and> R (csServiceType c) e) css \<Longrightarrow>
      S (SliceCallSite i e css NoneResultCache) \<and>
      S (SliceCallSite i e css \<lparr>rc_Location = loc, rc_Key = (Some (SliceT e), 0)\<rparr>)"
    using ct unfolding siteContract_def by blast+
  have "createSlice (populate ds) create held t s =
      (case (r, s2) of
         (Inl err, s2) \<Rightarrow> (Inl err, s2\<lparr>cf_chain := chainRemove (cf_chain s2) t\<rparr>)
       | (Inr (loc, css), s2) \<Rightarrow>
           (Inr (SliceCallSite (cf_next s2) e css
              (if loc = CacheLocation_Scope \<or> loc = CacheLocation_Root
               then \<lparr>rc_Location = loc, rc_Key = (Some t, 0)\<rparr> else NoneResultCache)),
            s2\<lparr>cf_next := Suc (cf_next s2), cf_chain := chainRemove (cf_chain s2) t\<rparr>))"
    using None x unfolding createSlice_def elementsOf_def [symmetric] s1_def es_def
    by (cases r) (auto simp: Let_def e)
  then show ?thesis
    using el [OF s1] built refl by (cases r) (auto simp: outcomeOk_def e split: prod.splits)
qed

lemma createCallSite_ok:
  assumes ct: "siteContract ds S R" and U: "set (argTypes ds) \<subseteq> U" and fin: "finite U"
  shows "card (U - set held) < n \<Longrightarrow> creates S R U (createCallSite n (populate ds)) held"
proof (induction n arbitrary: held)
  case (Suc n)
  have "outcomeOk S R t (createCallSite (Suc n) (populate ds) held t s)" if t: "t \<in> U" and s: "cacheOk S s" for t s
  proof (cases "chainHas (cf_chain s) t \<or> t \<in> set held")
    case True
    then show ?thesis using s by (auto simp: outcomeOk_def)
  next
    case free: False
    have "card (U - set (t # held)) < card (U - set held)"
      by (rule psubset_card_mono) (use t free fin in auto)
    then have c: "creates S R U (createCallSite n (populate ds)) (t # held)" using Suc by simp
    show ?thesis
    proof (cases "mget (ix_lookup (populate ds)) t")
      case None
      then show ?thesis
        using free s slice_ok [OF c ct U s] by (simp add: outcomeOk_def)
    next
      case (Some dci)
      obtain d where d: "dciLast dci = Some d" "d \<in> set ds" "provides d t" using dciLast_from [OF Some] .
      have "R (ds_ServiceType d) t" using ct d unfolding siteContract_def by blast
      then show ?thesis
        using free Some d exact_ok [OF c ct U d(2) s, of 0]
        by (auto simp: outcomeOk_def exactOk_def split: sum.splits)
    qed
  qed
  then show ?case unfolding creates_def by blast
qed simp

lemma site_fuel: "card (insert t (set (argTypes ds)) - set []) < enough ds"
  using card_length [of "t # argTypes ds"] by (simp add: enough_def)

lemma request_ok:
  assumes ct: "siteContract ds S R" and s: "cacheOk S s"
  shows "outcomeOk S R t (requestCallSite ds t s)"
  unfolding requestCallSite_def
  by (rule GetCallSite_ok [OF createCallSite_ok [OF ct _ _ site_fuel [of t]] ct]) (use s in auto)

lemma by_descriptor_ok:
  assumes ct: "siteContract ds S R" and d: "d \<in> set ds" and s: "cacheOk S s"
  shows "exactOk S (ds_ServiceType d) (GetCallSiteByDescriptor ds d s)"
proof -
  have "exactOk S (ds_ServiceType d)
      (tryCreateExact (createCallSite (enough ds) (populate ds)) [] d slot (s\<lparr>cf_chain := []\<rparr>))" for slot
    by (rule exact_ok [OF createCallSite_ok [OF ct _ _ site_fuel [of undefined]] ct _ d]) (use s in auto)
  then show ?thesis using s by (auto simp: GetCallSiteByDescriptor_def exactOk_def split: option.splits)
qed

section \<open>Acyclic registrations\<close>

text \<open>
  \<open>rank\<close> witnesses that the dependencies are acyclic: a constructor only asks for services of smaller rank
  than everything its descriptor provides, and the elements of a slice are below the slice.
\<close>

definition acyclicDeps :: "(rtype \<Rightarrow> nat) \<Rightarrow> Descriptor list \<Rightarrow> bool" where
  "acyclicDeps rank ds \<longleftrightarrow>
    (\<forall>e. rank e < rank (SliceT e)) \<and>
    list_all (\<lambda>d.
      (ds_Instance d \<noteq> None \<or> ds_Factory d \<noteq> None \<or> ds_Ctor d \<noteq> None) \<and>
      (case ds_Ctor d of
         None \<Rightarrow> True
       | Some c \<Rightarrow> list_all (\<lambda>a. IsService ds a \<and> list_all (\<lambda>t. rank a < rank t) (typesOf d)) (ci_In c))) ds"

abbreviation chainKeys :: "csState \<Rightarrow> rtype set" where
  "chainKeys s \<equiv> {t. chainHas (cf_chain s) t}"

definition builtIn :: "csState \<Rightarrow> bool" where
  "builtIn s \<longleftrightarrow> (\<forall>t \<in> {ContainerType, ScopeFactoryType, IsServiceType}. mhas (cf_cache s) (Some t, 0))"

text \<open>The only error is missing fuel; a success leaves nothing new on the chain.\<close>

definition settles :: "csState \<Rightarrow> (csError + 'a) \<times> csState \<Rightarrow> bool" where
  "settles s out \<longleftrightarrow>
    (case fst out of Inl e \<Rightarrow> e = OutOfFuel | Inr _ \<Rightarrow> chainKeys (snd out) \<subseteq> chainKeys s) \<and> builtIn (snd out)"

definition below :: "(rtype \<Rightarrow> nat) \<Rightarrow> rtype \<Rightarrow> rtype list \<Rightarrow> csState \<Rightarrow> bool" where
  "below rank t held s \<longleftrightarrow> (\<forall>u \<in> chainKeys s \<union> set held. rank t < rank u)"

definition settling :: "(rtype \<Rightarrow> nat) \<Rightarrow> Descriptor list \<Rightarrow> creator \<Rightarrow> rtype list \<Rightarrow> bool" where
  "settling rank ds create held \<longleftrightarrow>
    (\<forall>t s. IsService ds t \<longrightarrow> \<not> mhas (cf_cache s) (Some t, 0) \<longrightarrow> below rank t held s \<longrightarrow> builtIn s \<longrightarrow>
       settles s (create held t s))"

lemma chain_simps [simp]:
  "chainHas (chainAdd c t x) u \<longleftrightarrow> u = t \<or> chainHas c u" "chainHas (chainRemove c t) u \<longleftrightarrow> u \<noteq> t \<and> chainHas c u"
  by (auto simp: chainHas_def chainAdd_def chainRemove_def gomap)

lemma builtIn_simps [simp]:
  "builtIn (s\<lparr>cf_chain := c\<rparr>) = builtIn s" "builtIn (s\<lparr>cf_next := n\<rparr>) = builtIn s"
  by (simp_all add: builtIn_def)

lemma builtIn_store: "builtIn s \<Longrightarrow> builtIn (storeSite key cs s)"
  by (auto simp: builtIn_def storeSite_def gomap)

lemma below_shrinks: "below rank t held s \<Longrightarrow> chainKeys s' \<subseteq> chainKeys s \<Longrightarrow> below rank t held s'"
  by (auto simp: below_def)

lemma GetCallSite_settles:
  "settling rank ds create held \<Longrightarrow> IsService ds t \<Longrightarrow> below rank t held s \<Longrightarrow> builtIn s \<Longrightarrow>
   settles s (GetCallSite create held t s)"
  by (auto simp: GetCallSite_def settling_def settles_def split: option.split)

lemma args_settle:
  assumes "settling rank ds create held"
  shows "\<forall>a \<in> set ts. IsService ds a \<and> below rank a held s \<Longrightarrow> builtIn s \<Longrightarrow>
    settles s (createArgumentCallSites create held ts s)"
proof (induction ts arbitrary: s)
  case (Cons t ts)
  obtain r1 s1 where g: "GetCallSite create held t s = (r1, s1)" by fastforce
  have ok: "settles s (r1, s1)" using GetCallSite_settles [OF assms, of t s] Cons.prems g by simp
  show ?case
  proof (cases r1)
    case (Inl e)
    then show ?thesis using g ok by (simp add: settles_def)
  next
    case (Inr cs)
    then have sub: "chainKeys s1 \<subseteq> chainKeys s" "builtIn s1" using ok by (simp_all add: settles_def)
    have "settles s1 (createArgumentCallSites create held ts s1)"
      using Cons.IH [of s1] Cons.prems(1) below_shrinks [OF _ sub(1)] sub(2) by simp
    then show ?thesis
      using g Inr sub(1) by (auto simp: settles_def split: prod.splits sum.splits)
  qed
qed (simp add: settles_def)

definition notAbove :: "(rtype \<Rightarrow> nat) \<Rightarrow> rtype \<Rightarrow> rtype list \<Rightarrow> csState \<Rightarrow> bool" where
  "notAbove rank t held s \<longleftrightarrow> (\<forall>u \<in> chainKeys s \<union> set held. rank t \<le> rank u)"

lemma acyclic_args:
  assumes "acyclicDeps rank ds" "d \<in> set ds" "ds_Ctor d = Some c" "provides d t" "a \<in> set (ci_In c)"
  shows "IsService ds a \<and> rank a < rank (ds_ServiceType d) \<and> rank a < rank t"
proof -
  have "list_all (\<lambda>a. IsService ds a \<and> list_all (\<lambda>t. rank a < rank t) (typesOf d)) (ci_In c)"
    using assms(1,2,3) unfolding acyclicDeps_def list_all_iff [of _ ds] by fastforce
  then show ?thesis using assms(4,5) by (auto simp: list_all_iff descriptorImplements_def)
qed

lemma exact_settles:
  assumes st: "settling rank ds create held" and ac: "acyclicDeps rank ds" and d: "d \<in> set ds" "provides d t"
    and low: "notAbove rank t held s" and b: "builtIn s"
  shows "settles s (tryCreateExact create held d slot s)"
proof -
  define T where "T = ds_ServiceType d"
  have built: "settles s (createConstructorCallSite create held cache T c s)" if c: "ds_Ctor d = Some c" for cache c
  proof -
    define s1 where "s1 = s\<lparr>cf_chain := chainAdd (cf_chain s) T (Some c)\<rparr>"
    have "\<forall>a \<in> set (ci_In c). IsService ds a \<and> below rank a held s1"
      using acyclic_args [OF ac d(1) c d(2)] low
      by (auto simp: s1_def T_def below_def notAbove_def intro: less_le_trans)
    then have "settles s1 (createArgumentCallSites create held (ci_In c) s1)"
      using args_settle [OF st] b by (simp add: s1_def)
    then show ?thesis
      using b by (auto simp: createConstructorCallSite_def Let_def s1_def settles_def split: prod.splits sum.splits)
  qed
  have one: "\<not> (ds_Instance d = None \<and> ds_Factory d = None \<and> ds_Ctor d = None)"
    using ac d(1) by (auto simp: acyclicDeps_def list_all_iff)
  note simps = tryCreateExact_def T_def [symmetric] Let_def settles_def builtIn_store
  show ?thesis
  proof (cases rule: tryCreateExact_branches [of s d slot])
    case (ctor x)
    then show ?thesis
      using built [OF ctor(4), of "newResultCacheWithLifetime (ds_Lifetime d) T slot"]
      by (auto simp: simps split: prod.splits sum.splits)
  qed (use one b in \<open>simp_all add: simps\<close>)
qed

lemma elements_settle:
  assumes st: "settling rank ds create held" and ac: "acyclicDeps rank ds"
  shows "set es \<subseteq> {d \<in> set ds. provides d e} \<Longrightarrow> notAbove rank e held s \<Longrightarrow> builtIn s \<Longrightarrow>
    settles s (sliceElements create held num i es loc s)"
proof (induction es arbitrary: i loc s)
  case (Cons d es)
  obtain r1 s1 where x: "tryCreateExact create held d (num - i - 1) s = (r1, s1)" by fastforce
  have ok: "settles s (r1, s1)"
    using exact_settles [OF st ac _ _ Cons.prems(2,3), of d "num - i - 1"] Cons.prems(1) x by simp
  show ?case
  proof (cases r1)
    case (Inl e1)
    then show ?thesis using x ok by (simp add: settles_def)
  next
    case (Inr cs)
    then have sub: "chainKeys s1 \<subseteq> chainKeys s" "builtIn s1" using ok by (simp_all add: settles_def)
    have "notAbove rank e held s1" using Cons.prems(2) sub(1) by (auto simp: notAbove_def)
    then have "settles s1 (sliceElements create held num (Suc i) es
        (getCommonCacheLocation loc (rc_Location (csCache cs))) s1)"
      using Cons.IH Cons.prems(1) sub(2) by simp
    then show ?thesis using x Inr sub(1) by (auto simp: settles_def split: prod.splits sum.splits)
  qed
qed (simp add: settles_def)

lemma slice_settles:
  assumes st: "settling rank ds create held" and ac: "acyclicDeps rank ds" and k: "kindT t = KSlice"
    and low: "notAbove rank t held s" and b: "builtIn s"
  shows "settles s (createSlice (populate ds) create held t s)"
proof -
  obtain e where e: "t = SliceT e" using k by (cases t) auto
  define s1 where "s1 = s\<lparr>cf_chain := chainAdd (cf_chain s) t None\<rparr>"
  have "rank e < rank t" using ac e by (simp add: acyclicDeps_def)
  then have "notAbove rank e held s1" using low by (force simp: notAbove_def s1_def)
  moreover have "set (elementsOf ds t) \<subseteq> {d \<in> set ds. provides d e}" using elementsOf_from [of _ ds t] by (auto simp: e)
  ultimately have "settles s1 (sliceElements create held (length (elementsOf ds t)) 0 (elementsOf ds t) CacheLocation_Root s1)"
    using elements_settle [OF st ac] b by (simp add: s1_def)
  then show ?thesis
    using b unfolding createSlice_def elementsOf_def [symmetric] Let_def s1_def
    by (auto simp: settles_def split: option.splits prod.splits sum.splits)
qed

lemma create_settles:
  assumes ac: "acyclicDeps rank ds"
  shows "settling rank ds (createCallSite n (populate ds)) held"
proof (induction n arbitrary: held)
  case 0
  then show ?case by (simp add: settling_def settles_def)
next
  case (Suc n)
  have "settles s (createCallSite (Suc n) (populate ds) held t s)"
    if t: "IsService ds t" "mget (cf_cache s) (Some t, 0) = None" and low: "below rank t held s" and b: "builtIn s" for t s
  proof -
    have free: "\<not> chainHas (cf_chain s) t" "t \<notin> set held" using low by (auto simp: below_def)
    have am: "notAbove rank t (t # held) s" using low by (auto simp: below_def notAbove_def less_imp_le)
    show ?thesis
    proof (cases "mget (ix_lookup (populate ds)) t")
      case None
      have "kindT t = KSlice" using t b None by (auto simp: IsService_def builtIn_def)
      then show ?thesis using free None slice_settles [OF Suc.IH ac _ am b] by simp
    next
      case (Some dci)
      obtain d where d: "dciLast dci = Some d" "d \<in> set ds" "provides d t" using dciLast_from [OF Some] .
      then show ?thesis using free Some exact_settles [OF Suc.IH ac d(2,3) am b] by simp
    qed
  qed
  then show ?case by (simp add: settling_def)
qed

section \<open>Reachable states of the factory\<close>

inductive csReach :: "Descriptor list \<Rightarrow> csState \<Rightarrow> bool" for ds where
  csInit: "csReach ds builtInServices"
| csRequest: "csReach ds s \<Longrightarrow> csReach ds (snd (requestCallSite ds t s))"
| csDescriptor: "csReach ds s \<Longrightarrow> d \<in> set ds \<Longrightarrow> csReach ds (snd (GetCallSiteByDescriptor ds d s))"

lemma reach_cacheOk:
  assumes ct: "siteContract ds S R"
    and bi: "S (ContainerCallSite 0)" "S (ConstantCallSite 1 ScopeFactoryType (ScopeVal 0))"
      "S (ConstantCallSite 2 IsServiceType FactoryVal)"
  shows "csReach ds s \<Longrightarrow> cacheOk S s"
proof (induction rule: csReach.induct)
  case csInit
  then show ?case using bi by (auto simp: cacheOk_def builtInServices_def)
next
  case (csRequest s t)
  then show ?case using request_ok [OF ct, of s t] by (simp add: outcomeOk_def)
next
  case (csDescriptor s d)
  then show ?case using by_descriptor_ok [OF ct, of d s] by (simp add: exactOk_def)
qed

lemma request_settles:
  assumes "acyclicDeps rank ds" "IsService ds t" "builtIn s"
  shows "settles (s\<lparr>cf_chain := []\<rparr>) (requestCallSite ds t s)"
  unfolding requestCallSite_def
  by (rule GetCallSite_settles [OF create_settles [OF assms(1)] assms(2)]) (use assms(3) in \<open>simp_all add: below_def chainHas_def\<close>)

lemma reach_builtIn:
  assumes ac: "acyclicDeps rank ds"
  shows "csReach ds s \<Longrightarrow> builtIn s"
proof (induction rule: csReach.induct)
  case csInit
  then show ?case by (simp add: builtIn_def builtInServices_def)
next
  case (csRequest s t)
  show ?case
  proof (cases "IsService ds t")
    case True
    then show ?thesis using request_settles [OF ac True csRequest.IH] by (simp add: settles_def)
  next
    case False
    then show ?thesis
      using csRequest.IH
      by (simp add: IsService_def requestCallSite_def GetCallSite_def enough_def split: option.split)
  qed
next
  case (csDescriptor s d)
  have "settles (s\<lparr>cf_chain := []\<rparr>) (tryCreateExact (createCallSite (enough ds) (populate ds)) [] d slot (s\<lparr>cf_chain := []\<rparr>))" for slot
    by (rule exact_settles [OF create_settles [OF ac] ac csDescriptor(2)])
      (use csDescriptor.IH in \<open>auto simp: notAbove_def chainHas_def\<close>)
  then show ?case
    using csDescriptor.IH by (auto simp: GetCallSiteByDescriptor_def settles_def split: option.splits)
qed

text \<open>What a site of type \<open>a\<close> is requested for.\<close>

definition servesAs :: "Descriptor list \<Rightarrow> rtype \<Rightarrow> rtype \<Rightarrow> bool" where
  "servesAs ds a t \<longleftrightarrow> a = t \<or> list_ex (\<lambda>d. ds_ServiceType d = a \<and> provides d t) ds"

lemma servesAs_contract: "siteContract ds (\<lambda>_. True) (servesAs ds)"
  by (auto simp: siteContract_def servesAs_def list_ex_iff)

lemma request_serves: "csReach ds s \<Longrightarrow> outcomeOk (\<lambda>_. True) (servesAs ds) t (requestCallSite ds t s)"
  by (rule request_ok [OF servesAs_contract reach_cacheOk [OF servesAs_contract]]) simp_all

section \<open>Samples\<close>

text \<open>A handler that needs a repository and all stores; the repository implements the store interface.\<close>

abbreviation storeT :: rtype where "storeT \<equiv> InterfaceT ''app'' ''IStore''"

abbreviation repoT :: rtype where "repoT \<equiv> PtrT (StructT ''app'' ''Repo'')"

abbreviation handlerT :: rtype where "handlerT \<equiv> PtrT (StructT ''app'' ''Handler'')"

definition sampleCtor :: "nat \<Rightarrow> rtype list \<Rightarrow> rtype \<Rightarrow> ConstructorInfo" where
  "sampleCtor f ins out = \<lparr>ci_FuncValue = f, ci_IsFunc = True, ci_In = ins, ci_Out = [out]\<rparr>"

definition sampleDescriptor :: "nat \<Rightarrow> rtype \<Rightarrow> Lifetime \<Rightarrow> rtype list \<Rightarrow> rtype list \<Rightarrow> Descriptor" where
  "sampleDescriptor i t lifetime ins implemented =
    \<lparr>ds_Id = i, ds_ServiceType = t, ds_Lifetime = lifetime, ds_Ctor = Some (sampleCtor i ins t), ds_Instance = None,
     ds_Factory = None, ds_ImplementedInterfaceTypes = implemented, ds_LookupKeys = [], ds_Metadata = []\<rparr>"

definition sampleServices :: "Descriptor list" where
  "sampleServices =
    [sampleDescriptor 0 repoT Lifetime_Singleton [] [storeT],
     sampleDescriptor 1 handlerT Lifetime_Scoped [repoT, SliceT storeT] []]"

text \<open>The repository asks for the store it implements itself.\<close>

definition aliasCycle :: "Descriptor list" where
  "aliasCycle = [sampleDescriptor 0 repoT Lifetime_Singleton [storeT] [storeT]]"

definition typeCycle :: "Descriptor list" where
  "typeCycle = [sampleDescriptor 0 repoT Lifetime_Singleton [repoT] []]"

text \<open>Two singletons that implement one interface.\<close>

definition twoStores :: "Descriptor list" where
  "twoStores = [sampleDescriptor 0 repoT Lifetime_Singleton [] [storeT], sampleDescriptor 1 handlerT Lifetime_Singleton [] [storeT]]"

fun sampleRank :: "rtype \<Rightarrow> nat" where
  "sampleRank (SliceT e) = Suc (sampleRank e)"
| "sampleRank (PtrT (StructT p n)) = (if n = ''Handler'' then 4 else 1)"
| "sampleRank t = 1"

lemmas sample_simps = sampleServices_def aliasCycle_def typeCycle_def twoStores_def sampleDescriptor_def sampleCtor_def

lemma sample_acyclic: "acyclicDeps sampleRank sampleServices"
  by (simp add: acyclicDeps_def sample_simps IsService_def populate_def populateOne_def addTo_def)

section \<open>Properties\<close>



text \<open>
  C35: When the registered services have no dependency cycle and every constructor parameter is a service, a
  request for any service gives a call site: no false circular dependency, no goroutine that waits for a lock
  it holds, no missing service.
\<close>
theorem acyclic_registration_resolves:
  assumes "acyclicDeps rank ds" "csReach ds s" "IsService ds t"
  shows "\<exists>cs. fst (requestCallSite ds t s) = Inr cs"
proof -
  have "settles (s\<lparr>cf_chain := []\<rparr>) (requestCallSite ds t s)"
    using request_settles [OF assms(1,3) reach_builtIn [OF assms(1,2)]] .
  moreover have "fst (requestCallSite ds t s) \<noteq> Inl OutOfFuel"
    using request_serves [OF assms(2), of t]
    by (auto simp: outcomeOk_def)
  ultimately show ?thesis by (auto simp: settles_def split: sum.splits)
qed

theorem acyclic_registration_resolves_witness:
  "acyclicDeps sampleRank sampleServices \<and> csReach sampleServices builtInServices \<and>
   IsService sampleServices handlerT \<and>
   (\<exists>cs. fst (requestCallSite sampleServices handlerT builtInServices) = Inr cs)"
proof -
  have "IsService sampleServices handlerT" by code_simp
  then show ?thesis
    using acyclic_registration_resolves [OF sample_acyclic csInit] sample_acyclic csInit by blast
qed

text \<open>
  A dependency cycle through an implemented interface is not reported: the chain holds the concrete type
  and the lock the interface type, so the request waits for the lock it holds itself. The same cycle through
  the service type is reported as circular.
\<close>
theorem alias_cycle_waits_for_itself:
  "fst (requestCallSite aliasCycle storeT builtInServices) = Inl Blocked \<and>
   fst (requestCallSite typeCycle repoT builtInServices) = Inl (CircularDependency repoT)"
  by code_simp

text \<open>
  A singleton that implements an interface beside another one has two call sites: one with the slot it has
  among the implementations of the interface, found through the slice of the interface, and one with the
  default slot, found through its own type.
\<close>
theorem alias_slot_splits_singleton:
  "case requestCallSite twoStores (SliceT storeT) builtInServices of
     (Inr (SliceCallSite _ _ [first, _] _), s) \<Rightarrow>
       csServiceType first = repoT \<and>
       (case requestCallSite twoStores repoT s of
          (Inr own, _) \<Rightarrow> csServiceType own = repoT \<and> csId own \<noteq> csId first \<and>
            rc_Location (csCache own) = CacheLocation_Root \<and> rc_Location (csCache first) = CacheLocation_Root
        | _ \<Rightarrow> False)
   | _ \<Rightarrow> False"
  by code_simp

end
