(* ===== verification/DI_Resolver.thy ===== *)
theory DI_Resolver
  imports DI_CallSites
begin

text \<open>
  Resolving call sites (\<open>.github/skills/fluffy-dozm-di/resolver.go\<close>, \<open>scope.go\<close>): how the tree of a call site
  becomes a value in a scope, with the value cached in a root site, the services of a scope, the disposables a
  scope has to dispose, and the locks.

  Constructors and factories are user code: the record \<open>runtime\<close> gives their results, and they do not call the
  container. Their panics, and those of package reflect, are the error \<open>Panicked\<close>, which the container recovers
  from. A \<open>Dispose\<close> call is an event of the log \<open>w_disposals\<close>. One goroutine runs at a time; a mutex it would
  lock a second time is the outcome \<open>LockedTwice\<close>.
\<close>

section \<open>Scopes\<close>

record scope =
  sc_ResolvedServices :: "(ServiceCacheKey, val) gomap option"
  sc_disposed :: bool
  sc_disposables :: "val list"

definition newEngineScope :: scope where
  "newEngineScope = \<lparr>sc_ResolvedServices = Some [], sc_disposed = False, sc_disposables = []\<rparr>"

text \<open>Scope 0 is the root scope. \<open>w_tick\<close> counts the calls of user code, which tells fresh objects apart;
  \<open>w_values\<close> is the \<open>value\<close> field of the call sites; \<open>w_closed\<close> the \<open>disposed\<close> flag of the container.\<close>

record world =
  w_values :: "(callSite, val) gomap"
  w_scope :: "nat \<Rightarrow> scope"
  w_count :: nat
  w_tick :: nat
  w_disposals :: "val list"
  w_closed :: bool

definition newWorld :: world where
  "newWorld = \<lparr>w_values = [], w_scope = (\<lambda>_. newEngineScope), w_count = 1, w_tick = 0, w_disposals = [], w_closed = False\<rparr>"

record runtime =
  rt_types :: typeEnv
  rt_construct :: "nat \<Rightarrow> val list \<Rightarrow> nat \<Rightarrow> val list option"
  rt_factory :: "nat \<Rightarrow> nat \<Rightarrow> nat \<Rightarrow> val option"

datatype resolveError =
    ConstructorError val | SecondNotError | UnexpectedOutputs | CaptureAfterDispose | Panicked | LockedTwice

definition DisposableType :: rtype where "DisposableType = InterfaceT ''di'' ''Disposable''"

text \<open>A type assertion to an interface.\<close>

definition asserts :: "runtime \<Rightarrow> val \<Rightarrow> rtype \<Rightarrow> bool" where
  "asserts rt v t = (case typeOfVal v of None \<Rightarrow> False | Some d \<Rightarrow> te_Implements (rt_types rt) d t)"

text \<open>The effects on the world.\<close>

definition onScope :: "nat \<Rightarrow> (scope \<Rightarrow> scope) \<Rightarrow> world \<Rightarrow> world" where
  "onScope s f w = w\<lparr>w_scope := (w_scope w)(s := f (w_scope w s))\<rparr>"

definition called :: "world \<Rightarrow> world" where
  "called w = w\<lparr>w_tick := Suc (w_tick w)\<rparr>"

definition disposeNow :: "val \<Rightarrow> world \<Rightarrow> world" where
  "disposeNow v w = w\<lparr>w_disposals := w_disposals w @ [v]\<rparr>"

definition keep :: "nat \<Rightarrow> val \<Rightarrow> world \<Rightarrow> world" where
  "keep s v w = onScope s (\<lambda>c. c\<lparr>sc_disposables := sc_disposables c @ [v]\<rparr>) w"

definition SetValue :: "callSite \<Rightarrow> val \<Rightarrow> world \<Rightarrow> world" where
  "SetValue cs v w = w\<lparr>w_values := mput cs v (w_values w)\<rparr>"

definition setResolved :: "nat \<Rightarrow> ServiceCacheKey \<Rightarrow> val \<Rightarrow> world \<Rightarrow> world" where
  "setResolved s key v w = onScope s (\<lambda>c. c\<lparr>sc_ResolvedServices := map_option (mput key v) (sc_ResolvedServices c)\<rparr>) w"

definition CaptureDisposableWithoutLock :: "runtime \<Rightarrow> nat \<Rightarrow> val \<Rightarrow> world \<Rightarrow> (resolveError + unit) \<times> world" where
  "CaptureDisposableWithoutLock rt s v w =
    (if v = ScopeVal s \<or> \<not> asserts rt v DisposableType then (Inr (), w)
     else if sc_disposed (w_scope w s) then (Inl CaptureAfterDispose, disposeNow v w)
     else (Inr (), keep s v w))"

text \<open>\<open>held\<close>: the scopes whose \<open>Locker\<close> the goroutine holds.\<close>

definition CaptureDisposable :: "runtime \<Rightarrow> nat list \<Rightarrow> nat \<Rightarrow> val \<Rightarrow> world \<Rightarrow> (resolveError + unit) \<times> world" where
  "CaptureDisposable rt held s v w =
    (if v = ScopeVal s \<or> \<not> asserts rt v DisposableType then (Inr (), w)
     else if s \<in> set held then (Inl LockedTwice, w)
     else if sc_disposed (w_scope w s) then (Inl CaptureAfterDispose, disposeNow v w)
     else (Inr (), keep s v w))"

section \<open>The resolver\<close>

text \<open>The flags of \<open>AcquiredLocks\<close>, and the scope locks that are really held.\<close>

record resolverContext =
  cx_Scope :: nat
  cx_ScopeLock :: bool
  cx_RootLock :: bool
  cx_held :: "nat list"

type_synonym visitor = "resolverContext \<Rightarrow> world \<Rightarrow> (resolveError + val) \<times> world"

text \<open>In the cache visitors \<open>main\<close> is \<open>visitCallSiteMain\<close> of the site. The value is loaded again once the lock of
  the site is held, which gives the same with one goroutine; a site is not below itself, so that lock is free.
  Storing nil in an \<open>atomic.Value\<close> panics.\<close>

definition visitRootCache :: "runtime \<Rightarrow> callSite \<Rightarrow> visitor \<Rightarrow> visitor" where
  "visitRootCache rt cs main ctx w =
    (case mget (w_values w) cs of
       Some v \<Rightarrow> (Inr v, w)
     | None \<Rightarrow>
         (case main (ctx\<lparr>cx_Scope := 0, cx_RootLock := True\<rparr>) w of
            (Inl e, w1) \<Rightarrow> (Inl e, w1)
          | (Inr v, w1) \<Rightarrow>
              (case CaptureDisposable rt (cx_held ctx) 0 v w1 of
                 (Inl e, w2) \<Rightarrow> (Inl e, w2)
               | (Inr _, w2) \<Rightarrow> if v = NilVal then (Inl Panicked, w2) else (Inr v, SetValue cs v w2))))"

text \<open>A write to the nil map of a disposed scope panics.\<close>

definition visitScopeCache :: "runtime \<Rightarrow> callSite \<Rightarrow> visitor \<Rightarrow> visitor" where
  "visitScopeCache rt cs main ctx w =
    (let s = cx_Scope ctx; key = rc_Key (csCache cs) in
     if s = 0 then visitRootCache rt cs main ctx w
     else if \<not> cx_ScopeLock ctx \<and> s \<in> set (cx_held ctx) then (Inl LockedTwice, w)
     else
       (case Option.bind (sc_ResolvedServices (w_scope w s)) (\<lambda>m. mget m key) of
          Some v \<Rightarrow> (Inr v, w)
        | None \<Rightarrow>
            (case main (ctx\<lparr>cx_ScopeLock := True,
                cx_held := (if cx_ScopeLock ctx then cx_held ctx else s # cx_held ctx)\<rparr>) w of
               (Inl e, w1) \<Rightarrow> (Inl e, w1)
             | (Inr v, w1) \<Rightarrow>
                 (case CaptureDisposableWithoutLock rt s v w1 of
                    (Inl e, w2) \<Rightarrow> (Inl e, w2)
                  | (Inr _, w2) \<Rightarrow>
                      if sc_ResolvedServices (w_scope w2 s) = None then (Inl Panicked, w2)
                      else (Inr v, setResolved s key v w2)))))"

definition visitDisposeCache :: "runtime \<Rightarrow> visitor \<Rightarrow> visitor" where
  "visitDisposeCache rt main ctx w =
    (case main ctx w of
       (Inl e, w1) \<Rightarrow> (Inl e, w1)
     | (Inr v, w1) \<Rightarrow>
         (case CaptureDisposable rt (cx_held ctx) (cx_Scope ctx) v w1 of
            (Inl e, w2) \<Rightarrow> (Inl e, w2)
          | (Inr _, w2) \<Rightarrow> (Inr v, w2)))"

definition visitBy :: "runtime \<Rightarrow> callSite \<Rightarrow> visitor \<Rightarrow> visitor" where
  "visitBy rt cs main =
    (case rc_Location (csCache cs) of
       CacheLocation_Root \<Rightarrow> visitRootCache rt cs main
     | CacheLocation_Scope \<Rightarrow> visitScopeCache rt cs main
     | CacheLocation_Dispose \<Rightarrow> visitDisposeCache rt main
     | CacheLocation_None \<Rightarrow> main)"

text \<open>\<open>reflect.Zero\<close>; the object 0 of a type is its zero value.\<close>

definition zeroVal :: "rtype \<Rightarrow> val" where
  "zeroVal t = (if kindT t = KInterface then NilVal else Obj t 0)"

text \<open>A reflected argument has the static type of the site when the value is nil, and its dynamic type otherwise.\<close>

definition argTypeOf :: "callSite \<Rightarrow> val \<Rightarrow> rtype" where
  "argTypeOf p v = (case typeOfVal v of None \<Rightarrow> csServiceType p | Some d \<Rightarrow> d)"

definition argValue :: "callSite \<Rightarrow> val \<Rightarrow> val" where
  "argValue p v = (if v = NilVal then zeroVal (csServiceType p) else v)"

text \<open>\<open>reflect.Value.Call\<close> panics on an argument that is not assignable to its parameter.\<close>

definition callable :: "runtime \<Rightarrow> ConstructorInfo \<Rightarrow> callSite list \<Rightarrow> val list \<Rightarrow> bool" where
  "callable rt ctor ps vs \<longleftrightarrow>
    length vs = length (ci_In ctor) \<and>
    list_all2 (te_AssignableTo (rt_types rt)) (map2 argTypeOf ps vs) (ci_In ctor)"

definition afterCall :: "runtime \<Rightarrow> val list \<Rightarrow> resolveError + val" where
  "afterCall rt outs =
    (case outs of
       [v] \<Rightarrow> Inr v
     | [v, e] \<Rightarrow>
         if e = NilVal then Inr v
         else if asserts rt e errorType then Inl (ConstructorError e) else Inl SecondNotError
     | _ \<Rightarrow> Inl UnexpectedOutputs)"

definition invokeCtor :: "runtime \<Rightarrow> ConstructorInfo \<Rightarrow> callSite list \<Rightarrow> val list \<Rightarrow> world \<Rightarrow> (resolveError + val) \<times> world" where
  "invokeCtor rt ctor ps vs w =
    (if \<not> callable rt ctor ps vs then (Inl Panicked, w)
     else
       (case rt_construct rt (ci_FuncValue ctor) (map2 argValue ps vs) (w_tick w) of
          None \<Rightarrow> (Inl Panicked, called w)
        | Some outs \<Rightarrow> (afterCall rt outs, called w)))"

definition visitFactory :: "runtime \<Rightarrow> nat \<Rightarrow> visitor" where
  "visitFactory rt f ctx w =
    (case rt_factory rt f (cx_Scope ctx) (w_tick w) of
       None \<Rightarrow> (Inl Panicked, called w)
     | Some v \<Rightarrow> (Inr v, called w))"

text \<open>\<open>Set\<close> on an element of the slice panics on nil and on a value of another type.\<close>

definition settable :: "runtime \<Rightarrow> val \<Rightarrow> rtype \<Rightarrow> bool" where
  "settable rt v e = (case typeOfVal v of None \<Rightarrow> False | Some d \<Rightarrow> te_AssignableTo (rt_types rt) d e)"

fun visitCallSiteMain :: "runtime \<Rightarrow> callSite \<Rightarrow> visitor"
  and visitParameters :: "runtime \<Rightarrow> callSite list \<Rightarrow> resolverContext \<Rightarrow> world \<Rightarrow> (resolveError + val list) \<times> world"
  and visitElements :: "runtime \<Rightarrow> rtype \<Rightarrow> callSite list \<Rightarrow> resolverContext \<Rightarrow> world \<Rightarrow> (resolveError + val list) \<times> world"
where
  "visitCallSiteMain rt (ConstantCallSite _ _ v) = (\<lambda>ctx w. (Inr v, w))"
| "visitCallSiteMain rt (FactoryCallSite _ _ _ f) = visitFactory rt f"
| "visitCallSiteMain rt (ConstructorCallSite _ _ ctor ps _) =
    (\<lambda>ctx w.
       case visitParameters rt ps ctx w of
         (Inl e, w1) \<Rightarrow> (Inl e, w1)
       | (Inr vs, w1) \<Rightarrow> invokeCtor rt ctor ps vs w1)"
| "visitCallSiteMain rt (ContainerCallSite _) = (\<lambda>ctx w. (Inr (ScopeVal (cx_Scope ctx)), w))"
| "visitCallSiteMain rt (SliceCallSite _ e cs _) =
    (\<lambda>ctx w.
       case visitElements rt e cs ctx w of
         (Inl err, w1) \<Rightarrow> (Inl err, w1)
       | (Inr vs, w1) \<Rightarrow> (Inr (SliceVal e vs), w1))"
| "visitParameters rt [] = (\<lambda>ctx w. (Inr [], w))"
| "visitParameters rt (p # ps) =
    (\<lambda>ctx w.
       case visitBy rt p (visitCallSiteMain rt p) ctx w of
         (Inl e, w1) \<Rightarrow> (Inl e, w1)
       | (Inr v, w1) \<Rightarrow>
           (case visitParameters rt ps ctx w1 of
              (Inl e, w2) \<Rightarrow> (Inl e, w2)
            | (Inr vs, w2) \<Rightarrow> (Inr (v # vs), w2)))"
| "visitElements rt e [] = (\<lambda>ctx w. (Inr [], w))"
| "visitElements rt e (c # cs) =
    (\<lambda>ctx w.
       case visitBy rt c (visitCallSiteMain rt c) ctx w of
         (Inl err, w1) \<Rightarrow> (Inl err, w1)
       | (Inr v, w1) \<Rightarrow>
           if \<not> settable rt v e then (Inl Panicked, w1)
           else
             (case visitElements rt e cs ctx w1 of
                (Inl err, w2) \<Rightarrow> (Inl err, w2)
              | (Inr vs, w2) \<Rightarrow> (Inr (v # vs), w2)))"

definition visitCallSite :: "runtime \<Rightarrow> callSite \<Rightarrow> visitor" where
  "visitCallSite rt cs = visitBy rt cs (visitCallSiteMain rt cs)"

definition Resolve :: "runtime \<Rightarrow> callSite \<Rightarrow> nat \<Rightarrow> world \<Rightarrow> (resolveError + val) \<times> world" where
  "Resolve rt cs s w =
    (let visit = visitCallSite rt cs \<lparr>cx_Scope = s, cx_ScopeLock = False, cx_RootLock = False, cx_held = []\<rparr> w in
     if s = 0 then (case mget (w_values w) cs of Some v \<Rightarrow> (Inr v, w) | None \<Rightarrow> visit) else visit)"

section \<open>Disposing\<close>

text \<open>Disposing the root scope disposes the container, whose own call of \<open>Dispose\<close> on the root finds it disposed.\<close>

definition BeginDispose :: "nat \<Rightarrow> world \<Rightarrow> val list \<times> world" where
  "BeginDispose s w =
    (if sc_disposed (w_scope w s) then ([], w)
     else
       (sc_disposables (w_scope w s),
        onScope s (\<lambda>_. \<lparr>sc_ResolvedServices = None, sc_disposed = True, sc_disposables = []\<rparr>)
          (if s = 0 then w\<lparr>w_closed := True\<rparr> else w)))"

definition DisposeScope :: "nat \<Rightarrow> world \<Rightarrow> world" where
  "DisposeScope s w =
    (let (disposables, w') = BeginDispose s w in foldl (\<lambda>w v. disposeNow v w) w' (rev disposables))"

definition DisposeContainer :: "world \<Rightarrow> world" where
  "DisposeContainer w = DisposeScope 0 (w\<lparr>w_closed := True\<rparr>)"

definition CreateScope :: "world \<Rightarrow> (nat \<times> world) option" where
  "CreateScope w =
    (if w_closed w then None
     else Some (w_count w, (onScope (w_count w) (\<lambda>_. newEngineScope) w)\<lparr>w_count := Suc (w_count w)\<rparr>))"

section \<open>Invariants of a visit\<close>

text \<open>
  What a visit of a site keeps: \<open>J\<close> is an invariant of the world that every effect of the resolver keeps, \<open>S\<close> a
  property of sites that their children inherit, \<open>D\<close> one that also depends on the context of the visit, \<open>V\<close> what
  is known of the value of a site of a type, and \<open>E\<close> which errors there can be.
\<close>

definition captured :: "runtime \<Rightarrow> nat \<Rightarrow> val \<Rightarrow> world \<Rightarrow> bool" where
  "captured rt s v w \<longleftrightarrow>
    v = ScopeVal s \<or> \<not> asserts rt v DisposableType \<or> v \<in> set (sc_disposables (w_scope w s))"

definition resolvedAt :: "world \<Rightarrow> nat \<Rightarrow> ServiceCacheKey \<Rightarrow> val option" where
  "resolvedAt w s key = Option.bind (sc_ResolvedServices (w_scope w s)) (\<lambda>m. mget m key)"

abbreviation siteKey :: "callSite \<Rightarrow> ServiceCacheKey" where
  "siteKey cs \<equiv> rc_Key (csCache cs)"

text \<open>The contexts of a visit: a new request, below a root site, and below a site cached in the scope.\<close>

definition newContext :: "nat \<Rightarrow> resolverContext" where
  "newContext s = \<lparr>cx_Scope = s, cx_ScopeLock = False, cx_RootLock = False, cx_held = []\<rparr>"

abbreviation rootContext :: "resolverContext \<Rightarrow> resolverContext" where
  "rootContext ctx \<equiv> ctx\<lparr>cx_Scope := 0, cx_RootLock := True\<rparr>"

definition scopeContext :: "resolverContext \<Rightarrow> resolverContext" where
  "scopeContext ctx =
    ctx\<lparr>cx_ScopeLock := True, cx_held := (if cx_ScopeLock ctx then cx_held ctx else cx_Scope ctx # cx_held ctx)\<rparr>"

definition atRoot :: "resolverContext \<Rightarrow> callSite \<Rightarrow> bool" where
  "atRoot ctx cs \<longleftrightarrow> rc_Location (csCache cs) = CacheLocation_Root \<or>
    rc_Location (csCache cs) = CacheLocation_Scope \<and> cx_Scope ctx = 0"

definition atScope :: "resolverContext \<Rightarrow> callSite \<Rightarrow> bool" where
  "atScope ctx cs \<longleftrightarrow> rc_Location (csCache cs) = CacheLocation_Scope \<and> cx_Scope ctx \<noteq> 0"

locale visit_invariant =
  fixes rt :: runtime and S :: "callSite \<Rightarrow> bool" and D :: "resolverContext \<Rightarrow> callSite \<Rightarrow> bool"
    and V :: "rtype \<Rightarrow> val \<Rightarrow> bool" and E :: "resolveError \<Rightarrow> bool" and J :: "world \<Rightarrow> bool"
  assumes children: "S cs \<Longrightarrow> list_all S (csChildren cs)"
    and childrenPlain: "D ctx cs \<Longrightarrow> rc_Location (csCache cs) \<in> {CacheLocation_Dispose, CacheLocation_None} \<Longrightarrow>
      list_all (D ctx) (csChildren cs)"
    and childrenRoot: "D ctx cs \<Longrightarrow> atRoot ctx cs \<Longrightarrow> list_all (D (rootContext ctx)) (csChildren cs)"
    and childrenScope: "D ctx cs \<Longrightarrow> atScope ctx cs \<Longrightarrow> list_all (D (scopeContext ctx)) (csChildren cs)"
    and constantV: "S (ConstantCallSite i t v) \<Longrightarrow> V t v"
    and factoryV: "S (FactoryCallSite i t c f) \<Longrightarrow>
      case rt_factory rt f s n of None \<Rightarrow> E Panicked | Some v \<Rightarrow> V t v"
    and callE: "S (ConstructorCallSite i t ctor ps c) \<Longrightarrow> list_all2 (\<lambda>p v. V (csServiceType p) v) ps vs \<Longrightarrow>
      \<not> callable rt ctor ps vs \<Longrightarrow> E Panicked"
    and ctorV: "S (ConstructorCallSite i t ctor ps c) \<Longrightarrow>
      case rt_construct rt (ci_FuncValue ctor) args n of
        None \<Rightarrow> E Panicked
      | Some outs \<Rightarrow> (case afterCall rt outs of Inl e \<Rightarrow> E e | Inr v \<Rightarrow> V t v)"
    and containerV: "V ContainerType (ScopeVal s)"
    and elementE: "S (SliceCallSite i elem es c) \<Longrightarrow> p \<in> set es \<Longrightarrow> V (csServiceType p) v \<Longrightarrow> \<not> settable rt v elem \<Longrightarrow> E Panicked"
    and sliceV: "list_all (\<lambda>v. settable rt v elem) vs \<Longrightarrow> V (SliceT elem) (SliceVal elem vs)"
    and calledJ: "J w \<Longrightarrow> J (called w)"
    and disposeJ: "J w \<Longrightarrow> J (disposeNow v w)" "E CaptureAfterDispose"
    and keepJ: "J w \<Longrightarrow> \<not> sc_disposed (w_scope w s) \<Longrightarrow> J (keep s v w)"
    and rootLock: "D ctx cs \<Longrightarrow> atRoot ctx cs \<Longrightarrow> 0 \<in> set (cx_held ctx) \<Longrightarrow> E LockedTwice"
    and scopeLock: "D ctx cs \<Longrightarrow> atScope ctx cs \<Longrightarrow> \<not> cx_ScopeLock ctx \<Longrightarrow> cx_Scope ctx \<in> set (cx_held ctx) \<Longrightarrow> E LockedTwice"
    and disposeLock: "D ctx cs \<Longrightarrow> rc_Location (csCache cs) = CacheLocation_Dispose \<Longrightarrow>
      cx_Scope ctx \<in> set (cx_held ctx) \<Longrightarrow> E LockedTwice"
    and nilE: "S cs \<Longrightarrow> V (csServiceType cs) NilVal \<Longrightarrow> E Panicked"
    and nilMapE: "D ctx cs \<Longrightarrow> atScope ctx cs \<Longrightarrow> J w \<Longrightarrow> sc_ResolvedServices (w_scope w (cx_Scope ctx)) = None \<Longrightarrow> E Panicked"
    and valueJ: "J w0 \<Longrightarrow> mget (w_values w0) cs = None \<Longrightarrow> J w \<Longrightarrow> S cs \<Longrightarrow> D ctx cs \<Longrightarrow> atRoot ctx cs \<Longrightarrow>
      V (csServiceType cs) v \<Longrightarrow> captured rt 0 v w \<Longrightarrow> v \<noteq> NilVal \<Longrightarrow> J (SetValue cs v w)"
    and resolvedJ: "J w0 \<Longrightarrow> resolvedAt w0 (cx_Scope ctx) (siteKey cs) = None \<Longrightarrow> J w \<Longrightarrow> S cs \<Longrightarrow> D ctx cs \<Longrightarrow>
      atScope ctx cs \<Longrightarrow> V (csServiceType cs) v \<Longrightarrow> captured rt (cx_Scope ctx) v w \<Longrightarrow>
      J (setResolved (cx_Scope ctx) (siteKey cs) v w)"
    and valueV: "J w \<Longrightarrow> S cs \<Longrightarrow> mget (w_values w) cs = Some v \<Longrightarrow> V (csServiceType cs) v"
    and resolvedV: "J w \<Longrightarrow> S cs \<Longrightarrow> atScope ctx cs \<Longrightarrow>
      resolvedAt w (cx_Scope ctx) (siteKey cs) = Some v \<Longrightarrow> V (csServiceType cs) v"
begin

definition okOut :: "rtype \<Rightarrow> (resolveError + val) \<times> world \<Rightarrow> bool" where
  "okOut t out \<longleftrightarrow> J (snd out) \<and> (case fst out of Inl e \<Rightarrow> E e | Inr v \<Rightarrow> V t v)"

lemma capture_ok:
  assumes "J w" "s \<in> set held \<Longrightarrow> E LockedTwice" "CaptureDisposable rt held s v w = (r, w')"
  shows "J w' \<and> (case r of Inl e \<Rightarrow> E e | Inr _ \<Rightarrow> captured rt s v w')"
  using assms keepJ disposeJ
  by (auto simp: CaptureDisposable_def captured_def keep_def onScope_def split: if_splits)

lemma capture_unlocked_ok:
  assumes "J w" "CaptureDisposableWithoutLock rt s v w = (r, w')"
  shows "J w' \<and> (case r of Inl e \<Rightarrow> E e | Inr _ \<Rightarrow> captured rt s v w')"
  using assms keepJ disposeJ
  by (auto simp: CaptureDisposableWithoutLock_def captured_def keep_def onScope_def split: if_splits)

lemma root_ok:
  assumes S: "S cs" "D ctx cs" "atRoot ctx cs"
    and main: "okOut (csServiceType cs) (main (rootContext ctx) w)" and w: "J w"
  shows "okOut (csServiceType cs) (visitRootCache rt cs main ctx w)"
proof (cases "mget (w_values w) cs")
  case (Some v)
  then show ?thesis using valueV [OF w S(1)] w by (simp add: visitRootCache_def okOut_def)
next
  case None
  obtain r w1 where m: "main (rootContext ctx) w = (r, w1)" by fastforce
  show ?thesis
  proof (cases r)
    case (Inl e)
    then show ?thesis using None m main by (simp add: visitRootCache_def okOut_def)
  next
    case (Inr v)
    obtain r2 w2 where c: "CaptureDisposable rt (cx_held ctx) 0 v w1 = (r2, w2)" by fastforce
    have *: "J w1" "V (csServiceType cs) v" using main m Inr by (simp_all add: okOut_def)
    note cap = capture_ok [OF *(1) rootLock [OF S(2,3)] c]
    show ?thesis
      using None m Inr c * cap nilE [OF S(1)] valueJ [OF w None _ S]
      by (cases r2) (auto simp: visitRootCache_def okOut_def)
  qed
qed

lemma scope_ok:
  assumes S: "S cs" "D ctx cs" "atScope ctx cs"
    and main: "okOut (csServiceType cs) (main (scopeContext ctx) w)" and w: "J w"
  shows "okOut (csServiceType cs) (visitScopeCache rt cs main ctx w)"
proof -
  define s where "s = cx_Scope ctx"
  have s: "s \<noteq> 0" using S(3) by (simp add: atScope_def s_def)
  consider (wait) "\<not> cx_ScopeLock ctx" "s \<in> set (cx_held ctx)"
    | (found) v where "cx_ScopeLock ctx \<or> s \<notin> set (cx_held ctx)" "resolvedAt w s (siteKey cs) = Some v"
    | (new) "cx_ScopeLock ctx \<or> s \<notin> set (cx_held ctx)" "resolvedAt w s (siteKey cs) = None"
    by (cases "resolvedAt w s (siteKey cs)") auto
  then show ?thesis
  proof cases
    case wait
    then show ?thesis
      using w s scopeLock [OF S(2,3)] by (simp add: visitScopeCache_def s_def okOut_def Let_def)
  next
    case found
    then show ?thesis
      using w s resolvedV [OF w S(1,3)] by (auto simp: visitScopeCache_def s_def okOut_def Let_def resolvedAt_def)
  next
    case new
    obtain r w1 where m: "main (scopeContext ctx) w = (r, w1)" by fastforce
    have eq: "visitScopeCache rt cs main ctx w =
        (case (r, w1) of (Inl e, w1) \<Rightarrow> (Inl e, w1)
         | (Inr v, w1) \<Rightarrow>
             (case CaptureDisposableWithoutLock rt s v w1 of
                (Inl e, w2) \<Rightarrow> (Inl e, w2)
              | (Inr _, w2) \<Rightarrow> if sc_ResolvedServices (w_scope w2 s) = None then (Inl Panicked, w2)
                  else (Inr v, setResolved s (siteKey cs) v w2)))"
      using new s m unfolding visitScopeCache_def s_def [symmetric] scopeContext_def
      by (auto simp: Let_def resolvedAt_def)
    show ?thesis
    proof (cases r)
      case (Inr v)
      obtain r2 w2 where c: "CaptureDisposableWithoutLock rt s v w1 = (r2, w2)" by fastforce
      have *: "J w1" "V (csServiceType cs) v" using main m Inr by (simp_all add: okOut_def)
      note cap = capture_unlocked_ok [OF *(1) c]
      show ?thesis
        using Inr c * cap nilMapE [OF S(2,3)] resolvedJ [OF w new(2) [unfolded s_def] _ S]
        unfolding eq by (cases r2) (auto simp: okOut_def s_def)
    qed (use main m eq in \<open>simp add: okOut_def\<close>)
  qed
qed

lemma dispose_ok:
  assumes D: "D ctx cs" "rc_Location (csCache cs) = CacheLocation_Dispose" and main: "okOut t (main ctx w)"
  shows "okOut t (visitDisposeCache rt main ctx w)"
proof -
  obtain r w1 where m: "main ctx w = (r, w1)" by fastforce
  show ?thesis
  proof (cases r)
    case (Inr v)
    obtain r2 w2 where c: "CaptureDisposable rt (cx_held ctx) (cx_Scope ctx) v w1 = (r2, w2)" by fastforce
    have *: "J w1" "V t v" using main m Inr by (simp_all add: okOut_def)
    show ?thesis
      using m Inr c * capture_ok [OF *(1) disposeLock [OF D] c]
      by (cases r2) (simp_all add: visitDisposeCache_def okOut_def)
  qed (use main m in \<open>simp add: visitDisposeCache_def okOut_def\<close>)
qed

text \<open>The visit of a site in a context, when its main visit is fine wherever its children are.\<close>

lemma visitBy_ok:
  assumes cs: "S cs" "D ctx cs" and w: "J w"
    and main: "\<And>ctx. list_all (D ctx) (csChildren cs) \<Longrightarrow> okOut (csServiceType cs) (main ctx w)"
  shows "okOut (csServiceType cs) (visitBy rt cs main ctx w)"
proof -
  have root: "okOut (csServiceType cs) (visitRootCache rt cs main ctx w)" if "atRoot ctx cs"
    using root_ok [OF cs that, of main w] main childrenRoot [OF cs(2) that] w by blast
  have scoped: "okOut (csServiceType cs) (visitScopeCache rt cs main ctx w)" if "atScope ctx cs"
    using scope_ok [OF cs that, of main w] main childrenScope [OF cs(2) that] w by blast
  have plain: "okOut (csServiceType cs) (main ctx w)"
    if "rc_Location (csCache cs) \<in> {CacheLocation_Dispose, CacheLocation_None}"
    using main childrenPlain [OF cs(2) that] by blast
  have disposed: "okOut (csServiceType cs) (visitDisposeCache rt main ctx w)"
    if "rc_Location (csCache cs) = CacheLocation_Dispose"
    using dispose_ok [OF cs(2) that, of "csServiceType cs" main w] plain that by blast
  show ?thesis
    using root scoped plain disposed
    by (cases "rc_Location (csCache cs)"; cases "cx_Scope ctx = 0")
      (simp_all add: visitBy_def visitScopeCache_def atRoot_def atScope_def)
qed

lemma invoke_ok:
  assumes "S (ConstructorCallSite i t ctor ps c)" "J w" "list_all2 (\<lambda>p v. V (csServiceType p) v) ps vs"
  shows "okOut t (invokeCtor rt ctor ps vs w)"
  using assms calledJ callE [OF assms(1,3)] ctorV [OF assms(1), of "map2 argValue ps vs" "w_tick w"]
  by (auto simp: invokeCtor_def okOut_def split: option.splits)

abbreviation mainOk :: "callSite \<Rightarrow> bool" where
  "mainOk p \<equiv> (\<forall>ctx w. list_all (D ctx) (csChildren p) \<longrightarrow> J w \<longrightarrow> okOut (csServiceType p) (visitCallSiteMain rt p ctx w))"

lemma parameters_ok:
  assumes "list_all mainOk ps" "list_all S ps" "list_all (D ctx) ps" "J w"
  shows "J (snd (visitParameters rt ps ctx w)) \<and>
    (case fst (visitParameters rt ps ctx w) of Inl e \<Rightarrow> E e | Inr vs \<Rightarrow> list_all2 (\<lambda>p v. V (csServiceType p) v) ps vs)"
  using assms
proof (induction ps arbitrary: w)
  case (Cons p ps)
  obtain r w1 where v: "visitBy rt p (visitCallSiteMain rt p) ctx w = (r, w1)" by fastforce
  have ok: "okOut (csServiceType p) (r, w1)"
    using visitBy_ok [of p ctx w "visitCallSiteMain rt p"] Cons.prems v by simp
  then have "J w1" by (simp add: okOut_def)
  then have "J (snd (visitParameters rt ps ctx w1)) \<and>
    (case fst (visitParameters rt ps ctx w1) of Inl e \<Rightarrow> E e | Inr vs \<Rightarrow> list_all2 (\<lambda>p v. V (csServiceType p) v) ps vs)"
    using Cons by simp
  then show ?case using v ok by (auto simp: okOut_def split: sum.splits prod.splits)
qed simp

lemma elements_ok:
  assumes "S (SliceCallSite i e all c)" "set cs \<subseteq> set all" "list_all mainOk cs" "list_all S cs" "list_all (D ctx) cs" "J w"
  shows "J (snd (visitElements rt e cs ctx w)) \<and>
    (case fst (visitElements rt e cs ctx w) of Inl e \<Rightarrow> E e | Inr vs \<Rightarrow> list_all (\<lambda>v. settable rt v e) vs)"
  using assms
proof (induction cs arbitrary: w)
  case (Cons p ps)
  obtain r w1 where v: "visitBy rt p (visitCallSiteMain rt p) ctx w = (r, w1)" by fastforce
  have ok: "okOut (csServiceType p) (r, w1)"
    using visitBy_ok [of p ctx w "visitCallSiteMain rt p"] Cons.prems v by simp
  then have "J w1" by (simp add: okOut_def)
  then have "J (snd (visitElements rt e ps ctx w1)) \<and>
      (case fst (visitElements rt e ps ctx w1) of Inl e \<Rightarrow> E e | Inr vs \<Rightarrow> list_all (\<lambda>v. settable rt v e) vs)"
    using Cons by simp
  then show ?case
    using v ok Cons.prems(2) elementE [OF Cons.prems(1), of p]
    by (cases r) (auto simp: okOut_def split: sum.splits prod.splits)
qed simp

lemma main_ok: "S cs \<Longrightarrow> mainOk cs"
proof (induction cs)
  case (ConstantCallSite i t v)
  then show ?case using constantV by (simp add: okOut_def)
next
  case (FactoryCallSite i t c f)
  show ?case
  proof (intro allI impI)
    fix ctx w
    assume "J w"
    then show "okOut (csServiceType (FactoryCallSite i t c f)) (visitCallSiteMain rt (FactoryCallSite i t c f) ctx w)"
      using factoryV [OF FactoryCallSite, of "cx_Scope ctx" "w_tick w"] calledJ
      by (auto simp: okOut_def visitFactory_def split: option.splits)
  qed
next
  case (ConstructorCallSite i t ctor ps c)
  have ps: "list_all S ps" using children [OF ConstructorCallSite.prems] by simp
  then have ok: "list_all mainOk ps" using ConstructorCallSite.IH by (auto simp: list_all_iff)
  show ?case
  proof (intro allI impI)
    fix ctx w
    assume D: "list_all (D ctx) (csChildren (ConstructorCallSite i t ctor ps c))" and w: "J w"
    obtain r w1 where v: "visitParameters rt ps ctx w = (r, w1)" by fastforce
    have p: "J w1 \<and> (case r of Inl e \<Rightarrow> E e | Inr vs \<Rightarrow> list_all2 (\<lambda>p v. V (csServiceType p) v) ps vs)"
      using parameters_ok [OF ok ps _ w] D v by fastforce
    then show "okOut (csServiceType (ConstructorCallSite i t ctor ps c))
        (visitCallSiteMain rt (ConstructorCallSite i t ctor ps c) ctx w)"
      using v invoke_ok [OF ConstructorCallSite.prems] by (cases r) (auto simp: okOut_def)
  qed
next
  case (ContainerCallSite i)
  then show ?case using containerV by (simp add: okOut_def)
next
  case (SliceCallSite i e cs c)
  have cs: "list_all S cs" using children [OF SliceCallSite.prems] by simp
  then have ok: "list_all mainOk cs" using SliceCallSite.IH by (auto simp: list_all_iff)
  show ?case
  proof (intro allI impI)
    fix ctx w
    assume "list_all (D ctx) (csChildren (SliceCallSite i e cs c))" and w: "J w"
    then show "okOut (csServiceType (SliceCallSite i e cs c)) (visitCallSiteMain rt (SliceCallSite i e cs c) ctx w)"
      using elements_ok [OF SliceCallSite.prems subset_refl ok cs _ w, of ctx] sliceV
      by (auto simp: okOut_def split: prod.splits sum.splits)
  qed
qed

lemma visit_ok: "S cs \<Longrightarrow> D ctx cs \<Longrightarrow> J w \<Longrightarrow> okOut (csServiceType cs) (visitCallSite rt cs ctx w)"
  unfolding visitCallSite_def by (rule visitBy_ok) (use main_ok in auto)

lemma resolve_ok:
  assumes "S cs" "D (newContext s) cs" "J w"
  shows "okOut (csServiceType cs) (Resolve rt cs s w)"
  using visit_ok [OF assms] valueV [OF assms(3,1)] assms(3)
  by (auto simp: Resolve_def Let_def okOut_def newContext_def split: option.split)

lemma resolve_outcome:
  assumes "S cs" "D (newContext s) cs" "J w" "Resolve rt cs s w = (r, w')"
  shows "J w'" "case r of Inl e \<Rightarrow> E e | Inr v \<Rightarrow> V (csServiceType cs) v"
  using resolve_ok [OF assms(1,2,3)] assms(4) by (auto simp: okOut_def)

end

section \<open>Growth\<close>

text \<open>What is cached or captured stays so.\<close>

definition grown :: "world \<Rightarrow> world \<Rightarrow> bool" where
  "grown w0 w \<longleftrightarrow>
    (\<forall>cs v. mget (w_values w0) cs = Some v \<longrightarrow> mget (w_values w) cs = Some v) \<and>
    (\<forall>s key v. resolvedAt w0 s key = Some v \<longrightarrow> resolvedAt w s key = Some v) \<and>
    (\<forall>s. sc_disposed (w_scope w s) = sc_disposed (w_scope w0 s)) \<and>
    (\<forall>s. sc_ResolvedServices (w_scope w s) = None \<longleftrightarrow> sc_ResolvedServices (w_scope w0 s) = None) \<and>
    (\<forall>s. prefix (sc_disposables (w_scope w0 s)) (sc_disposables (w_scope w s))) \<and>
    w_closed w = w_closed w0 \<and> w_count w = w_count w0 \<and> w_tick w0 \<le> w_tick w"

lemmas effect_defs = called_def disposeNow_def keep_def SetValue_def setResolved_def onScope_def

lemma resolvedAt_effects [simp]:
  "resolvedAt (called w) s k = resolvedAt w s k" "resolvedAt (disposeNow v w) s k = resolvedAt w s k"
  "resolvedAt (keep s' v w) s k = resolvedAt w s k" "resolvedAt (SetValue cs v w) s k = resolvedAt w s k"
  by (simp_all add: resolvedAt_def effect_defs)

lemma resolvedAt_set:
  "resolvedAt (setResolved s' k' v w) s k =
    (if s = s' \<and> k = k' \<and> sc_ResolvedServices (w_scope w s) \<noteq> None then Some v else resolvedAt w s k)"
  by (cases "sc_ResolvedServices (w_scope w s)") (auto simp: resolvedAt_def effect_defs gomap)

lemma values_effects [simp]:
  "w_values (called w) = w_values w" "w_values (disposeNow v w) = w_values w"
  "w_values (keep s v w) = w_values w" "w_values (setResolved s k v w) = w_values w"
  "mget (w_values (SetValue cs v w)) c = (if c = cs then Some v else mget (w_values w) c)"
  by (simp_all add: effect_defs gomap)

lemma scope_effects [simp]:
  "w_scope (called w) = w_scope w" "w_scope (disposeNow v w) = w_scope w" "w_scope (SetValue cs v w) = w_scope w"
  "sc_disposed (w_scope (keep s v w) s') = sc_disposed (w_scope w s')"
  "sc_disposed (w_scope (setResolved s k v w) s') = sc_disposed (w_scope w s')"
  "sc_disposables (w_scope (keep s v w) s') = sc_disposables (w_scope w s') @ (if s' = s then [v] else [])"
  "sc_disposables (w_scope (setResolved s k v w) s') = sc_disposables (w_scope w s')"
  by (simp_all add: effect_defs)

lemma keep_resolved [simp]: "sc_ResolvedServices (w_scope (keep s v w) s') = sc_ResolvedServices (w_scope w s')"
  by (simp add: effect_defs)

lemma setResolved_nil [simp]:
  "sc_ResolvedServices (w_scope (setResolved s k v w) s') = None \<longleftrightarrow> sc_ResolvedServices (w_scope w s') = None"
  by (simp add: effect_defs)

lemma flag_effects [simp]:
  "w_closed (called w) = w_closed w" "w_closed (disposeNow v w) = w_closed w" "w_closed (keep s v w) = w_closed w"
  "w_closed (SetValue cs v w) = w_closed w" "w_closed (setResolved s k v w) = w_closed w"
  "w_count (called w) = w_count w" "w_count (disposeNow v w) = w_count w" "w_count (keep s v w) = w_count w"
  "w_count (SetValue cs v w) = w_count w" "w_count (setResolved s k v w) = w_count w"
  "w_tick (called w) = Suc (w_tick w)" "w_tick (disposeNow v w) = w_tick w" "w_tick (keep s v w) = w_tick w"
  "w_tick (SetValue cs v w) = w_tick w" "w_tick (setResolved s k v w) = w_tick w"
  by (simp_all add: effect_defs)

lemma grown_refl [simp]: "grown w w"
  by (simp add: grown_def)

lemma grown_unset:
  "grown w0 w \<Longrightarrow> mget (w_values w) cs = None \<Longrightarrow> mget (w_values w0) cs = None"
  "grown w0 w \<Longrightarrow> resolvedAt w s key = None \<Longrightarrow> resolvedAt w0 s key = None"
  unfolding grown_def by (metis option.distinct(1) option.exhaust)+

interpretation growth: visit_invariant rt "\<lambda>_. True" "\<lambda>_ _. True" "\<lambda>_ _. True" "\<lambda>_. True" "grown w0" for rt w0
proof unfold_locales
  fix w1 w v and cs :: callSite
  assume *: "grown w0 w1" "mget (w_values w1) cs = None" "grown w0 w"
  then show "grown w0 (SetValue cs v w)" using grown_unset(1) [OF *(1,2)] by (simp add: grown_def)
next
  fix w1 w v and cs :: callSite and ctx :: resolverContext
  assume *: "grown w0 w1" "resolvedAt w1 (cx_Scope ctx) (siteKey cs) = None" "grown w0 w"
  then show "grown w0 (setResolved (cx_Scope ctx) (siteKey cs) v w)"
    using grown_unset(2) [OF *(1,2)] by (simp add: grown_def resolvedAt_set)
qed (auto simp: grown_def list_all_iff split: option.splits sum.splits)

section \<open>Captured services\<close>

text \<open>Every cached service that is disposable is among the disposables of the scope that caches it.\<close>

definition owned :: "runtime \<Rightarrow> world \<Rightarrow> bool" where
  "owned rt w \<longleftrightarrow>
    (sc_disposed (w_scope w 0) \<or> (\<forall>cs v. mget (w_values w) cs = Some v \<longrightarrow> captured rt 0 v w)) \<and>
    (\<forall>s key v. resolvedAt w s key = Some v \<longrightarrow> captured rt s v w)"

lemma captured_effects [simp]:
  "captured rt s v (called w) = captured rt s v w" "captured rt s v (disposeNow u w) = captured rt s v w"
  "captured rt s v (SetValue cs u w) = captured rt s v w" "captured rt s v (setResolved s' k u w) = captured rt s v w"
  "captured rt s v w \<Longrightarrow> captured rt s v (keep s' u w)"
  by (auto simp: captured_def)

interpretation ownership: visit_invariant rt "\<lambda>_. True" "\<lambda>_ _. True" "\<lambda>_ _. True" "\<lambda>_. True" "owned rt" for rt
  by unfold_locales (auto simp: owned_def resolvedAt_set list_all_iff split: if_splits option.splits sum.splits)

section \<open>Locks\<close>

text \<open>
  A transient site below a site that is cached in the scope captures its value while the lock of the scope is
  held; \<open>lockSafe\<close> excludes it, unless a root site is between them. \<open>locked\<close>: a site above is cached in the scope.
\<close>

definition lockStep :: "bool \<Rightarrow> CacheLocation \<Rightarrow> (bool \<Rightarrow> bool) \<Rightarrow> bool" where
  "lockStep locked loc rest =
    (case loc of
       CacheLocation_Root \<Rightarrow> True
     | CacheLocation_Scope \<Rightarrow> rest True
     | CacheLocation_Dispose \<Rightarrow> \<not> locked \<and> rest locked
     | CacheLocation_None \<Rightarrow> rest locked)"

fun lockSafe :: "bool \<Rightarrow> callSite \<Rightarrow> bool" where
  "lockSafe locked (ConstantCallSite _ _ _) = True"
| "lockSafe locked (FactoryCallSite _ _ c _) = lockStep locked (rc_Location c) (\<lambda>_. True)"
| "lockSafe locked (ConstructorCallSite _ _ _ ps c) = lockStep locked (rc_Location c) (\<lambda>b. list_all (lockSafe b) ps)"
| "lockSafe locked (ContainerCallSite _) = True"
| "lockSafe locked (SliceCallSite _ _ cs c) = lockStep locked (rc_Location c) (\<lambda>b. list_all (lockSafe b) cs)"

lemma lockSafe_step:
  "lockSafe locked cs = lockStep locked (rc_Location (csCache cs)) (\<lambda>b. list_all (lockSafe b) (csChildren cs))"
  by (cases cs) (simp_all add: lockStep_def NoneResultCache_def)

definition lockContext :: "resolverContext \<Rightarrow> callSite \<Rightarrow> bool" where
  "lockContext ctx cs \<longleftrightarrow>
    0 \<notin> set (cx_held ctx) \<and>
    (cx_Scope ctx \<noteq> 0 \<longrightarrow> (cx_Scope ctx \<in> set (cx_held ctx) \<longleftrightarrow> cx_ScopeLock ctx) \<and> lockSafe (cx_ScopeLock ctx) cs)"

lemma afterCall_error: "afterCall rt outs = Inl e \<Longrightarrow> e \<noteq> LockedTwice \<and> e \<noteq> Panicked"
  by (auto simp: afterCall_def split: list.splits if_splits)

interpretation locking: visit_invariant rt "\<lambda>_. True" lockContext "\<lambda>_ _. True" "\<lambda>e. e \<noteq> LockedTwice" "\<lambda>_. True" for rt
proof unfold_locales
  fix ctx cs
  assume "lockContext ctx cs" "rc_Location (csCache cs) \<in> {CacheLocation_Dispose, CacheLocation_None}"
  then show "list_all (lockContext ctx) (csChildren cs)"
    unfolding lockContext_def lockSafe_step [of _ cs] by (auto simp: lockStep_def list_all_iff)
next
  fix ctx cs
  assume "lockContext ctx cs"
  then show "list_all (lockContext (rootContext ctx)) (csChildren cs)" by (simp add: lockContext_def list_all_iff)
next
  fix ctx cs
  assume "lockContext ctx cs" "atScope ctx cs"
  then show "list_all (lockContext (scopeContext ctx)) (csChildren cs)"
    unfolding lockContext_def lockSafe_step [of _ cs] by (auto simp: lockStep_def atScope_def scopeContext_def list_all_iff)
next
  fix ctx cs
  assume "lockContext ctx cs" "rc_Location (csCache cs) = CacheLocation_Dispose" "cx_Scope ctx \<in> set (cx_held ctx)"
  then show "LockedTwice \<noteq> LockedTwice"
    unfolding lockContext_def lockSafe_step [of _ cs] by (auto simp: lockStep_def)
qed (auto simp: list_all_iff lockContext_def atScope_def dest: afterCall_error split: option.splits sum.splits)

section \<open>Types\<close>

text \<open>Go's assignability, as far as the container relies on it: a pointer to a struct and an interface pass it on.\<close>

definition typeLaw :: "typeEnv \<Rightarrow> bool" where
  "typeLaw te \<longleftrightarrow>
    (\<forall>t. te_AssignableTo te t t) \<and> (\<forall>a b. te_Implements te a b \<longrightarrow> te_AssignableTo te a b) \<and>
    (\<forall>a b c. te_AssignableTo te a b \<longrightarrow> te_AssignableTo te b c \<longrightarrow> kindT b = KInterface \<or> kindT b = KPtr \<longrightarrow>
       te_AssignableTo te a c) \<and>
    (\<forall>t. t = ContainerType \<or> t = ScopeFactoryType \<longrightarrow>
       te_AssignableTo te (PtrT (StructT ''di'' ''ContainerEngineScope'')) t) \<and>
    te_AssignableTo te (PtrT (StructT ''di'' ''CallSiteFactory'')) IsServiceType"

text \<open>A value that can be used where the type is expected.\<close>

definition fits :: "typeEnv \<Rightarrow> rtype \<Rightarrow> val \<Rightarrow> bool" where
  "fits te t v = (case typeOfVal v of None \<Rightarrow> False | Some d \<Rightarrow> te_AssignableTo te d t)"

text \<open>
  The user code behaves: a constructor returns, with a value of its declared type unless it returns an error,
  and a factory returns a value for its service type.
\<close>

definition declaredAs :: "typeEnv \<Rightarrow> val \<Rightarrow> rtype \<Rightarrow> bool" where
  "declaredAs te v t =
    (case typeOfVal v of
       None \<Rightarrow> False
     | Some d \<Rightarrow> if kindT t = KInterface then te_AssignableTo te d t else d = t)"

definition ctorLaw :: "runtime \<Rightarrow> ConstructorInfo \<Rightarrow> bool" where
  "ctorLaw rt c \<longleftrightarrow>
    (\<forall>args n. case rt_construct rt (ci_FuncValue c) args n of
       None \<Rightarrow> False
     | Some outs \<Rightarrow>
         length outs = length (ci_Out c) \<and>
         (length outs = 2 \<and> outs ! 1 \<noteq> NilVal \<or>
          declaredAs (rt_types rt) (outs ! 0) (ci_Out c ! 0)))"

definition factoryLaw :: "runtime \<Rightarrow> nat \<Rightarrow> rtype \<Rightarrow> bool" where
  "factoryLaw rt f t \<longleftrightarrow>
    (\<forall>s n. case rt_factory rt f s n of None \<Rightarrow> False | Some v \<Rightarrow> fits (rt_types rt) t v)"

text \<open>The type of a site stands for the type it is requested for.\<close>

definition standsFor :: "typeEnv \<Rightarrow> rtype \<Rightarrow> rtype \<Rightarrow> bool" where
  "standsFor te a t \<longleftrightarrow> a = t \<or> kindT a = KPtr \<and> te_Implements te a t"

abbreviation keyOk :: "rtype \<Rightarrow> ResultCache \<Rightarrow> bool" where
  "keyOk t c \<equiv> rc_Location c = CacheLocation_Scope \<longrightarrow> fst (rc_Key c) = Some t"

primrec wfSite :: "runtime \<Rightarrow> callSite \<Rightarrow> bool" where
  "wfSite rt (ConstantCallSite _ t v) = fits (rt_types rt) t v"
| "wfSite rt (FactoryCallSite _ t c f) = (keyOk t c \<and> factoryLaw rt f t)"
| "wfSite rt (ConstructorCallSite _ t ctor ps c) =
    (keyOk t c \<and> ctorLaw rt ctor \<and> checkConstructor (rt_types rt) ctor t \<and> list_all id (map (wfSite rt) ps) \<and>
     list_all2 (\<lambda>p a. standsFor (rt_types rt) (csServiceType p) a) ps (ci_In ctor))"
| "wfSite rt (ContainerCallSite _) = True"
| "wfSite rt (SliceCallSite _ e cs c) =
    (keyOk (SliceT e) c \<and> list_all id (map (wfSite rt) cs) \<and>
     list_all (\<lambda>p. standsFor (rt_types rt) (csServiceType p) e) cs)"

definition typedWorld :: "typeEnv \<Rightarrow> nat \<Rightarrow> world \<Rightarrow> bool" where
  "typedWorld te s0 w \<longleftrightarrow>
    (\<forall>cs v. mget (w_values w) cs = Some v \<longrightarrow> fits te (csServiceType cs) v) \<and>
    (\<forall>s t slot v. resolvedAt w s (Some t, slot) = Some v \<longrightarrow> fits te t v) \<and>
    sc_ResolvedServices (w_scope w s0) \<noteq> None"

lemma typeLaw_via:
  "typeLaw te \<Longrightarrow> te_AssignableTo te a b \<Longrightarrow> te_AssignableTo te b c \<Longrightarrow> kindT b = KInterface \<or> kindT b = KPtr \<Longrightarrow>
   te_AssignableTo te a c"
  unfolding typeLaw_def by blast

lemma typeLaw_implements: "typeLaw te \<Longrightarrow> te_Implements te a b \<Longrightarrow> te_AssignableTo te a b"
  unfolding typeLaw_def by blast

lemma fits_nil [simp]: "\<not> fits te t NilVal"
  by (simp add: fits_def)

lemma typeLaw_builtIn:
  assumes "typeLaw te"
  shows "fits te ContainerType (ScopeVal s)" "fits te ScopeFactoryType (ScopeVal s)" "fits te IsServiceType FactoryVal"
    "fits te (SliceT e) (SliceVal e vs)"
  using assms unfolding typeLaw_def fits_def typeOfVal.simps option.case by blast+

lemma fits_standsFor: "typeLaw te \<Longrightarrow> fits te a v \<Longrightarrow> standsFor te a t \<Longrightarrow> fits te t v"
  using typeLaw_via [of te _ a t] typeLaw_implements [of te a t] unfolding fits_def standsFor_def
  by (auto split: option.splits)

lemma settable_fits: "settable rt v t = fits (rt_types rt) t v"
  by (simp add: settable_def fits_def)

lemma ctor_fits:
  assumes "typeLaw (rt_types rt)" "ctorLaw rt c" "checkConstructor (rt_types rt) c t"
    "rt_construct rt (ci_FuncValue c) args n = Some outs" "afterCall rt outs = Inr v"
  shows "fits (rt_types rt) t v"
proof -
  define te where "te = rt_types rt"
  obtain o1 rest where out: "ci_Out c = o1 # rest" "te_AssignableTo te o1 t"
    using assms(3) by (auto simp: checkConstructor_def te_def split: if_splits list.splits)
  have "length outs = length (ci_Out c)" "length outs = 2 \<and> outs ! 1 \<noteq> NilVal \<or> declaredAs te (outs ! 0) o1"
    using assms(2) [unfolded ctorLaw_def, rule_format, of args n] assms(4) out(1) by (auto simp: te_def)
  moreover have "outs = [v] \<or> outs = [v, NilVal]"
    using assms(5) by (auto simp: afterCall_def split: list.splits if_splits)
  ultimately have "declaredAs te v o1"
    by (elim disjE conjE) simp_all
  then obtain d where d: "typeOfVal v = Some d" "if kindT o1 = KInterface then te_AssignableTo te d o1 else d = o1"
    by (cases "typeOfVal v") (simp_all add: declaredAs_def)
  have "te_AssignableTo te d t"
  proof (cases "kindT o1 = KInterface")
    case True
    then show ?thesis using d(2) out(2) typeLaw_via [OF assms(1) [folded te_def]] by simp
  qed (use d(2) out(2) in simp)
  then show ?thesis using d(1) by (simp add: fits_def te_def)
qed

lemma ctorLaw_returns: "ctorLaw rt c \<Longrightarrow> rt_construct rt (ci_FuncValue c) args n \<noteq> None"
  unfolding ctorLaw_def by (drule spec [where x = args], drule spec [where x = n])
    (auto split: option.splits)

lemma callable_fits:
  assumes "typeLaw (rt_types rt)" "list_all2 (\<lambda>p v. fits (rt_types rt) (csServiceType p) v) ps vs"
    "list_all2 (\<lambda>p a. standsFor (rt_types rt) (csServiceType p) a) ps (ci_In ctor)"
  shows "callable rt ctor ps vs"
proof -
  have *: "te_AssignableTo (rt_types rt) (argTypeOf p v) a"
    if "fits (rt_types rt) (csServiceType p) v" "standsFor (rt_types rt) (csServiceType p) a" for p v a
    using fits_standsFor [OF assms(1) that] that(1) by (auto simp: fits_def argTypeOf_def split: option.splits)
  show ?thesis
    using assms(2,3) by (simp add: callable_def list_all2_conv_all_nth *)
qed

lemma siteKey_of:
  "wfSite rt cs \<Longrightarrow> rc_Location (csCache cs) = CacheLocation_Scope \<Longrightarrow> fst (siteKey cs) = Some (csServiceType cs)"
  by (cases cs) (simp_all add: NoneResultCache_def)

lemma typed_visits:
  assumes law: "typeLaw (rt_types rt)"
  shows "visit_invariant rt (wfSite rt) (\<lambda>ctx _. cx_Scope ctx \<in> {0, s0}) (fits (rt_types rt))
    (\<lambda>e. e \<noteq> Panicked) (typedWorld (rt_types rt) s0)"
proof unfold_locales
  fix cs
  assume "wfSite rt cs"
  then show "list_all (wfSite rt) (csChildren cs)" by (cases cs) (auto simp: list_all_iff)
next
  fix w0 w cs ctx v
  assume "typedWorld (rt_types rt) s0 w" "wfSite rt cs" "cx_Scope ctx \<in> {0, s0}" "atScope ctx cs"
    and v: "fits (rt_types rt) (csServiceType cs) v"
  then show "typedWorld (rt_types rt) s0 (setResolved (cx_Scope ctx) (siteKey cs) v w)"
    using siteKey_of [of rt cs] by (cases "siteKey cs") (auto simp: typedWorld_def resolvedAt_set atScope_def simp del: not_None_eq split: if_splits)
next
  fix w cs ctx v
  assume "typedWorld (rt_types rt) s0 w" "wfSite rt cs" "atScope ctx cs" "resolvedAt w (cx_Scope ctx) (siteKey cs) = Some v"
  then show "fits (rt_types rt) (csServiceType cs) v"
    using siteKey_of [of rt cs] by (cases "siteKey cs") (auto simp: typedWorld_def atScope_def)
next
  fix i t ctor ps c vs
  assume "wfSite rt (ConstructorCallSite i t ctor ps c)" "\<not> callable rt ctor ps vs"
    "list_all2 (\<lambda>p v. fits (rt_types rt) (csServiceType p) v) ps vs"
  then show "Panicked \<noteq> Panicked" using callable_fits [OF law] by simp
next
  fix i t ctor ps c args n
  assume "wfSite rt (ConstructorCallSite i t ctor ps c)"
  then show "case rt_construct rt (ci_FuncValue ctor) args n of None \<Rightarrow> Panicked \<noteq> Panicked
      | Some outs \<Rightarrow> (case afterCall rt outs of Inl e \<Rightarrow> e \<noteq> Panicked | Inr v \<Rightarrow> fits (rt_types rt) t v)"
    using ctor_fits [OF law] ctorLaw_returns [of rt ctor args n]
    by (auto dest: afterCall_error split: option.splits sum.splits)
next
  fix i e es c p v
  assume "wfSite rt (SliceCallSite i e es c)" "p \<in> set es" "fits (rt_types rt) (csServiceType p) v" "\<not> settable rt v e"
  then show "Panicked \<noteq> Panicked" using fits_standsFor [OF law] by (auto simp: settable_fits list_all_iff)
next
  show "fits (rt_types rt) ContainerType (ScopeVal s)" for s using typeLaw_builtIn [OF law] by simp
next
  show "fits (rt_types rt) (SliceT e) (SliceVal e vs)" for e vs using typeLaw_builtIn [OF law] by simp
next
  show "case rt_factory rt f s n of None \<Rightarrow> Panicked \<noteq> Panicked | Some v \<Rightarrow> fits (rt_types rt) t v"
    if "wfSite rt (FactoryCallSite i t c f)" for i t c f s n
    using that by (simp add: factoryLaw_def split: option.splits)
qed (auto simp: list_all_iff scopeContext_def atScope_def typedWorld_def split: if_splits)

end
