(* ===== verification/DI_Container.thy ===== *)
theory DI_Container
  imports DI_Resolver
begin

text \<open>
  The container (\<open>.github/skills/fluffy-dozm-di/container.go\<close>, \<open>validator.go\<close>, \<open>engine.go\<close>, \<open>di.go\<close> and
  \<open>Build\<close> of \<open>builder.go\<close>): the scope validator, the accessors of the realized services, requests by type and
  by lookup key from a scope, and the life of a container from \<open>Build\<close> to \<open>Dispose\<close>.

  Requests run one after another. A panic below \<open>GetWithScope\<close> is recovered there and is an error value.
\<close>

section \<open>The validator\<close>

datatype diError =
    ContainerDisposed | ObjectDisposed | SiteFailed csError | ScopedInSingleton rtype rtype
  | ScopedFromRoot rtype rtype | ResolveFailed resolveError | NoLookupKey string | TypeIncompatibility rtype

text \<open>The state is the type of the singleton above, if any.\<close>

type_synonym validation = "rtype option \<Rightarrow> diError + rtype option"

definition validateBy :: "callSite \<Rightarrow> validation \<Rightarrow> validation" where
  "validateBy cs main singleton =
    (case rc_Location (csCache cs) of
       CacheLocation_Root \<Rightarrow> main (Some (csServiceType cs))
     | CacheLocation_Scope \<Rightarrow>
         if csServiceType cs = ScopeFactoryType then Inr None
         else
           (case singleton of
              Some t \<Rightarrow> Inl (ScopedInSingleton (csServiceType cs) t)
            | None \<Rightarrow>
                (case main singleton of Inl e \<Rightarrow> Inl e | Inr _ \<Rightarrow> Inr (Some (csServiceType cs))))
     | CacheLocation_Dispose \<Rightarrow> main singleton
     | CacheLocation_None \<Rightarrow> main singleton)"

fun validateMain :: "callSite \<Rightarrow> validation"
  and validateAll :: "callSite list \<Rightarrow> validation"
where
  "validateMain (ConstantCallSite _ _ _) = (\<lambda>_. Inr None)"
| "validateMain (FactoryCallSite _ _ _ _) = (\<lambda>_. Inr None)"
| "validateMain (ConstructorCallSite _ _ _ ps _) = validateAll ps"
| "validateMain (ContainerCallSite _) = (\<lambda>_. Inr None)"
| "validateMain (SliceCallSite _ _ cs _) = validateAll cs"
| "validateAll [] = (\<lambda>_. Inr None)"
| "validateAll (c # cs) =
    (\<lambda>singleton.
       case validateBy c (validateMain c) singleton of
         Inl e \<Rightarrow> Inl e
       | Inr scoped \<Rightarrow>
           (case validateAll cs singleton of
              Inl e \<Rightarrow> Inl e
            | Inr rest \<Rightarrow> Inr (if scoped = None then rest else scoped)))"

definition validateSite :: "callSite \<Rightarrow> validation" where
  "validateSite cs = validateBy cs (validateMain cs)"

text \<open>\<open>scopedServices\<close>: the types whose site uses a scoped service.\<close>

definition ValidateCallSite :: "callSite \<Rightarrow> (rtype, rtype) gomap \<Rightarrow> diError + (rtype, rtype) gomap" where
  "ValidateCallSite cs scopedServices =
    (case validateSite cs None of
       Inl e \<Rightarrow> Inl e
     | Inr None \<Rightarrow> Inr scopedServices
     | Inr (Some scoped) \<Rightarrow> Inr (mput (csServiceType cs) scoped scopedServices))"

definition ValidateResolution :: "rtype \<Rightarrow> nat \<Rightarrow> (rtype, rtype) gomap \<Rightarrow> diError option" where
  "ValidateResolution t s scopedServices =
    (if s = 0 then map_option (ScopedFromRoot t) (mget scopedServices t) else None)"

section \<open>The container\<close>

datatype accessor = ValueAccessor val | SiteAccessor callSite

text \<open>\<open>co_scoped\<close> is the validator, nil without \<open>ValidateScopes\<close>.\<close>

record container =
  co_descriptors :: "Descriptor list"
  co_sites :: csState
  co_world :: world
  co_realized :: "(rtype, accessor) gomap"
  co_realizedKeys :: "(string, accessor) gomap"
  co_scoped :: "(rtype, rtype) gomap option"

text \<open>The part \<open>createServiceAccessor\<close> and \<open>createServiceLookupKeyAccessor\<close> share.\<close>

definition validateIfOn :: "callSite \<Rightarrow> container \<Rightarrow> diError + container" where
  "validateIfOn cs c =
    (case co_scoped c of
       None \<Rightarrow> Inr c
     | Some ss \<Rightarrow>
         (case ValidateCallSite cs ss of Inl e \<Rightarrow> Inl e | Inr ss' \<Rightarrow> Inr (c\<lparr>co_scoped := Some ss'\<rparr>)))"

definition accessorOf :: "runtime \<Rightarrow> callSite \<Rightarrow> container \<Rightarrow> (diError + accessor) \<times> container" where
  "accessorOf rt cs c =
    (case validateIfOn cs c of
       Inl e \<Rightarrow> (Inl e, c)
     | Inr c1 \<Rightarrow>
         if rc_Location (csCache cs) = CacheLocation_Root then
           (case Resolve rt cs 0 (co_world c1) of
              (Inl e, w) \<Rightarrow> (Inl (ResolveFailed e), c1\<lparr>co_world := w\<rparr>)
            | (Inr v, w) \<Rightarrow> (Inr (ValueAccessor v), c1\<lparr>co_world := w\<rparr>))
         else (Inr (SiteAccessor cs), c1))"

definition createServiceAccessor :: "runtime \<Rightarrow> rtype \<Rightarrow> container \<Rightarrow> (diError + accessor) \<times> container" where
  "createServiceAccessor rt t c =
    (case requestCallSite (co_descriptors c) t (co_sites c) of
       (Inl e, s) \<Rightarrow> (Inl (SiteFailed e), c\<lparr>co_sites := s\<rparr>)
     | (Inr cs, s) \<Rightarrow> accessorOf rt cs (c\<lparr>co_sites := s\<rparr>))"

definition createServiceLookupKeyAccessor ::
    "runtime \<Rightarrow> string \<Rightarrow> container \<Rightarrow> (diError + accessor) \<times> container" where
  "createServiceLookupKeyAccessor rt key c =
    (case mget (ix_keyLookup (populate (co_descriptors c))) key of
       None \<Rightarrow> (Inl (NoLookupKey key), c)
     | Some dci \<Rightarrow>
         (case dci_item dci of
            None \<Rightarrow> (Inl (NoLookupKey key), c)
          | Some item \<Rightarrow>
              (let d = (if dci_items dci = [] then item else last (dci_items dci)) in
               case GetCallSiteByDescriptor (co_descriptors c) d (co_sites c) of
                 (Inl e, s) \<Rightarrow> (Inl (SiteFailed e), c\<lparr>co_sites := s\<rparr>)
               | (Inr cs, s) \<Rightarrow> accessorOf rt cs (c\<lparr>co_sites := s\<rparr>))))"

text \<open>From the accessor on, the two requests are alike.\<close>

definition runAccessor :: "runtime \<Rightarrow> rtype \<Rightarrow> nat \<Rightarrow> accessor \<Rightarrow> container \<Rightarrow> (diError + val) \<times> container" where
  "runAccessor rt t s a c =
    (case Option.bind (co_scoped c) (ValidateResolution t s) of
       Some e \<Rightarrow> (Inl e, c)
     | None \<Rightarrow>
         (case a of
            ValueAccessor v \<Rightarrow> (Inr v, c)
          | SiteAccessor cs \<Rightarrow>
              (case Resolve rt cs s (co_world c) of
                 (Inl e, w) \<Rightarrow> (Inl (ResolveFailed e), c\<lparr>co_world := w\<rparr>)
               | (Inr v, w) \<Rightarrow> (Inr v, c\<lparr>co_world := w\<rparr>))))"

definition GetWithScope :: "runtime \<Rightarrow> rtype \<Rightarrow> nat \<Rightarrow> container \<Rightarrow> (diError + val) \<times> container" where
  "GetWithScope rt t s c =
    (if w_closed (co_world c) then (Inl ContainerDisposed, c)
     else
       (case mget (co_realized c) t of
          Some a \<Rightarrow> runAccessor rt t s a c
        | None \<Rightarrow>
            (case createServiceAccessor rt t c of
               (Inl e, c1) \<Rightarrow> (Inl e, c1)
             | (Inr a, c1) \<Rightarrow> runAccessor rt t s a (c1\<lparr>co_realized := mput t a (co_realized c1)\<rparr>))))"

definition GetWithScopeWithLookupKey ::
    "runtime \<Rightarrow> rtype \<Rightarrow> string \<Rightarrow> nat \<Rightarrow> container \<Rightarrow> (diError + val) \<times> container" where
  "GetWithScopeWithLookupKey rt t key s c =
    (if w_closed (co_world c) then (Inl ContainerDisposed, c)
     else
       (let hashKey = hashTypeAndString t key in
        case mget (co_realizedKeys c) hashKey of
          Some a \<Rightarrow> runAccessor rt t s a c
        | None \<Rightarrow>
            (case createServiceLookupKeyAccessor rt hashKey c of
               (Inl e, c1) \<Rightarrow> (Inl e, c1)
             | (Inr a, c1) \<Rightarrow>
                 runAccessor rt t s a (c1\<lparr>co_realizedKeys := mput hashKey a (co_realizedKeys c1)\<rparr>))))"

text \<open>\<open>Get\<close> and \<open>GetByLookupKey\<close> of a scope; on the container they run in the root scope, without the first test.\<close>

definition scopeGet :: "runtime \<Rightarrow> rtype \<Rightarrow> nat \<Rightarrow> container \<Rightarrow> (diError + val) \<times> container" where
  "scopeGet rt t s c =
    (if sc_disposed (w_scope (co_world c) s) then (Inl ObjectDisposed, c) else GetWithScope rt t s c)"

definition scopeGetByLookupKey :: "runtime \<Rightarrow> rtype \<Rightarrow> string \<Rightarrow> nat \<Rightarrow> container \<Rightarrow> (diError + val) \<times> container" where
  "scopeGetByLookupKey rt t key s c =
    (if sc_disposed (w_scope (co_world c) s) then (Inl ObjectDisposed, c)
     else GetWithScopeWithLookupKey rt t key s c)"

definition containerGet :: "runtime \<Rightarrow> rtype \<Rightarrow> container \<Rightarrow> (diError + val) \<times> container" where
  "containerGet rt t c = GetWithScope rt t 0 c"

definition containerGetByLookupKey :: "runtime \<Rightarrow> rtype \<Rightarrow> string \<Rightarrow> container \<Rightarrow> (diError + val) \<times> container" where
  "containerGetByLookupKey rt t key c = GetWithScopeWithLookupKey rt t key 0 c"

text \<open>\<open>TryGet\<close>: the type assertion to \<open>T\<close>.\<close>

definition TryGet :: "runtime \<Rightarrow> rtype \<Rightarrow> nat \<Rightarrow> container \<Rightarrow> (diError + val) \<times> container" where
  "TryGet rt t s c =
    (case scopeGet rt t s c of
       (Inl e, c') \<Rightarrow> (Inl e, c')
     | (Inr v, c') \<Rightarrow>
         if (if kindT t = KInterface then asserts rt v t else typeOfVal v = Some t) then (Inr v, c')
         else (Inl (TypeIncompatibility t), c'))"

definition TryGetByLookupKey :: "runtime \<Rightarrow> rtype \<Rightarrow> string \<Rightarrow> nat \<Rightarrow> container \<Rightarrow> (diError + val) \<times> container" where
  "TryGetByLookupKey rt t key s c =
    (case scopeGetByLookupKey rt t key s c of
       (Inl e, c') \<Rightarrow> (Inl e, c')
     | (Inr v, c') \<Rightarrow>
         if (if kindT t = KInterface then asserts rt v t else typeOfVal v = Some t) then (Inr v, c')
         else (Inl (TypeIncompatibility t), c'))"

section \<open>Building\<close>

record Options =
  op_ValidateScopes :: bool
  op_ValidateOnBuild :: bool
  op_DetectLifetimeConflicts :: bool

definition validateService :: "Descriptor \<Rightarrow> container \<Rightarrow> diError option \<times> container" where
  "validateService d c =
    (case GetCallSiteByDescriptor (co_descriptors c) d (co_sites c) of
       (Inl e, s) \<Rightarrow> (Some (SiteFailed e), c\<lparr>co_sites := s\<rparr>)
     | (Inr cs, s) \<Rightarrow>
         (case validateIfOn cs (c\<lparr>co_sites := s\<rparr>) of
            Inl e \<Rightarrow> (Some e, c\<lparr>co_sites := s\<rparr>)
          | Inr c1 \<Rightarrow> (None, c1)))"

primrec validateServices :: "Descriptor list \<Rightarrow> container \<Rightarrow> diError list \<times> container" where
  "validateServices [] c = ([], c)"
| "validateServices (d # ds) c =
    (case validateService d c of
       (e, c1) \<Rightarrow> (case validateServices ds c1 of (es, c2) \<Rightarrow> ((case e of None \<Rightarrow> es | Some x \<Rightarrow> x # es), c2)))"

datatype buildPanic = ConflictingLifetimes "rtype list" | InvalidServices "diError list"

definition newContainer :: "Descriptor list \<Rightarrow> Options \<Rightarrow> container" where
  "newContainer ds options =
    \<lparr>co_descriptors = ds, co_sites = builtInServices, co_world = newWorld, co_realized = [], co_realizedKeys = [],
     co_scoped = (if op_ValidateScopes options then Some [] else None)\<rparr>"

definition Build :: "Descriptor list \<Rightarrow> Options \<Rightarrow> buildPanic + container" where
  "Build ds options =
    (let c = newContainer ds options in
     if op_DetectLifetimeConflicts options \<and> detectLifetimeConflicts ds \<noteq> []
     then Inl (ConflictingLifetimes (detectLifetimeConflicts ds))
     else if op_ValidateOnBuild options then
       (case validateServices ds c of (es, c1) \<Rightarrow> if es \<noteq> [] then Inl (InvalidServices es) else Inr c1)
     else Inr c)"

section \<open>Runs of a container\<close>

abbreviation onWorld :: "container \<Rightarrow> world \<Rightarrow> container" where
  "onWorld c w \<equiv> c\<lparr>co_world := w\<rparr>"

inductive coStep :: "runtime \<Rightarrow> container \<Rightarrow> container \<Rightarrow> bool" for rt where
  scopeGets: "s < w_count (co_world c) \<Longrightarrow> coStep rt c (snd (scopeGet rt t s c))"
| scopeKeyGets: "s < w_count (co_world c) \<Longrightarrow> coStep rt c (snd (scopeGetByLookupKey rt t key s c))"
| containerGets: "coStep rt c (snd (containerGet rt t c))"
| containerKeyGets: "coStep rt c (snd (containerGetByLookupKey rt t key c))"
| createsScope: "CreateScope (co_world c) = Some (n, w) \<Longrightarrow> coStep rt c (onWorld c w)"
| disposesScope: "s < w_count (co_world c) \<Longrightarrow> coStep rt c (onWorld c (DisposeScope s (co_world c)))"
| disposesContainer: "coStep rt c (onWorld c (DisposeContainer (co_world c)))"

definition coReach :: "runtime \<Rightarrow> Descriptor list \<Rightarrow> Options \<Rightarrow> container \<Rightarrow> bool" where
  "coReach rt ds options c \<longleftrightarrow> (\<exists>c0. Build ds options = Inr c0 \<and> (coStep rt)\<^sup>*\<^sup>* c0 c)"

section \<open>What the validator decides\<close>

text \<open>The sites below a site, without those of the type \<open>ScopeFactory\<close> that are cached in the scope.\<close>

abbreviation isScoped :: "callSite \<Rightarrow> bool" where
  "isScoped cs \<equiv> rc_Location (csCache cs) = CacheLocation_Scope"

definition exempt :: "callSite \<Rightarrow> bool" where
  "exempt cs \<longleftrightarrow> isScoped cs \<and> csServiceType cs = ScopeFactoryType"

lemma children_smaller: "c \<in> set (csChildren cs) \<Longrightarrow> size c < size cs"
  by (cases cs) (auto dest: size_list_estimation' [of _ _ _ size, OF _ order_refl])

function visitedSites :: "callSite \<Rightarrow> callSite list" where
  "visitedSites cs = (if exempt cs then [] else cs # concat (map visitedSites (csChildren cs)))"
  by auto
termination by (relation "measure size") (auto simp: children_smaller)

declare visitedSites.simps [simp del]

definition usesScoped :: "callSite \<Rightarrow> bool" where
  "usesScoped cs \<longleftrightarrow> (\<exists>c \<in> set (visitedSites cs). isScoped c)"

text \<open>A singleton that holds a scoped service.\<close>

definition captive :: "callSite \<Rightarrow> bool" where
  "captive cs \<longleftrightarrow>
    (\<exists>r \<in> set (visitedSites cs). rc_Location (csCache r) = CacheLocation_Root \<and> usesScoped r)"

lemma usesScoped_step:
  "usesScoped cs \<longleftrightarrow> \<not> exempt cs \<and> (isScoped cs \<or> (\<exists>c \<in> set (csChildren cs). usesScoped c))"
  unfolding usesScoped_def by (subst visitedSites.simps) auto

lemma captive_step:
  "captive cs \<longleftrightarrow> \<not> exempt cs \<and>
    (rc_Location (csCache cs) = CacheLocation_Root \<and> (\<exists>c \<in> set (csChildren cs). usesScoped c) \<or>
     (\<exists>c \<in> set (csChildren cs). captive c))"
proof -
  have "captive cs \<longleftrightarrow> \<not> exempt cs \<and> (rc_Location (csCache cs) = CacheLocation_Root \<and> usesScoped cs \<or>
      (\<exists>c \<in> set (csChildren cs). captive c))"
    unfolding captive_def by (subst visitedSites.simps) auto
  then show ?thesis using usesScoped_step [of cs] by auto
qed

definition decides :: "bool \<Rightarrow> bool \<Rightarrow> diError + rtype option \<Rightarrow> bool" where
  "decides bad uses r \<longleftrightarrow>
    (case r of Inl e \<Rightarrow> bad \<and> (\<exists>a b. e = ScopedInSingleton a b) | Inr x \<Rightarrow> \<not> bad \<and> (x \<noteq> None \<longleftrightarrow> uses))"

lemma validateBy_decides:
  assumes "\<And>st. decides ((\<exists>c \<in> set (csChildren cs). captive c) \<or> st \<noteq> None \<and> (\<exists>c \<in> set (csChildren cs). usesScoped c))
      (\<exists>c \<in> set (csChildren cs). usesScoped c) (main st)"
  shows "decides (captive cs \<or> st \<noteq> None \<and> usesScoped cs) (usesScoped cs) (validateBy cs main st)"
  using assms [of None] assms [of "Some (csServiceType cs)"] assms [of st]
  unfolding captive_step [of cs] usesScoped_step [of cs]
  by (cases "rc_Location (csCache cs)")
    (auto simp: validateBy_def exempt_def decides_def split: sum.splits option.splits)

lemma validateAll_decides:
  assumes "\<And>c st. c \<in> set cs \<Longrightarrow> decides ((\<exists>d \<in> set (csChildren c). captive d) \<or> st \<noteq> None \<and> (\<exists>d \<in> set (csChildren c). usesScoped d))
      (\<exists>d \<in> set (csChildren c). usesScoped d) (validateMain c st)"
  shows "decides ((\<exists>c \<in> set cs. captive c) \<or> st \<noteq> None \<and> (\<exists>c \<in> set cs. usesScoped c)) (\<exists>c \<in> set cs. usesScoped c)
    (validateAll cs st)"
  using assms
proof (induction cs)
  case (Cons c cs)
  have "decides (captive c \<or> st \<noteq> None \<and> usesScoped c) (usesScoped c) (validateBy c (validateMain c) st)"
    by (rule validateBy_decides) (use Cons.prems in simp)
  then show ?case using Cons.IH Cons.prems by (auto simp: decides_def split: sum.splits)
qed (simp add: decides_def)

lemma validateMain_decides:
  "decides ((\<exists>c \<in> set (csChildren cs). captive c) \<or> st \<noteq> None \<and> (\<exists>c \<in> set (csChildren cs). usesScoped c))
    (\<exists>c \<in> set (csChildren cs). usesScoped c) (validateMain cs st)"
proof (induction cs arbitrary: st)
  case (ConstructorCallSite i t c ps rc)
  show ?case using validateAll_decides [OF ConstructorCallSite.IH, of ps st] by simp
next
  case (SliceCallSite i e cs rc)
  show ?case using validateAll_decides [OF SliceCallSite.IH, of cs st] by simp
qed (simp_all add: decides_def)

lemma validateSite_decides: "decides (captive cs \<or> st \<noteq> None \<and> usesScoped cs) (usesScoped cs) (validateSite cs st)"
  unfolding validateSite_def by (rule validateBy_decides) (rule validateMain_decides)

section \<open>Invariants of a container\<close>

lemma resolve_grown: "Resolve rt cs s w = (q, w') \<Longrightarrow> grown w w'"
  by (rule growth.resolve_outcome(1)) simp_all

lemma resolve_owned: "owned rt w \<Longrightarrow> Resolve rt cs s w = (q, w') \<Longrightarrow> owned rt w'"
  by (rule ownership.resolve_outcome(1)) simp_all

text \<open>
  \<open>P\<close> is an invariant of the container, \<open>G\<close> what is known of the site of a requested type, \<open>V\<close> of its value, and
  \<open>E\<close> of the errors of resolving.
\<close>

locale container_invariant =
  fixes rt :: runtime and P :: "container \<Rightarrow> bool" and G :: "rtype \<Rightarrow> callSite \<Rightarrow> bool"
    and V :: "rtype \<Rightarrow> val \<Rightarrow> bool" and E :: "resolveError \<Rightarrow> bool"
  assumes request: "P c \<Longrightarrow> requestCallSite (co_descriptors c) t (co_sites c) = (r, s') \<Longrightarrow>
      P (c\<lparr>co_sites := s'\<rparr>) \<and> (case r of Inl _ \<Rightarrow> True | Inr cs \<Rightarrow> G t cs)"
    and byDescriptor: "P c \<Longrightarrow> d \<in> set (co_descriptors c) \<Longrightarrow>
      GetCallSiteByDescriptor (co_descriptors c) d (co_sites c) = (r, s') \<Longrightarrow>
      P (c\<lparr>co_sites := s'\<rparr>) \<and> (case r of Inl _ \<Rightarrow> True | Inr cs \<Rightarrow> G (ds_ServiceType d) cs)"
    and scoped: "P c \<Longrightarrow> P (c\<lparr>co_scoped := ss\<rparr>)"
    and rootOpen: "P c \<Longrightarrow> \<not> w_closed (co_world c) \<Longrightarrow> \<not> sc_disposed (w_scope (co_world c) 0)"
    and resolve: "P c \<Longrightarrow> G t cs \<Longrightarrow> \<not> w_closed (co_world c) \<Longrightarrow> \<not> sc_disposed (w_scope (co_world c) s) \<Longrightarrow>
      Resolve rt cs s (co_world c) = (q, w') \<Longrightarrow>
      P (onWorld c w') \<and> (case q of Inl e \<Rightarrow> E e | Inr v \<Rightarrow> V t v)"
    and realizedI: "P c \<Longrightarrow> (case a of ValueAccessor v \<Rightarrow> V t v | SiteAccessor cs \<Rightarrow> G t cs) \<Longrightarrow>
      mget (co_realized c) t = None \<Longrightarrow> P (c\<lparr>co_realized := mput t a (co_realized c)\<rparr>)"
    and realizedD: "P c \<Longrightarrow> mget (co_realized c) t = Some a \<Longrightarrow>
      (case a of ValueAccessor v \<Rightarrow> V t v | SiteAccessor cs \<Rightarrow> G t cs)"
    and keyI: "P c \<Longrightarrow> (case a of ValueAccessor v \<Rightarrow> V t v | SiteAccessor cs \<Rightarrow> G t cs) \<Longrightarrow>
      P (c\<lparr>co_realizedKeys := mput key a (co_realizedKeys c)\<rparr>)"
    and keyD: "P c \<Longrightarrow> mget (co_realizedKeys c) key = Some a \<Longrightarrow>
      \<exists>t. (case a of ValueAccessor v \<Rightarrow> V t v | SiteAccessor cs \<Rightarrow> G t cs)"
    and newScope: "P c \<Longrightarrow> CreateScope (co_world c) = Some (n, w') \<Longrightarrow> P (onWorld c w')"
    and disposing: "P c \<Longrightarrow> s < w_count (co_world c) \<Longrightarrow> P (onWorld c (DisposeScope s (co_world c)))"
    and closing: "P c \<Longrightarrow> P (onWorld c (DisposeContainer (co_world c)))"
begin

abbreviation accOk :: "rtype \<Rightarrow> accessor \<Rightarrow> bool" where
  "accOk t a \<equiv> (case a of ValueAccessor v \<Rightarrow> V t v | SiteAccessor cs \<Rightarrow> G t cs)"

definition valueOk :: "rtype \<Rightarrow> (diError + val) \<times> container \<Rightarrow> bool" where
  "valueOk t out \<longleftrightarrow> P (snd out) \<and>
    (case fst out of Inl e \<Rightarrow> (case e of ResolveFailed x \<Rightarrow> E x | _ \<Rightarrow> True) | Inr v \<Rightarrow> V t v)"

definition accessorOk :: "rtype \<Rightarrow> container \<Rightarrow> (diError + accessor) \<times> container \<Rightarrow> bool" where
  "accessorOk t c out \<longleftrightarrow> P (snd out) \<and> co_realized (snd out) = co_realized c \<and>
    (w_closed (co_world (snd out)) = w_closed (co_world c)) \<and>
    (\<forall>s. sc_disposed (w_scope (co_world (snd out)) s) = sc_disposed (w_scope (co_world c) s)) \<and>
    (case fst out of Inl e \<Rightarrow> (case e of ResolveFailed x \<Rightarrow> E x | _ \<Rightarrow> True) | Inr a \<Rightarrow> accOk t a)"

lemma resolve_flags:
  assumes "Resolve rt cs s w = (q, w')"
  shows "w_closed w' = w_closed w" "sc_disposed (w_scope w' s') = sc_disposed (w_scope w s')"
  using resolve_grown [OF assms] by (simp_all add: grown_def)

lemma validateIfOn_ok:
  assumes "P c" "validateIfOn cs c = Inr c1"
  shows "P c1 \<and> co_world c1 = co_world c \<and> co_realized c1 = co_realized c \<and> co_descriptors c1 = co_descriptors c"
  using assms scoped by (auto simp: validateIfOn_def split: option.splits sum.splits)

lemma validateIfOn_error: "validateIfOn cs c = Inl e \<Longrightarrow> \<exists>a b. e = ScopedInSingleton a b"
  using validateSite_decides [of cs None]
  by (auto simp: validateIfOn_def ValidateCallSite_def decides_def split: option.splits sum.splits)

lemma accessorOf_ok:
  assumes c: "P c" "\<not> w_closed (co_world c)" and cs: "G t cs"
  shows "accessorOk t c (accessorOf rt cs c)"
proof (cases "validateIfOn cs c")
  case (Inl e)
  then show ?thesis using c validateIfOn_error [OF Inl] by (auto simp: accessorOf_def accessorOk_def)
next
  case (Inr c1)
  note v = validateIfOn_ok [OF c(1) Inr]
  obtain q w where r: "Resolve rt cs 0 (co_world c1) = (q, w)" by fastforce
  have "P (onWorld c1 w) \<and> (case q of Inl e \<Rightarrow> E e | Inr v \<Rightarrow> V t v)"
    by (rule resolve [OF _ cs _ _ r]) (use v c rootOpen in auto)
  then show ?thesis
    using Inr v r resolve_flags [OF r] cs by (cases q) (auto simp: accessorOf_def accessorOk_def)
qed

lemma createServiceAccessor_ok:
  assumes "P c" "\<not> w_closed (co_world c)"
  shows "accessorOk t c (createServiceAccessor rt t c)"
proof -
  obtain r s' where q: "requestCallSite (co_descriptors c) t (co_sites c) = (r, s')" by fastforce
  show ?thesis
    using request [OF assms(1) q] q assms(2) accessorOf_ok [of "c\<lparr>co_sites := s'\<rparr>" t]
    by (cases r) (auto simp: createServiceAccessor_def accessorOk_def)
qed

lemma key_descriptor:
  assumes "mget (ix_keyLookup (populate ds)) key = Some dci" "dci_item dci = Some item"
  shows "(if dci_items dci = [] then item else last (dci_items dci)) \<in> set ds"
proof -
  have "set (itemList dci) \<subseteq> set ds"
    using populate_registered [of ds undefined key] assms(1) by (auto simp: itemsAt_def registered_def)
  then show ?thesis using assms(2) by (auto simp: itemList_def)
qed

lemma createServiceLookupKeyAccessor_ok:
  assumes c: "P c" "\<not> w_closed (co_world c)"
  shows "\<exists>t. accessorOk t c (createServiceLookupKeyAccessor rt key c)"
proof (cases "mget (ix_keyLookup (populate (co_descriptors c))) key")
  case None
  then show ?thesis using c by (simp add: createServiceLookupKeyAccessor_def accessorOk_def)
next
  case (Some dci)
  show ?thesis
  proof (cases "dci_item dci")
    case None
    then show ?thesis using Some c by (simp add: createServiceLookupKeyAccessor_def accessorOk_def)
  next
    case item: (Some i)
    define d where "d = (if dci_items dci = [] then i else last (dci_items dci))"
    obtain r s' where q: "GetCallSiteByDescriptor (co_descriptors c) d (co_sites c) = (r, s')" by fastforce
    have "d \<in> set (co_descriptors c)" using key_descriptor [OF Some item] by (simp add: d_def)
    note site = byDescriptor [OF c(1) this q]
    have "accessorOk (ds_ServiceType d) c (createServiceLookupKeyAccessor rt key c)"
      using site c(2) Some item q accessorOf_ok [of "c\<lparr>co_sites := s'\<rparr>" "ds_ServiceType d"]
      by (cases r) (auto simp: createServiceLookupKeyAccessor_def d_def [symmetric] Let_def accessorOk_def)
    then show ?thesis by blast
  qed
qed

lemma runAccessor_ok:
  assumes c: "P c" "\<not> w_closed (co_world c)" "\<not> sc_disposed (w_scope (co_world c) s)" and a: "accOk u a"
  shows "valueOk u (runAccessor rt t s a c)"
proof -
  have "(case e of ResolveFailed x \<Rightarrow> E x | _ \<Rightarrow> True)" if "Option.bind (co_scoped c) (ValidateResolution t s) = Some e" for e
    using that by (auto simp: ValidateResolution_def bind_eq_Some_conv split: if_splits)
  moreover have "valueOk u (case Resolve rt cs s (co_world c) of
      (Inl e, w) \<Rightarrow> (Inl (ResolveFailed e), onWorld c w) | (Inr v, w) \<Rightarrow> (Inr v, onWorld c w))"
    if "a = SiteAccessor cs" for cs
  proof -
    obtain q w where r: "Resolve rt cs s (co_world c) = (q, w)" by fastforce
    show ?thesis using resolve [OF c(1) _ c(2,3) r] a that r by (cases q) (auto simp: valueOk_def)
  qed
  ultimately show ?thesis
    using c(1) a by (auto simp: runAccessor_def valueOk_def split: option.split accessor.split)
qed

lemma get_ok:
  assumes c: "P c" "\<not> sc_disposed (w_scope (co_world c) s)"
  shows "valueOk t (GetWithScope rt t s c)"
proof (cases "w_closed (co_world c)")
  case True
  then show ?thesis using c by (simp add: GetWithScope_def valueOk_def)
next
  case False
  show ?thesis
  proof (cases "mget (co_realized c) t")
    case (Some a)
    then show ?thesis using runAccessor_ok [OF c(1) False c(2) realizedD [OF c(1) Some]] False by (simp add: GetWithScope_def)
  next
    case None
    obtain r c1 where q: "createServiceAccessor rt t c = (r, c1)" by fastforce
    note ok = createServiceAccessor_ok [OF c(1) False, of t, unfolded q accessorOk_def, simplified]
    show ?thesis
    proof (cases r)
      case (Inl e)
      then show ?thesis using False None q ok by (simp add: GetWithScope_def valueOk_def)
    next
      case (Inr a)
      then have a: "accOk t a" using ok by simp
      then have "P (c1\<lparr>co_realized := mput t a (co_realized c1)\<rparr>)" by (intro realizedI) (use ok None in simp_all)
      from runAccessor_ok [OF this _ _ a, of s t] show ?thesis
        using False None q Inr ok c(2) by (simp add: GetWithScope_def)
    qed
  qed
qed

lemma key_get_ok:
  assumes c: "P c" "\<not> sc_disposed (w_scope (co_world c) s)"
  shows "\<exists>u. valueOk u (GetWithScopeWithLookupKey rt t key s c)"
proof (cases "w_closed (co_world c)")
  case True
  then show ?thesis using c by (simp add: GetWithScopeWithLookupKey_def valueOk_def)
next
  case False
  define k where "k = hashTypeAndString t key"
  show ?thesis
  proof (cases "mget (co_realizedKeys c) k")
    case (Some a)
    then show ?thesis
      using keyD [OF c(1) Some] runAccessor_ok [OF c(1) False c(2)] False
      by (auto simp: GetWithScopeWithLookupKey_def k_def [symmetric])
  next
    case None
    obtain r c1 where q: "createServiceLookupKeyAccessor rt k c = (r, c1)" by fastforce
    obtain u where ok: "accessorOk u c (r, c1)" using createServiceLookupKeyAccessor_ok [OF c(1) False, of k] q by auto
    note ok = ok [unfolded accessorOk_def, simplified]
    show ?thesis
    proof (cases r)
      case (Inl e)
      then show ?thesis
        using False None q ok by (auto simp: GetWithScopeWithLookupKey_def k_def [symmetric] valueOk_def)
    next
      case (Inr a)
      then have a: "accOk u a" using ok by simp
      then have "P (c1\<lparr>co_realizedKeys := mput k a (co_realizedKeys c1)\<rparr>)" by (intro keyI) (use ok in simp_all)
      from runAccessor_ok [OF this _ _ a, of s t] show ?thesis
        using False None q Inr ok c(2) by (auto simp: GetWithScopeWithLookupKey_def k_def [symmetric])
    qed
  qed
qed

lemma step_keeps:
  assumes "coStep rt c c'" "P c"
  shows "P c'"
  using assms
proof cases
  case (scopeGets s t)
  then show ?thesis using get_ok [of c s t] assms(2) by (auto simp: scopeGet_def valueOk_def)
next
  case (scopeKeyGets s t key)
  then show ?thesis using key_get_ok [of c s t key] assms(2) by (auto simp: scopeGetByLookupKey_def valueOk_def)
next
  case (containerGets t)
  have "\<not> w_closed (co_world c) \<Longrightarrow> valueOk t (GetWithScope rt t 0 c)" using get_ok rootOpen assms(2) by blast
  then show ?thesis
    using containerGets assms(2) by (cases "w_closed (co_world c)") (auto simp: containerGet_def valueOk_def GetWithScope_def)
next
  case (containerKeyGets t key)
  have "\<not> w_closed (co_world c) \<Longrightarrow> \<exists>u. valueOk u (GetWithScopeWithLookupKey rt t key 0 c)"
    using key_get_ok rootOpen assms(2) by blast
  then show ?thesis
    using containerKeyGets assms(2)
    by (cases "w_closed (co_world c)") (auto simp: containerGetByLookupKey_def valueOk_def GetWithScopeWithLookupKey_def)
qed (use newScope disposing closing assms(2) in blast)+

lemma steps_keep: "(coStep rt)\<^sup>*\<^sup>* c c' \<Longrightarrow> P c \<Longrightarrow> P c'"
  by (induction rule: rtranclp_induct) (auto intro: step_keeps)

lemma validateService_keeps:
  assumes "P c" "d \<in> set (co_descriptors c)"
  shows "P (snd (validateService d c)) \<and> co_descriptors (snd (validateService d c)) = co_descriptors c"
proof -
  obtain r s' where q: "GetCallSiteByDescriptor (co_descriptors c) d (co_sites c) = (r, s')" by fastforce
  have c1: "P (c\<lparr>co_sites := s'\<rparr>)" using byDescriptor [OF assms q] by simp
  show ?thesis
  proof (cases r)
    case (Inr cs)
    show ?thesis
    proof (cases "validateIfOn cs (c\<lparr>co_sites := s'\<rparr>)")
      case v: (Inr c2)
      then show ?thesis using q Inr validateIfOn_ok [OF c1 v] by (simp add: validateService_def)
    qed (use q Inr c1 in \<open>simp add: validateService_def\<close>)
  qed (use q c1 in \<open>simp add: validateService_def\<close>)
qed

lemma validateServices_keep:
  "set ds \<subseteq> set (co_descriptors c) \<Longrightarrow> P c \<Longrightarrow> P (snd (validateServices ds c))"
proof (induction ds arbitrary: c)
  case (Cons d ds)
  have "P (snd (validateService d c)) \<and> co_descriptors (snd (validateService d c)) = co_descriptors c"
    using validateService_keeps Cons.prems by simp
  then have "P (snd (validateServices ds (snd (validateService d c))))" using Cons.IH Cons.prems(1) by simp
  then show ?case by (simp add: case_prod_unfold)
qed simp

lemma reach_keeps:
  assumes "coReach rt ds options c" "P (newContainer ds options)"
  shows "P c"
proof -
  obtain c0 where b: "Build ds options = Inr c0" and st: "(coStep rt)\<^sup>*\<^sup>* c0 c" using assms(1) by (auto simp: coReach_def)
  have "co_descriptors (newContainer ds options) = ds" by (simp add: newContainer_def)
  then have "P c0"
    using b assms(2) validateServices_keep [of ds "newContainer ds options"]
    by (auto simp: Build_def Let_def split: if_splits prod.splits)
  then show ?thesis using steps_keep [OF st] by simp
qed

end

section \<open>Live scopes\<close>

definition storedOk :: "world \<Rightarrow> bool" where
  "storedOk w \<longleftrightarrow>
    (\<forall>cs v. mget (w_values w) cs = Some v \<longrightarrow> rc_Location (csCache cs) \<in> {CacheLocation_Root, CacheLocation_Scope})"

interpretation storing: visit_invariant rt "\<lambda>_. True" "\<lambda>_ _. True" "\<lambda>_ _. True" "\<lambda>_. True" storedOk for rt
  by unfold_locales (auto simp: storedOk_def atRoot_def list_all_iff split: if_splits option.splits sum.splits)

lemma resolve_stored: "storedOk w \<Longrightarrow> Resolve rt cs s w = (q, w') \<Longrightarrow> storedOk w'"
  by (rule storing.resolve_outcome(1)) simp_all

definition liveOk :: "world \<Rightarrow> bool" where
  "liveOk w \<longleftrightarrow> storedOk w \<and>
    0 < w_count w \<and> (w_closed w \<or> \<not> sc_disposed (w_scope w 0)) \<and>
    (\<forall>s. sc_disposed (w_scope w s) \<or> sc_ResolvedServices (w_scope w s) \<noteq> None)"

lemma disposeNow_fold:
  "foldl (\<lambda>w v. disposeNow v w) w vs = w\<lparr>w_disposals := w_disposals w @ vs\<rparr>"
  by (induction vs arbitrary: w) (simp_all add: disposeNow_def)

lemma DisposeScope_eq:
  "DisposeScope s w =
    (if sc_disposed (w_scope w s) then w
     else (onScope s (\<lambda>_. \<lparr>sc_ResolvedServices = None, sc_disposed = True, sc_disposables = []\<rparr>) w)
       \<lparr>w_closed := w_closed w \<or> s = 0, w_disposals := w_disposals w @ rev (sc_disposables (w_scope w s))\<rparr>)"
  by (simp add: DisposeScope_def BeginDispose_def disposeNow_fold onScope_def)

lemma newScope_eq:
  "CreateScope w = Some (n, w') \<longleftrightarrow>
    \<not> w_closed w \<and> n = w_count w \<and> w' = (onScope n (\<lambda>_. newEngineScope) w)\<lparr>w_count := Suc n\<rparr>"
  by (auto simp: CreateScope_def)

lemma live_new: "liveOk newWorld"
  by (simp add: liveOk_def storedOk_def newWorld_def newEngineScope_def)

lemma live_resolve: "liveOk w \<Longrightarrow> Resolve rt cs s w = (q, w') \<Longrightarrow> liveOk w'"
  using resolve_grown [of rt cs s w q w'] resolve_stored [of w rt cs s q w'] by (simp add: grown_def liveOk_def)

lemma live_scope: "liveOk w \<Longrightarrow> CreateScope w = Some (n, w') \<Longrightarrow> liveOk w'"
  by (auto simp: liveOk_def storedOk_def newScope_eq onScope_def newEngineScope_def)

lemma live_dispose: "liveOk w \<Longrightarrow> liveOk (DisposeScope s w)" "liveOk w \<Longrightarrow> liveOk (DisposeContainer w)"
  by (auto simp: liveOk_def storedOk_def DisposeScope_eq DisposeContainer_def onScope_def)

lemma live_root: "liveOk w \<Longrightarrow> \<not> w_closed w \<Longrightarrow> \<not> sc_disposed (w_scope w 0)"
  by (simp add: liveOk_def)

lemmas live = live_new live_resolve live_scope live_dispose live_root

section \<open>Ownership\<close>

lemma owned_scope: "liveOk w \<Longrightarrow> owned rt w \<Longrightarrow> CreateScope w = Some (n, w') \<Longrightarrow> owned rt w'"
  by (auto simp: liveOk_def owned_def captured_def resolvedAt_def newScope_eq onScope_def newEngineScope_def split: if_splits)

lemma owned_dispose: "owned rt w \<Longrightarrow> owned rt (DisposeScope s w)" "owned rt w \<Longrightarrow> owned rt (DisposeContainer w)"
  by (auto simp: owned_def captured_def resolvedAt_def DisposeScope_eq DisposeContainer_def onScope_def split: if_splits)

interpretation owning: container_invariant rt "\<lambda>c. liveOk (co_world c) \<and> owned rt (co_world c)"
  "\<lambda>_ _. True" "\<lambda>_ _. True" "\<lambda>_. True" for rt
  by unfold_locales
    (auto simp: live_dispose owned_dispose live_root
      intro: live_resolve resolve_owned live_scope owned_scope split: sum.split accessor.split)

section \<open>What later requests find\<close>

definition keeps :: "container \<Rightarrow> container \<Rightarrow> bool" where
  "keeps c0 c \<longleftrightarrow>
    (\<forall>t a. mget (co_realized c0) t = Some a \<longrightarrow> mget (co_realized c) t = Some a) \<and>
    (\<forall>cs v. mget (w_values (co_world c0)) cs = Some v \<longrightarrow> mget (w_values (co_world c)) cs = Some v) \<and>
    (\<forall>s. s < w_count (co_world c0) \<longrightarrow> \<not> sc_disposed (w_scope (co_world c) s) \<longrightarrow>
       (\<forall>key v. resolvedAt (co_world c0) s key = Some v \<longrightarrow> resolvedAt (co_world c) s key = Some v)) \<and>
    w_count (co_world c0) \<le> w_count (co_world c)"

lemma keeps_refl [simp]: "keeps c c"
  by (simp add: keeps_def)

lemma keeps_resolve: "keeps c0 c \<Longrightarrow> Resolve rt cs s (co_world c) = (q, w') \<Longrightarrow> keeps c0 (onWorld c w')"
  using resolve_grown [of rt cs s "co_world c" q w'] by (simp add: grown_def keeps_def)

lemma keeps_scope: "keeps c0 c \<Longrightarrow> CreateScope (co_world c) = Some (n, w') \<Longrightarrow> keeps c0 (onWorld c w')"
  by (auto simp: keeps_def newScope_eq onScope_def resolvedAt_def)

lemma keeps_dispose:
  "keeps c0 c \<Longrightarrow> keeps c0 (onWorld c (DisposeScope s (co_world c)))"
  "keeps c0 c \<Longrightarrow> keeps c0 (onWorld c (DisposeContainer (co_world c)))"
  by (auto simp: keeps_def DisposeScope_eq DisposeContainer_def onScope_def resolvedAt_def split: if_splits)

interpretation keeping: container_invariant rt "\<lambda>c. liveOk (co_world c) \<and> keeps c0 c"
  "\<lambda>_ _. True" "\<lambda>_ _. True" "\<lambda>_. True" for rt c0
proof unfold_locales
  fix c t a
  assume "liveOk (co_world c) \<and> keeps c0 c" "mget (co_realized c) t = None"
  then show "liveOk (co_world (c\<lparr>co_realized := mput t a (co_realized c)\<rparr>)) \<and> keeps c0 (c\<lparr>co_realized := mput t a (co_realized c)\<rparr>)"
    by (auto simp: keeps_def gomap)
next
  fix c ss
  assume "liveOk (co_world c) \<and> keeps c0 c"
  then show "liveOk (co_world (c\<lparr>co_scoped := ss\<rparr>)) \<and> keeps c0 (c\<lparr>co_scoped := ss\<rparr>)" by (simp add: keeps_def)
next
  fix c key a
  assume "liveOk (co_world c) \<and> keeps c0 c"
  then show "liveOk (co_world (c\<lparr>co_realizedKeys := mput key a (co_realizedKeys c)\<rparr>)) \<and>
      keeps c0 (c\<lparr>co_realizedKeys := mput key a (co_realizedKeys c)\<rparr>)" by (simp add: keeps_def)
next
  fix c s and r :: "csError + callSite"
  assume "liveOk (co_world c) \<and> keeps c0 c"
  then have "liveOk (co_world (c\<lparr>co_sites := s\<rparr>)) \<and> keeps c0 (c\<lparr>co_sites := s\<rparr>)" by (simp add: keeps_def)
  then show "(liveOk (co_world (c\<lparr>co_sites := s\<rparr>)) \<and> keeps c0 (c\<lparr>co_sites := s\<rparr>)) \<and> (case r of Inl _ \<Rightarrow> True | Inr cs \<Rightarrow> True)"
    "(liveOk (co_world (c\<lparr>co_sites := s\<rparr>)) \<and> keeps c0 (c\<lparr>co_sites := s\<rparr>)) \<and> (case r of Inl _ \<Rightarrow> True | Inr cs \<Rightarrow> True)"
    by (simp_all split: sum.split)
qed (auto simp: live_dispose live_root keeps_dispose intro: live_resolve live_scope keeps_resolve keeps_scope split: sum.split accessor.split)

section \<open>Shared instances\<close>

text \<open>The value \<open>v\<close> is what the accessor gives in scope \<open>s\<close> without running a constructor.\<close>

definition cachedBy :: "accessor \<Rightarrow> nat \<Rightarrow> val \<Rightarrow> world \<Rightarrow> bool" where
  "cachedBy a s v w =
    (case a of
       ValueAccessor u \<Rightarrow> u = v
     | SiteAccessor cs \<Rightarrow>
         (\<exists>i t. cs = ConstantCallSite i t v) \<or>
         (rc_Location (csCache cs) = CacheLocation_Root \<or> isScoped cs \<and> s = 0) \<and> mget (w_values w) cs = Some v \<or>
         isScoped cs \<and> s \<noteq> 0 \<and> resolvedAt w s (siteKey cs) = Some v)"

text \<open>A site whose value is cached, here or in the root.\<close>

definition cachingSite :: "callSite \<Rightarrow> bool" where
  "cachingSite cs \<longleftrightarrow>
    (\<exists>i t v. cs = ConstantCallSite i t v) \<or> rc_Location (csCache cs) = CacheLocation_Root \<or> isScoped cs"

lemma visitRootCache_stores:
  "visitRootCache rt cs main ctx w = (Inr v, w') \<Longrightarrow> mget (w_values w') cs = Some v"
  by (auto simp: visitRootCache_def split: option.splits prod.splits sum.splits if_splits)

lemma visitScopeCache_stores:
  "visitScopeCache rt cs main ctx w = (Inr v, w') \<Longrightarrow> cx_Scope ctx \<noteq> 0 \<Longrightarrow> resolvedAt w' (cx_Scope ctx) (siteKey cs) = Some v"
  by (auto simp: visitScopeCache_def Let_def resolvedAt_set resolvedAt_def [symmetric]
      split: option.splits prod.splits sum.splits if_splits)

lemma visitScopeCache_root: "cx_Scope ctx = 0 \<Longrightarrow> visitScopeCache rt cs main ctx w = visitRootCache rt cs main ctx w"
  by (simp add: visitScopeCache_def)

lemma newContext_sel [simp]:
  "cx_Scope (newContext s) = s" "cx_ScopeLock (newContext s) = False" "cx_held (newContext s) = []"
  by (simp_all add: newContext_def)

lemma Resolve_cases:
  "Resolve rt cs s w =
    (case (if s = 0 then mget (w_values w) cs else None) of
       Some v \<Rightarrow> (Inr v, w) | None \<Rightarrow> visitCallSite rt cs (newContext s) w)"
  by (auto simp: Resolve_def newContext_def split: option.split)

lemma visit_caches:
  assumes v: "visitCallSite rt cs (newContext s) w = (Inr v, w')" and c: "cachingSite cs"
  shows "cachedBy (SiteAccessor cs) s v w'"
proof (cases "rc_Location (csCache cs)")
  case CacheLocation_Root
  then show ?thesis
    using v visitRootCache_stores by (auto simp: visitCallSite_def visitBy_def cachedBy_def)
next
  case CacheLocation_Scope
  then show ?thesis
    using v visitScopeCache_stores [of rt cs _ "newContext s" w v w'] visitRootCache_stores [of rt cs _ "newContext s" w v w']
    by (cases "s = 0") (auto simp: visitCallSite_def visitBy_def cachedBy_def visitScopeCache_root)
next
  case CacheLocation_Dispose
  then show ?thesis using c by (auto simp: cachingSite_def NoneResultCache_def)
next
  case CacheLocation_None
  then show ?thesis using c v by (auto simp: cachingSite_def visitCallSite_def visitBy_def cachedBy_def)
qed

lemma resolve_caches:
  assumes r: "Resolve rt cs s w = (Inr v, w')" and c: "cachingSite cs" and w: "storedOk w"
  shows "cachedBy (SiteAccessor cs) s v w'"
proof (cases "if s = 0 then mget (w_values w) cs else None")
  case None
  then show ?thesis using r visit_caches [OF _ c] by (simp add: Resolve_cases)
next
  case (Some u)
  then have "s = 0" "mget (w_values w) cs = Some u" by (simp_all split: if_splits)
  moreover have "rc_Location (csCache cs) \<in> {CacheLocation_Root, CacheLocation_Scope}"
    using w calculation(2) unfolding storedOk_def by blast
  ultimately show ?thesis using r by (auto simp: Resolve_cases cachedBy_def)
qed

lemma cached_again:
  assumes "cachedBy (SiteAccessor cs) s v w" "storedOk w"
  shows "Resolve rt cs s w = (Inr v, w)"
proof -
  have const: "mget (w_values w) (ConstantCallSite i t v) = None" for i t
    using assms(2) by (cases "mget (w_values w) (ConstantCallSite i t v)") (auto simp: storedOk_def NoneResultCache_def)
  have "visitCallSite rt cs (newContext s) w = (Inr v, w)"
    using assms(1) const
    by (auto simp: cachedBy_def visitCallSite_def visitBy_def NoneResultCache_def visitRootCache_def visitScopeCache_root
        visitScopeCache_def resolvedAt_def)
  then show ?thesis using assms(1) const by (auto simp: Resolve_cases cachedBy_def split: option.splits)
qed

text \<open>Where a constructor or factory site caches is the lifetime of a descriptor of its type.\<close>

definition fromDescriptor :: "Descriptor list \<Rightarrow> rtype \<Rightarrow> ResultCache \<Rightarrow> bool" where
  "fromDescriptor ds t c \<longleftrightarrow>
    (\<exists>d \<in> set ds. ds_ServiceType d = t \<and> rc_Location c = rc_Location (newResultCacheWithLifetime (ds_Lifetime d) t 0))"

fun lifetimeSite :: "Descriptor list \<Rightarrow> callSite \<Rightarrow> bool" where
  "lifetimeSite ds (FactoryCallSite _ t c _) = fromDescriptor ds t c"
| "lifetimeSite ds (ConstructorCallSite _ t _ _ c) = fromDescriptor ds t c"
| "lifetimeSite ds _ = True"

lemma lifetime_contract: "siteContract ds (lifetimeSite ds) (servesAs ds)"
  by (fastforce simp: siteContract_def servesAs_def list_ex_iff fromDescriptor_def newResultCacheWithLifetime_def)

definition requestedSite :: "Descriptor list \<Rightarrow> rtype \<Rightarrow> callSite \<Rightarrow> bool" where
  "requestedSite ds t cs \<longleftrightarrow> lifetimeSite ds cs \<and> servesAs ds (csServiceType cs) t"

text \<open>The sites of the realized services, and what the factory holds.\<close>

definition sitesOk :: "Descriptor list \<Rightarrow> container \<Rightarrow> bool" where
  "sitesOk ds c \<longleftrightarrow>
    liveOk (co_world c) \<and> co_descriptors c = ds \<and> cacheOk (lifetimeSite ds) (co_sites c) \<and>
    (\<forall>t cs. mget (co_realized c) t = Some (SiteAccessor cs) \<longrightarrow> requestedSite ds t cs) \<and>
    (\<forall>k cs. mget (co_realizedKeys c) k = Some (SiteAccessor cs) \<longrightarrow> (\<exists>t. requestedSite ds t cs))"

lemma sites_request:
  assumes "sitesOk ds c" "requestCallSite (co_descriptors c) t (co_sites c) = (r, s')"
  shows "sitesOk ds (c\<lparr>co_sites := s'\<rparr>) \<and> (case r of Inl _ \<Rightarrow> True | Inr cs \<Rightarrow> requestedSite ds t cs)"
  using assms request_ok [OF lifetime_contract [of ds], of "co_sites c" t]
  by (cases r) (auto simp: sitesOk_def outcomeOk_def requestedSite_def)

lemma sites_descriptor:
  assumes "sitesOk ds c" "d \<in> set (co_descriptors c)" "GetCallSiteByDescriptor (co_descriptors c) d (co_sites c) = (r, s')"
  shows "sitesOk ds (c\<lparr>co_sites := s'\<rparr>) \<and> (case r of Inl _ \<Rightarrow> True | Inr cs \<Rightarrow> requestedSite ds (ds_ServiceType d) cs)"
  using assms by_descriptor_ok [OF lifetime_contract [of ds], of d "co_sites c"]
  by (cases r) (auto simp: sitesOk_def exactOk_def requestedSite_def servesAs_def)

lemma sites_realized:
  assumes "sitesOk ds c" "case a of ValueAccessor v \<Rightarrow> True | SiteAccessor cs \<Rightarrow> requestedSite ds t cs"
  shows "sitesOk ds (c\<lparr>co_realized := mput t a (co_realized c)\<rparr>)"
    "sitesOk ds (c\<lparr>co_realizedKeys := mput k a (co_realizedKeys c)\<rparr>)"
  using assms by (auto simp: sitesOk_def gomap split: accessor.splits if_splits)

interpretation lifetimes: container_invariant rt "sitesOk ds" "requestedSite ds" "\<lambda>_ _. True" "\<lambda>_. True" for rt ds
proof unfold_locales
  fix c t a
  show "sitesOk ds c \<Longrightarrow> mget (co_realized c) t = Some a \<Longrightarrow>
      case a of ValueAccessor v \<Rightarrow> True | SiteAccessor cs \<Rightarrow> requestedSite ds t cs"
    by (cases a) (auto simp: sitesOk_def)
next
  fix c key a
  show "sitesOk ds c \<Longrightarrow> mget (co_realizedKeys c) key = Some a \<Longrightarrow>
      \<exists>t. case a of ValueAccessor v \<Rightarrow> True | SiteAccessor cs \<Rightarrow> requestedSite ds t cs"
    by (cases a) (auto simp: sitesOk_def)
qed (erule (1) sites_request sites_descriptor sites_realized | erule (2) sites_descriptor |
  auto simp: sitesOk_def live_dispose live_root intro: live_resolve live_scope split: sum.split; fail)+

text \<open>A service type that is registered without transient descriptors and without conflicting lifetimes.\<close>

definition sharedType :: "Descriptor list \<Rightarrow> rtype \<Rightarrow> bool" where
  "sharedType ds t \<longleftrightarrow>
    t \<noteq> ContainerType \<and> kindT t \<noteq> KSlice \<and> detectLifetimeConflicts ds = [] \<and>
    list_all (\<lambda>d. provides d t \<longrightarrow>
      ds_Lifetime d \<noteq> Lifetime_Transient \<and> ds_ServiceType d \<noteq> ContainerType \<and> kindT (ds_ServiceType d) \<noteq> KSlice) ds"

definition singletonType :: "Descriptor list \<Rightarrow> rtype \<Rightarrow> bool" where
  "singletonType ds t \<longleftrightarrow> sharedType ds t \<and> list_all (\<lambda>d. provides d t \<longrightarrow> ds_Lifetime d = Lifetime_Singleton) ds"

lemma no_conflict:
  assumes "detectLifetimeConflicts ds = []" "d \<in> set ds" "d' \<in> set ds" "ds_ServiceType d = ds_ServiceType d'"
  shows "ds_Lifetime d = ds_Lifetime d'"
proof (rule ccontr)
  assume "ds_Lifetime d \<noteq> ds_Lifetime d'"
  then have "ds_ServiceType d \<in> set (detectLifetimeConflicts ds)" unfolding conflicts_spec using assms by metis
  then show False using assms(1) by simp
qed

lemma site_provider:
  assumes ty: "sharedType ds t" and a: "servesAs ds a t" "fromDescriptor ds a c"
  obtains d where "d \<in> set ds" "provides d t" "rc_Location c = rc_Location (newResultCacheWithLifetime (ds_Lifetime d) a 0)"
proof -
  obtain d' where d': "d' \<in> set ds" "ds_ServiceType d' = a"
      "rc_Location c = rc_Location (newResultCacheWithLifetime (ds_Lifetime d') a 0)"
    using a(2) by (auto simp: fromDescriptor_def)
  show thesis
  proof (cases "a = t")
    case True
    then show ?thesis using that d' by auto
  next
    case False
    then obtain d where d: "d \<in> set ds" "ds_ServiceType d = a" "provides d t"
      using a(1) by (auto simp: servesAs_def list_ex_iff)
    then have "ds_Lifetime d = ds_Lifetime d'" using no_conflict [of ds d d'] ty d' by (simp add: sharedType_def)
    then show ?thesis using that d d' by auto
  qed
qed

lemma plain_type:
  assumes "sharedType ds t" "servesAs ds a t"
  shows "a \<noteq> ContainerType \<and> kindT a \<noteq> KSlice"
  using assms by (auto simp: sharedType_def servesAs_def list_ex_iff list_all_iff)

lemma shared_site:
  assumes ty: "sharedType ds t" and cs: "requestedSite ds t cs"
  shows "cachingSite cs" "singletonType ds t \<Longrightarrow> cachedBy (SiteAccessor cs) s v w \<Longrightarrow> cachedBy (SiteAccessor cs) s' v w"
proof -
  have built: "rc_Location c = CacheLocation_Root \<or> rc_Location c = CacheLocation_Scope \<and> \<not> singletonType ds t"
    if prov: "servesAs ds a t" "fromDescriptor ds a c" for a c
  proof -
    obtain d where d: "d \<in> set ds" "provides d t" "rc_Location c = rc_Location (newResultCacheWithLifetime (ds_Lifetime d) a 0)"
      using site_provider [OF ty prov] .
    have "ds_Lifetime d \<noteq> Lifetime_Transient" using ty d(1,2) by (auto simp: sharedType_def list_all_iff)
    moreover have "singletonType ds t \<Longrightarrow> ds_Lifetime d = Lifetime_Singleton"
      using d(1,2) by (auto simp: singletonType_def list_all_iff)
    ultimately show ?thesis using d(3) by (cases "ds_Lifetime d") (auto simp: newResultCacheWithLifetime_def)
  qed
  have cases: "(\<exists>i a u. cs = ConstantCallSite i a u) \<or> rc_Location (csCache cs) = CacheLocation_Root \<or>
      isScoped cs \<and> \<not> singletonType ds t"
    using cs built plain_type [OF ty, of "csServiceType cs"] unfolding requestedSite_def by (cases cs) auto
  then show "cachingSite cs" by (auto simp: cachingSite_def)
  show "cachedBy (SiteAccessor cs) s' v w" if "singletonType ds t" "cachedBy (SiteAccessor cs) s v w"
    using cases that by (auto simp: cachedBy_def NoneResultCache_def)
qed

lemma runAccessor_result:
  assumes "runAccessor rt t s a c = (Inr v, c1)"
  shows "co_realized c1 = co_realized c"
    "case a of ValueAccessor u \<Rightarrow> u = v | SiteAccessor cs \<Rightarrow> Resolve rt cs s (co_world c) = (Inr v, co_world c1)"
  using assms by (auto simp: runAccessor_def split: option.splits accessor.splits prod.splits sum.splits)

lemma runAccessor_caches:
  assumes "runAccessor rt t s a c = (Inr v, c1)" "storedOk (co_world c)"
    "case a of ValueAccessor u \<Rightarrow> True | SiteAccessor cs \<Rightarrow> cachingSite cs"
  shows "cachedBy a s v (co_world c1)"
proof (cases a)
  case (ValueAccessor u)
  then show ?thesis using runAccessor_result(2) [OF assms(1)] by (simp add: cachedBy_def)
next
  case (SiteAccessor cs)
  then show ?thesis using runAccessor_result(2) [OF assms(1)] resolve_caches [of rt cs s] assms(2,3) by simp
qed

lemma get_caches:
  assumes ok: "sitesOk ds c" and ty: "sharedType ds t" and g: "scopeGet rt t s c = (Inr v, c1)"
  obtains a where "mget (co_realized c1) t = Some a" "cachedBy a s v (co_world c1)"
    "case a of ValueAccessor u \<Rightarrow> True | SiteAccessor cs \<Rightarrow> requestedSite ds t cs"
proof -
  have op: "\<not> w_closed (co_world c)" "GetWithScope rt t s c = (Inr v, c1)"
    using g by (auto simp: scopeGet_def GetWithScope_def split: if_splits)
  have caching: "case a of ValueAccessor u \<Rightarrow> True | SiteAccessor cs \<Rightarrow> cachingSite cs"
    if "case a of ValueAccessor u \<Rightarrow> True | SiteAccessor cs \<Rightarrow> requestedSite ds t cs" for a
    using that shared_site(1) [OF ty] by (cases a) auto
  show thesis
  proof (cases "mget (co_realized c) t")
    case (Some a)
    then have r: "runAccessor rt t s a c = (Inr v, c1)" using op by (simp add: GetWithScope_def)
    have a: "case a of ValueAccessor u \<Rightarrow> True | SiteAccessor cs \<Rightarrow> requestedSite ds t cs"
      using lifetimes.realizedD [OF ok Some] .
    have "storedOk (co_world c)" using ok by (simp add: sitesOk_def liveOk_def)
    then show ?thesis
      using that runAccessor_result(1) [OF r] runAccessor_caches [OF r _ caching [OF a]] Some a by simp
  next
    case None
    obtain q c' where q: "createServiceAccessor rt t c = (q, c')" by fastforce
    with op None obtain a where qa: "q = Inr a" "runAccessor rt t s a (c'\<lparr>co_realized := mput t a (co_realized c')\<rparr>) = (Inr v, c1)"
      by (cases q) (auto simp: GetWithScope_def)
    have "lifetimes.accessorOk ds t c (q, c')" using lifetimes.createServiceAccessor_ok [OF ok op(1), of t rt] q by simp
    then have a: "case a of ValueAccessor u \<Rightarrow> True | SiteAccessor cs \<Rightarrow> requestedSite ds t cs"
        and "storedOk (co_world c')"
      using qa(1) by (auto simp: lifetimes.accessorOk_def sitesOk_def liveOk_def)
    then show ?thesis
      using that runAccessor_result(1) [OF qa(2)] runAccessor_caches [OF qa(2) _ caching [OF a]] by (simp add: gomap)
  qed
qed

lemma cached_later:
  assumes k: "keeps c1 c2" and a: "cachedBy a s v (co_world c1)"
    and s: "s < w_count (co_world c1)" "\<not> sc_disposed (w_scope (co_world c2) s)"
  shows "cachedBy a s v (co_world c2)"
proof (cases a)
  case (SiteAccessor cs)
  then show ?thesis using a k s by (cases "siteKey cs") (auto simp: cachedBy_def keeps_def)
qed (use a in \<open>simp add: cachedBy_def\<close>)

definition refusal :: "rtype \<Rightarrow> diError \<Rightarrow> bool" where
  "refusal t e = (case e of ObjectDisposed \<Rightarrow> True | ContainerDisposed \<Rightarrow> True | ScopedFromRoot u _ \<Rightarrow> u = t | _ \<Rightarrow> False)"

lemma get_again:
  assumes "mget (co_realized c) t = Some a" "cachedBy a s v (co_world c)" "storedOk (co_world c)"
  shows "case fst (scopeGet rt t s c) of Inl e \<Rightarrow> refusal t e | Inr u \<Rightarrow> u = v"
proof -
  have "case fst (runAccessor rt t s a c) of Inl e \<Rightarrow> refusal t e | Inr u \<Rightarrow> u = v"
  proof (cases a)
    case (ValueAccessor u)
    then show ?thesis
      using assms(2)
      by (auto simp: runAccessor_def cachedBy_def ValidateResolution_def refusal_def bind_eq_Some_conv split: option.splits if_splits)
  next
    case (SiteAccessor cs)
    then show ?thesis
      using cached_again [of cs s v "co_world c" rt] assms(2,3)
      by (auto simp: runAccessor_def ValidateResolution_def refusal_def bind_eq_Some_conv split: option.splits if_splits)
  qed
  then show ?thesis using assms(1) by (simp add: scopeGet_def GetWithScope_def refusal_def)
qed

lemma sitesOk_new: "sitesOk ds (newContainer ds options)"
  by (auto simp: sitesOk_def newContainer_def live_new cacheOk_def builtInServices_def)

lemma shared_later:
  assumes ok: "sitesOk ds c" and ty: "sharedType ds t" and s: "s < w_count (co_world c)"
    and g: "scopeGet rt t s c = (Inr v, c1)" and later: "(coStep rt)\<^sup>*\<^sup>* c1 c2"
    and s': "s' = s \<or> singletonType ds t \<and> s' < w_count (co_world c1)"
  shows "case fst (scopeGet rt t s' c2) of Inl e \<Rightarrow> refusal t e | Inr u \<Rightarrow> u = v"
proof (cases "sc_disposed (w_scope (co_world c2) s')")
  case True
  then show ?thesis by (simp add: scopeGet_def refusal_def)
next
  case False
  obtain a where a: "mget (co_realized c1) t = Some a" "cachedBy a s v (co_world c1)"
    "case a of ValueAccessor u \<Rightarrow> True | SiteAccessor cs \<Rightarrow> requestedSite ds t cs"
    using get_caches [OF ok ty g] .
  have live: "liveOk (co_world c)" using ok by (simp add: sitesOk_def)
  have step: "coStep rt c c1" using scopeGets [OF s, of rt t] g by simp
  have c1: "liveOk (co_world c1)" "keeps c c1" using keeping.step_keeps [OF step, of c] live by simp_all
  have c2: "liveOk (co_world c2)" "keeps c1 c2" using keeping.steps_keep [OF later, of c1] c1(1) by simp_all
  have "s' < w_count (co_world c1)" using s s' c1(2) by (auto simp: keeps_def)
  moreover have "cachedBy a s' v (co_world c1)"
    using s' a(2,3) shared_site(2) [OF ty] by (cases a) (auto simp: cachedBy_def [of "ValueAccessor _"])
  ultimately have "cachedBy a s' v (co_world c2)" using cached_later [OF c2(2)] False by blast
  moreover have "mget (co_realized c2) t = Some a" using c2(2) a(1) by (simp add: keeps_def)
  ultimately show ?thesis using get_again c2(1) by (simp add: liveOk_def)
qed

section \<open>Types of the resolved services\<close>

text \<open>A descriptor that passed its checks, with user code that behaves.\<close>

definition wfDescriptor :: "runtime \<Rightarrow> Descriptor \<Rightarrow> bool" where
  "wfDescriptor rt d \<longleftrightarrow>
    (case ds_Instance d of None \<Rightarrow> True | Some v \<Rightarrow> fits (rt_types rt) (ds_ServiceType d) v) \<and>
    (case ds_Factory d of None \<Rightarrow> True | Some f \<Rightarrow> factoryLaw rt f (ds_ServiceType d)) \<and>
    (case ds_Ctor d of None \<Rightarrow> True | Some c \<Rightarrow> ctorLaw rt c \<and> checkConstructor (rt_types rt) c (ds_ServiceType d)) \<and>
    list_all (\<lambda>t. kindT (ds_ServiceType d) = KPtr \<and> te_Implements (rt_types rt) (ds_ServiceType d) t)
      (ds_ImplementedInterfaceTypes d)"

lemma validated_implements:
  "validateServiceType te T implemented = Some u \<Longrightarrow>
   list_all (\<lambda>t. kindT T = KPtr \<and> te_Implements te T t) (map derefT implemented)"
  by (auto simp: validateServiceType_def list_all_iff split: if_splits)

lemma wf_NewConstructorDescriptor:
  "NewConstructorDescriptor (rt_types rt) i t lt ctor implemented = Some d \<Longrightarrow> ctorLaw rt ctor \<Longrightarrow> wfDescriptor rt d"
  using validated_implements [of "rt_types rt" t implemented]
  by (auto simp: NewConstructorDescriptor_def wfDescriptor_def split: if_splits)

lemma wf_NewInstanceDescriptor:
  "NewInstanceDescriptor (rt_types rt) i t v implemented = Some d \<Longrightarrow> wfDescriptor rt d"
  using validated_implements [of "rt_types rt" t implemented]
  by (auto simp: NewInstanceDescriptor_def wfDescriptor_def instanceAssignable_def fits_def split: if_splits option.splits)

lemma wf_NewFactoryDescriptor: "factoryLaw rt f t \<Longrightarrow> wfDescriptor rt (NewFactoryDescriptor i t lt f)"
  by (simp add: NewFactoryDescriptor_def wfDescriptor_def)

lemma typed_contract:
  assumes "list_all (wfDescriptor rt) ds"
  shows "siteContract ds (wfSite rt) (standsFor (rt_types rt))"
proof -
  have d: "wfDescriptor rt d" if "d \<in> set ds" for d using assms that by (simp add: list_all_iff)
  have key: "keyOk t (newResultCacheWithLifetime lt t slot)" for t lt slot
    by (simp add: newResultCacheWithLifetime_def)
  have built: "ds_Instance d = Some v \<Longrightarrow> fits (rt_types rt) (ds_ServiceType d) v"
    "ds_Factory d = Some f \<Longrightarrow> factoryLaw rt f (ds_ServiceType d)"
    "ds_Ctor d = Some c \<Longrightarrow> ctorLaw rt c \<and> checkConstructor (rt_types rt) c (ds_ServiceType d)" if "d \<in> set ds" for d v f c
    using d [OF that] by (simp_all add: wfDescriptor_def)
  have "provides d t \<Longrightarrow> standsFor (rt_types rt) (ds_ServiceType d) t" if "d \<in> set ds" for d t
    using d [OF that] by (auto simp: wfDescriptor_def standsFor_def descriptorImplements_def list_all_iff)
  moreover have "wfSite rt (SliceCallSite i e es NoneResultCache)"
    "wfSite rt (SliceCallSite i e es \<lparr>rc_Location = l, rc_Key = (Some (SliceT e), 0)\<rparr>)"
    if "list_all (\<lambda>c. wfSite rt c \<and> standsFor (rt_types rt) (csServiceType c) e) es" for i e es l
    using that by (auto simp: NoneResultCache_def list_all_iff)
  moreover have "standsFor (rt_types rt) t t" for t by (simp add: standsFor_def)
  ultimately show ?thesis
    unfolding siteContract_def
    by (intro conjI allI ballI impI) (use built key in \<open>auto simp: list_all_iff\<close>)
qed

abbreviation typedSite :: "runtime \<Rightarrow> rtype \<Rightarrow> callSite \<Rightarrow> bool" where
  "typedSite rt t cs \<equiv> wfSite rt cs \<and> standsFor (rt_types rt) (csServiceType cs) t"

definition typedAccessor :: "runtime \<Rightarrow> rtype \<Rightarrow> accessor \<Rightarrow> bool" where
  "typedAccessor rt t a =
    (case a of ValueAccessor v \<Rightarrow> fits (rt_types rt) t v | SiteAccessor cs \<Rightarrow> typedSite rt t cs)"

definition typedAll :: "typeEnv \<Rightarrow> world \<Rightarrow> bool" where
  "typedAll te w \<longleftrightarrow>
    (\<forall>cs v. mget (w_values w) cs = Some v \<longrightarrow> fits te (csServiceType cs) v) \<and>
    (\<forall>s t slot v. resolvedAt w s (Some t, slot) = Some v \<longrightarrow> fits te t v)"

definition typedOk :: "runtime \<Rightarrow> Descriptor list \<Rightarrow> container \<Rightarrow> bool" where
  "typedOk rt ds c \<longleftrightarrow>
    liveOk (co_world c) \<and> co_descriptors c = ds \<and> cacheOk (wfSite rt) (co_sites c) \<and>
    typedAll (rt_types rt) (co_world c) \<and>
    (\<forall>t a. mget (co_realized c) t = Some a \<longrightarrow> typedAccessor rt t a) \<and>
    (\<forall>k a. mget (co_realizedKeys c) k = Some a \<longrightarrow> (\<exists>t. typedAccessor rt t a))"

lemma typed_scope: "typedAll te w \<Longrightarrow> CreateScope w = Some (n, w') \<Longrightarrow> typedAll te w'"
  by (auto simp: typedAll_def newScope_eq onScope_def resolvedAt_def newEngineScope_def split: if_splits)

lemma typed_dispose: "typedAll te w \<Longrightarrow> typedAll te (DisposeScope s w)" "typedAll te w \<Longrightarrow> typedAll te (DisposeContainer w)"
  by (auto simp: typedAll_def DisposeScope_eq DisposeContainer_def onScope_def resolvedAt_def split: if_splits)

lemma typed_resolve:
  assumes law: "typeLaw (rt_types rt)" and w: "typedAll (rt_types rt) w" "liveOk w" "\<not> sc_disposed (w_scope w s)"
    and cs: "typedSite rt t cs" and r: "Resolve rt cs s w = (q, w')"
  shows "typedAll (rt_types rt) w' \<and> (case q of Inl e \<Rightarrow> e \<noteq> Panicked | Inr v \<Rightarrow> fits (rt_types rt) t v)"
proof -
  have "typedWorld (rt_types rt) s w" using w by (auto simp: typedWorld_def typedAll_def liveOk_def)
  note out = visit_invariant.resolve_outcome [OF typed_visits [OF law, of s] _ _ this r]
  have "typedWorld (rt_types rt) s w'" "case q of Inl e \<Rightarrow> e \<noteq> Panicked | Inr v \<Rightarrow> fits (rt_types rt) (csServiceType cs) v"
    using out cs by simp_all
  then show ?thesis
    using fits_standsFor [OF law _ conjunct2 [OF cs]] by (cases q) (auto simp: typedWorld_def typedAll_def)
qed

lemma typed_request:
  assumes wf: "list_all (wfDescriptor rt) ds" and c: "typedOk rt ds c"
    and q: "requestCallSite (co_descriptors c) t (co_sites c) = (r, s')"
  shows "typedOk rt ds (c\<lparr>co_sites := s'\<rparr>) \<and> (case r of Inl _ \<Rightarrow> True | Inr cs \<Rightarrow> typedSite rt t cs)"
  using c q request_ok [OF typed_contract [OF wf], of "co_sites c" t]
  by (cases r) (auto simp: typedOk_def outcomeOk_def)

lemma typed_descriptor:
  assumes wf: "list_all (wfDescriptor rt) ds" and c: "typedOk rt ds c"
    and q: "d \<in> set (co_descriptors c)" "GetCallSiteByDescriptor (co_descriptors c) d (co_sites c) = (r, s')"
  shows "typedOk rt ds (c\<lparr>co_sites := s'\<rparr>) \<and> (case r of Inl _ \<Rightarrow> True | Inr cs \<Rightarrow> typedSite rt (ds_ServiceType d) cs)"
  using c q by_descriptor_ok [OF typed_contract [OF wf], of d "co_sites c"]
  by (cases r) (auto simp: typedOk_def exactOk_def standsFor_def)

lemma typed_realized:
  assumes "typedOk rt ds c" "typedAccessor rt t a"
  shows "typedOk rt ds (c\<lparr>co_realized := mput t a (co_realized c)\<rparr>)"
    "typedOk rt ds (c\<lparr>co_realizedKeys := mput k a (co_realizedKeys c)\<rparr>)"
  using assms by (auto simp: typedOk_def gomap split: if_splits)

lemma typed_container:
  assumes law: "typeLaw (rt_types rt)" and wf: "list_all (wfDescriptor rt) ds"
  shows "container_invariant rt (typedOk rt ds) (typedSite rt) (fits (rt_types rt)) (\<lambda>e. e \<noteq> Panicked)"
proof (unfold_locales, unfold typedAccessor_def [symmetric])
  fix c t cs s q w'
  assume "typedOk rt ds c" "typedSite rt t cs" "\<not> sc_disposed (w_scope (co_world c) s)" "Resolve rt cs s (co_world c) = (q, w')"
  then show "typedOk rt ds (onWorld c w') \<and> (case q of Inl e \<Rightarrow> e \<noteq> Panicked | Inr v \<Rightarrow> fits (rt_types rt) t v)"
    using typed_resolve [OF law, of "co_world c" s cs t q w'] live_resolve [of "co_world c" rt cs s q w']
    by (simp add: typedOk_def)
next
  fix c ss
  assume "typedOk rt ds c"
  then show "typedOk rt ds (c\<lparr>co_scoped := ss\<rparr>)" by (simp add: typedOk_def)
next
  fix c n w'
  assume "typedOk rt ds c" "CreateScope (co_world c) = Some (n, w')"
  then show "typedOk rt ds (onWorld c w')"
    using typed_scope [of _ "co_world c"] live_scope [of "co_world c"] by (simp add: typedOk_def)
next
  fix c s
  assume "typedOk rt ds c"
  then show "typedOk rt ds (onWorld c (DisposeScope s (co_world c)))" "typedOk rt ds (onWorld c (DisposeContainer (co_world c)))"
    using typed_dispose [of _ "co_world c"] live_dispose [of "co_world c"] by (simp_all add: typedOk_def)
next
  fix c
  assume "typedOk rt ds c" "\<not> w_closed (co_world c)"
  then show "\<not> sc_disposed (w_scope (co_world c) 0)" using live_root by (simp add: typedOk_def)
qed (erule typed_realized typed_request [OF wf] typed_descriptor [OF wf], assumption+ | simp add: typedOk_def; fail)+

text \<open>No scoped service is cached as a singleton.\<close>

definition onlyRoots :: "world \<Rightarrow> bool" where
  "onlyRoots w \<longleftrightarrow> (\<forall>cs v. mget (w_values w) cs = Some v \<longrightarrow> rc_Location (csCache cs) = CacheLocation_Root)"

lemma new_world:
  "typedAll te newWorld" "owned rt newWorld" "onlyRoots newWorld"
  by (auto simp: typedAll_def owned_def onlyRoots_def newWorld_def newEngineScope_def resolvedAt_def)

lemma typedOk_new:
  assumes "typeLaw (rt_types rt)"
  shows "typedOk rt ds (newContainer ds options)"
  using typeLaw_builtIn [OF assms]
  by (auto simp: typedOk_def newContainer_def live_new new_world cacheOk_def builtInServices_def)

section \<open>Validated sites\<close>

definition noExempt :: "callSite \<Rightarrow> bool" where
  "noExempt cs \<longleftrightarrow> list_all (\<lambda>c. list_all (\<lambda>x. \<not> exempt x) (csChildren c)) (visitedSites cs) \<and> \<not> exempt cs"

lemma noExempt_children: "noExempt cs \<Longrightarrow> list_all noExempt (csChildren cs)"
proof -
  assume n: "noExempt cs"
  then have v: "visitedSites cs = cs # concat (map visitedSites (csChildren cs))"
    by (subst visitedSites.simps) (simp add: noExempt_def)
  then show ?thesis using n by (auto simp: noExempt_def list_all_iff)
qed

definition scopeSafe :: "resolverContext \<Rightarrow> callSite \<Rightarrow> bool" where
  "scopeSafe ctx cs \<longleftrightarrow> noExempt cs \<and> (if cx_Scope ctx = 0 then \<not> usesScoped cs else \<not> captive cs)"

lemma scopeSafe_children:
  assumes "scopeSafe ctx cs" "cx_Scope ctx' = cx_Scope ctx \<or> cx_Scope ctx' = 0 \<and> rc_Location (csCache cs) = CacheLocation_Root"
  shows "list_all (scopeSafe ctx') (csChildren cs)"
proof -
  have "\<not> exempt cs" "list_all noExempt (csChildren cs)"
    using assms(1) noExempt_children [of cs] by (auto simp: scopeSafe_def noExempt_def)
  then show ?thesis
    using assms usesScoped_step [of cs] captive_step [of cs] by (auto simp: scopeSafe_def list_all_iff split: if_splits)
qed

interpretation validated: visit_invariant rt "\<lambda>_. True" scopeSafe "\<lambda>_ _. True" "\<lambda>_. True" onlyRoots for rt
proof unfold_locales
  fix ctx cs
  assume s: "scopeSafe ctx cs"
  show "list_all (scopeSafe ctx) (csChildren cs)" by (rule scopeSafe_children [OF s]) simp
  show "list_all (scopeSafe (scopeContext ctx)) (csChildren cs)"
    by (rule scopeSafe_children [OF s]) (simp add: scopeContext_def)
  assume "atRoot ctx cs"
  then show "list_all (scopeSafe (rootContext ctx)) (csChildren cs)"
    by (intro scopeSafe_children [OF s]) (auto simp: atRoot_def)
next
  fix w cs ctx v
  assume "onlyRoots w" "scopeSafe ctx cs" "atRoot ctx cs"
  then show "onlyRoots (SetValue cs v w)"
    using usesScoped_step [of cs] by (auto simp: onlyRoots_def scopeSafe_def noExempt_def atRoot_def)
qed (auto simp: list_all_iff onlyRoots_def split: option.splits sum.splits)

section \<open>Samples\<close>

abbreviation scopePtr :: rtype where "scopePtr \<equiv> PtrT (StructT ''di'' ''ContainerEngineScope'')"

definition sampleTypes :: typeEnv where
  "sampleTypes =
    (let implements = (\<lambda>a b. (a, b) \<in> set
       [(repoT, storeT), (repoT, DisposableType), (scopePtr, ContainerType), (scopePtr, ScopeFactoryType),
        (scopePtr, DisposableType), (PtrT (StructT ''di'' ''CallSiteFactory''), IsServiceType)])
     in \<lparr>te_Implements = implements, te_AssignableTo = (\<lambda>a b. a = b \<or> implements a b)\<rparr>)"

definition sampleRuntime :: runtime where
  "sampleRuntime =
    \<lparr>rt_types = sampleTypes,
     rt_construct = (\<lambda>f args n. Some [Obj (if f = 0 then repoT else handlerT) (Suc n)]),
     rt_factory = (\<lambda>f s n. None)\<rparr>"

definition plainOptions :: Options where
  "plainOptions = \<lparr>op_ValidateScopes = False, op_ValidateOnBuild = False, op_DetectLifetimeConflicts = False\<rparr>"

definition strictOptions :: Options where
  "strictOptions = \<lparr>op_ValidateScopes = True, op_ValidateOnBuild = True, op_DetectLifetimeConflicts = True\<rparr>"

text \<open>A container with one scope beside the root.\<close>

definition sampleContainer :: "Descriptor list \<Rightarrow> Options \<Rightarrow> container" where
  "sampleContainer ds options =
    (case Build ds options of
       Inr c \<Rightarrow> (case CreateScope (co_world c) of Some (_, w) \<Rightarrow> onWorld c w | None \<Rightarrow> c)
     | Inl _ \<Rightarrow> newContainer ds options)"

text \<open>A scoped handler that needs a transient repository, which is disposable; and a scoped repository.\<close>

definition transientInScoped :: "Descriptor list" where
  "transientInScoped =
    [sampleDescriptor 0 repoT Lifetime_Transient [] [], sampleDescriptor 1 handlerT Lifetime_Scoped [repoT] []]"

definition scopedStore :: "Descriptor list" where
  "scopedStore = [sampleDescriptor 0 repoT Lifetime_Scoped [] [storeT]]"

definition sampleSite :: "rtype \<Rightarrow> Descriptor list \<Rightarrow> callSite" where
  "sampleSite t ds =
    (case fst (requestCallSite ds t builtInServices) of Inr cs \<Rightarrow> cs | Inl _ \<Rightarrow> ContainerCallSite 0)"

text \<open>Two slices, registered under the same key.\<close>

definition keyedSlices :: "Descriptor list" where
  "keyedSlices =
    (let add = (\<lambda>e n cb. the (AddInstanceWithLookupKeys sampleTypes cb n (SliceT e) (SliceVal e []) [''all''] [] []))
     in add handlerT 1 (add repoT 0 []))"

lemma sample_typeLaw: "typeLaw sampleTypes"
  by (auto simp: typeLaw_def sampleTypes_def Let_def ContainerType_def ScopeFactoryType_def IsServiceType_def DisposableType_def)

lemma sample_wf: "list_all (wfDescriptor sampleRuntime) sampleServices"
  by (simp add: sample_simps wfDescriptor_def sampleRuntime_def ctorLaw_def declaredAs_def checkConstructor_def sampleTypes_def Let_def)

lemma sample_coReach: "coReach rt sampleServices plainOptions (sampleContainer sampleServices plainOptions)"
proof -
  have b: "Build sampleServices plainOptions = Inr (newContainer sampleServices plainOptions)"
    by (simp add: Build_def plainOptions_def)
  obtain w where w: "CreateScope (co_world (newContainer sampleServices plainOptions)) = Some (1, w)"
    by (simp add: newContainer_def newWorld_def CreateScope_def)
  have "coStep rt (newContainer sampleServices plainOptions) (sampleContainer sampleServices plainOptions)"
    using createsScope [OF w] by (simp add: sampleContainer_def b w)
  then show ?thesis using b by (auto simp: coReach_def)
qed

section \<open>Properties\<close>







text \<open>
  C32: The validator refuses a site exactly when a singleton in it holds a scoped service, and records the type of the
  site exactly when resolving the site resolves a scoped service.
\<close>

theorem validator_finds_captives:
  "case ValidateCallSite cs scopedServices of
     Inl e \<Rightarrow> captive cs \<and> (\<exists>scoped single. e = ScopedInSingleton scoped single)
   | Inr services \<Rightarrow>
       \<not> captive cs \<and>
       (if usesScoped cs then \<exists>scoped. services = mput (csServiceType cs) scoped scopedServices
        else services = scopedServices)"
  using validateSite_decides [of cs None]
  by (auto simp: ValidateCallSite_def decides_def split: sum.splits option.splits)





section \<open>Where the container falls short\<close>

text \<open>
  A scoped service that needs a transient one whose value is disposable: capturing the value takes the lock of the
  scope, which the resolver holds.
\<close>

theorem transient_in_scoped_deadlocks:
  "fst (scopeGet sampleRuntime handlerT 1 (sampleContainer transientInScoped plainOptions)) = Inl (ResolveFailed LockedTwice)"
  by code_simp

text \<open>
  With every option on, the root scope refuses a scoped service under its own type and returns it under an
  implemented interface: the validator records one type and looks up the other.
\<close>

theorem alias_escapes_validation:
  "fst (containerGet sampleRuntime repoT (sampleContainer scopedStore strictOptions)) = Inl (ScopedFromRoot repoT repoT) \<and>
   fst (containerGet sampleRuntime storeT (sampleContainer scopedStore strictOptions)) = Inr (Obj repoT 1)"
  by code_simp

text \<open>
  A lookup key holds the package and the name of the type; a type without a name has neither, so slices of different
  elements share their keys and the later registration takes the place of the earlier one.
\<close>

theorem keys_of_unnamed_types_collide:
  "fst (TryGetByLookupKey sampleRuntime (SliceT handlerT) ''all'' 1 (sampleContainer keyedSlices plainOptions))
     = Inr (SliceVal handlerT []) \<and>
   fst (TryGetByLookupKey sampleRuntime (SliceT repoT) ''all'' 1 (sampleContainer keyedSlices plainOptions))
     = Inl (TypeIncompatibility (SliceT repoT))"
  by code_simp

end
